(* ===== verification/JS_Prelude.thy ===== *)
theory JS_Prelude
  imports Complex_Main
begin

text \<open>
  The part of the JavaScript language and its standard library that the modelled scripts use:
  numbers, number/string conversion, regular-expression fragments on character lists, text built
  by concatenation, and the \<open>null\<close>/out-of-range reads of arrays.

  Numbers. A double is a value of \<open>jsnum\<close>: a finite value, an infinity or NaN. Finite
  arithmetic is exact (rounding to 53 bits and the sign of zero are not modelled); infinities, NaN
  and the comparisons that are false on NaN are. Code that only meets finite numbers uses
  \<open>real\<close> directly.
\<close>

named_theorems js_simps "evaluation of the JavaScript primitives on finite numbers"
named_theorems cmd_simps "facts about sequences of canvas commands"

section \<open>Numbers\<close>

datatype jsnum = NaN | PInf | NInf | Fin real

fun jneg :: "jsnum \<Rightarrow> jsnum" where
  "jneg NaN = NaN"
| "jneg PInf = NInf"
| "jneg NInf = PInf"
| "jneg (Fin x) = Fin (- x)"

fun jadd :: "jsnum \<Rightarrow> jsnum \<Rightarrow> jsnum" where
  "jadd (Fin x) (Fin y) = Fin (x + y)"
| "jadd NaN _ = NaN"
| "jadd _ NaN = NaN"
| "jadd PInf NInf = NaN"
| "jadd NInf PInf = NaN"
| "jadd PInf _ = PInf"
| "jadd NInf _ = NInf"
| "jadd _ PInf = PInf"
| "jadd _ NInf = NInf"

definition jsub :: "jsnum \<Rightarrow> jsnum \<Rightarrow> jsnum" where
  "jsub x y = jadd x (jneg y)"

definition signed_inf :: "real \<Rightarrow> jsnum" where
  "signed_inf s = (if s = 0 then NaN else if s > 0 then PInf else NInf)"

fun jmul :: "jsnum \<Rightarrow> jsnum \<Rightarrow> jsnum" where
  "jmul (Fin x) (Fin y) = Fin (x * y)"
| "jmul NaN _ = NaN"
| "jmul _ NaN = NaN"
| "jmul (Fin x) PInf = signed_inf x"
| "jmul (Fin x) NInf = signed_inf (- x)"
| "jmul PInf (Fin y) = signed_inf y"
| "jmul NInf (Fin y) = signed_inf (- y)"
| "jmul PInf PInf = PInf"
| "jmul NInf NInf = PInf"
| "jmul _ _ = NInf"

text \<open>Division; a zero divisor counts as positive zero.\<close>

fun jdiv :: "jsnum \<Rightarrow> jsnum \<Rightarrow> jsnum" where
  "jdiv (Fin x) (Fin y) = (if y = 0 then signed_inf x else Fin (x / y))"
| "jdiv NaN _ = NaN"
| "jdiv _ NaN = NaN"
| "jdiv (Fin x) _ = Fin 0"
| "jdiv PInf (Fin y) = (if y < 0 then NInf else PInf)"
| "jdiv NInf (Fin y) = (if y < 0 then PInf else NInf)"
| "jdiv _ _ = NaN"

fun jlt :: "jsnum \<Rightarrow> jsnum \<Rightarrow> bool" where
  "jlt (Fin x) (Fin y) \<longleftrightarrow> x < y"
| "jlt NaN _ \<longleftrightarrow> False"
| "jlt _ NaN \<longleftrightarrow> False"
| "jlt NInf y \<longleftrightarrow> y \<noteq> NInf"
| "jlt x PInf \<longleftrightarrow> x \<noteq> PInf"
| "jlt _ _ \<longleftrightarrow> False"

definition jeq :: "jsnum \<Rightarrow> jsnum \<Rightarrow> bool" where
  "jeq x y \<longleftrightarrow> x = y \<and> x \<noteq> NaN"

definition jle :: "jsnum \<Rightarrow> jsnum \<Rightarrow> bool" where
  "jle x y \<longleftrightarrow> jlt x y \<or> jeq x y"

fun jfloor :: "jsnum \<Rightarrow> jsnum" where
  "jfloor (Fin x) = Fin (of_int \<lfloor>x\<rfloor>)"
| "jfloor x = x"

text \<open>Truthiness of a number: zero and NaN are false.\<close>

definition jtruthy :: "jsnum \<Rightarrow> bool" where
  "jtruthy x \<longleftrightarrow> x \<noteq> NaN \<and> x \<noteq> Fin 0"

lemma jsub_Fin [simp, js_simps]: "jsub (Fin x) (Fin y) = Fin (x - y)"
  by (simp add: jsub_def)

lemma jlt_NaN [simp]: "\<not> jlt x NaN"
  by (cases x) auto

lemma jle_Fin [simp, js_simps]: "jle (Fin x) (Fin y) \<longleftrightarrow> x \<le> y"
  by (auto simp: jle_def jeq_def)

lemma jeq_Fin [simp, js_simps]: "jeq (Fin x) (Fin y) \<longleftrightarrow> x = y"
  by (simp add: jeq_def)

lemma jle_NaN [simp]: "\<not> jle NaN y" "\<not> jle x NaN"
  by (cases x; simp add: jle_def jeq_def)+

lemma jlt_irrefl [simp]: "\<not> jlt x x"
  by (cases x) auto

lemma jlt_trans: "jlt x y \<Longrightarrow> jlt y z \<Longrightarrow> jlt x z"
  by (cases x; cases y; cases z) auto

text \<open>\<open>Math.max\<close>, \<open>Math.min\<close>, \<open>Math.round\<close> and the truncating \<open>parseInt\<close> on finite numbers.\<close>

definition jsround :: "real \<Rightarrow> real" where
  "jsround x = of_int \<lfloor>x + 1 / 2\<rfloor>"

definition trunc :: "real \<Rightarrow> real" where
  "trunc x = (if x < 0 then of_int \<lceil>x\<rceil> else of_int \<lfloor>x\<rfloor>)"

lemma trunc_of_int [simp]: "trunc (of_int i) = of_int i"
  by (simp add: trunc_def)

lemma trunc_of_nat [simp]: "trunc (of_nat i) = of_nat i"
  by (metis of_int_of_nat_eq trunc_of_int)

lemma trunc_numeral [simp]: "trunc (numeral w) = numeral w"
  by (metis of_int_numeral trunc_of_int)

lemma trunc_0 [simp]: "trunc 0 = 0"
  by (simp add: trunc_def)

lemma trunc_1 [simp]: "trunc 1 = 1"
  by (simp add: trunc_def)

lemma trunc_nonneg [simp]: "0 \<le> x \<Longrightarrow> 0 \<le> trunc x"
  by (simp add: trunc_def)

lemma trunc_le: "0 \<le> x \<Longrightarrow> trunc x \<le> x"
  by (simp add: trunc_def)

lemma trunc_idem [simp]: "trunc (trunc x) = trunc x"
  by (simp add: trunc_def)

text \<open>The pattern \<open>value < min ? min : (value > max ? max : value)\<close> that three files repeat.\<close>

definition clamp :: "real \<Rightarrow> real \<Rightarrow> real \<Rightarrow> real" where
  "clamp lo v hi = (if v < lo then lo else if v > hi then hi else v)"

lemma clamp_bounds: "lo \<le> hi \<Longrightarrow> lo \<le> clamp lo v hi \<and> clamp lo v hi \<le> hi"
  by (simp add: clamp_def)

lemma clamp_id: "lo \<le> v \<Longrightarrow> v \<le> hi \<Longrightarrow> clamp lo v hi = v"
  by (simp add: clamp_def)

section \<open>Characters, digits and decimal strings\<close>

definition is_digit :: "char \<Rightarrow> bool" where
  "is_digit c \<longleftrightarrow> 48 \<le> (of_char c :: nat) \<and> (of_char c :: nat) \<le> 57"

definition digit_val :: "char \<Rightarrow> nat" where
  "digit_val c = of_char c - 48"

definition digit_char :: "nat \<Rightarrow> char" where
  "digit_char d = char_of (48 + d)"

fun nat_str :: "nat \<Rightarrow> string" where
  "nat_str n = (if n < 10 then [digit_char n] else nat_str (n div 10) @ [digit_char (n mod 10)])"

declare nat_str.simps [simp del]

definition int_str :: "int \<Rightarrow> string" where
  "int_str i = (if i < 0 then CHR ''-'' # nat_str (nat (- i)) else nat_str (nat i))"

definition digits_val :: "string \<Rightarrow> nat" where
  "digits_val s = foldl (\<lambda>a c. 10 * a + digit_val c) 0 s"

lemma of_char_digit_char: "d < 10 \<Longrightarrow> (of_char (digit_char d) :: nat) = 48 + d"
  by (simp add: digit_char_def)

lemma digit_char_simps [simp]:
  "digit_char 0 = CHR ''0''" "digit_char (Suc 0) = CHR ''1''" "digit_char 1 = CHR ''1''"
  "digit_char 2 = CHR ''2''" "digit_char 3 = CHR ''3''" "digit_char 4 = CHR ''4''"
  "digit_char 5 = CHR ''5''" "digit_char 6 = CHR ''6''" "digit_char 7 = CHR ''7''"
  "digit_char 8 = CHR ''8''" "digit_char 9 = CHR ''9''"
  by code_simp+

lemma is_digit_digit_char [simp]: "d < 10 \<Longrightarrow> is_digit (digit_char d)"
  by (simp add: is_digit_def of_char_digit_char)

lemma digit_val_digit_char [simp]: "d < 10 \<Longrightarrow> digit_val (digit_char d) = d"
  by (simp add: digit_val_def of_char_digit_char)

lemma nat_str_nonempty [simp]: "nat_str n \<noteq> []"
  by (subst nat_str.simps) simp

lemma nat_str_digits [simp]: "list_all is_digit (nat_str n)"
proof (induction n rule: nat_str.induct)
  case (1 n)
  then show ?case by (cases "n < 10") (simp_all add: nat_str.simps [of n])
qed

lemma length_nat_str_small: "n < 1000 \<Longrightarrow> length (nat_str n) \<le> 3"
proof -
  assume n: "n < 1000"
  have two: "length (nat_str m) \<le> 2" if "m < 100" for m
    using that by (auto simp: nat_str.simps [of m] nat_str.simps [of "m div 10"])
  show ?thesis using n two [of "n div 10"] by (auto simp: nat_str.simps [of n])
qed

lemma digits_val_nat_str [simp]: "digits_val (nat_str n) = n"
proof (induction n rule: nat_str.induct)
  case (1 n)
  then show ?case
    by (cases "n < 10") (simp_all add: nat_str.simps [of n] digits_val_def)
qed

lemma nat_str_inj [simp]: "nat_str m = nat_str n \<longleftrightarrow> m = n"
  by (metis digits_val_nat_str)

text \<open>
  \<open>parseInt(s)\<close> in radix 10: leading white space and a sign, then the longest run of digits; NaN
  when there is none. (The \<open>0x\<close> prefix of hexadecimal is not used by the callers.)
\<close>

definition is_space :: "char \<Rightarrow> bool" where
  "is_space c \<longleftrightarrow> (of_char c :: nat) \<in> {9, 10, 11, 12, 13, 32, 160}"

definition parse_int :: "string \<Rightarrow> jsnum" where
  "parse_int s =
     (let t = dropWhile is_space s;
          neg = (t \<noteq> [] \<and> hd t = CHR ''-'');
          u = (if t \<noteq> [] \<and> hd t \<in> {CHR ''-'', CHR ''+''} then tl t else t);
          ds = takeWhile is_digit u
      in if ds = [] then NaN
         else Fin (if neg then - real (digits_val ds) else real (digits_val ds)))"

lemma is_digit_not_space: "is_digit c \<Longrightarrow> \<not> is_space c"
  by (auto simp: is_digit_def is_space_def)

lemma is_digit_not_sign: "is_digit c \<Longrightarrow> c \<noteq> CHR ''-'' \<and> c \<noteq> CHR ''+''"
  by (auto simp: is_digit_def)

lemma parse_int_digits:
  assumes "list_all is_digit s" "s \<noteq> []"
  shows "parse_int s = Fin (real (digits_val s))"
proof -
  obtain c t where s: "s = c # t" using assms(2) by (cases s) auto
  then have c: "is_digit c" using assms(1) by simp
  have tw: "takeWhile is_digit t = t"
    using assms(1) by (simp add: s takeWhile_eq_all_conv list_all_iff)
  show ?thesis
    using c is_digit_not_space [OF c] is_digit_not_sign [OF c]
    by (simp add: parse_int_def s Let_def tw)
qed

text \<open>Strings split at a separator character, as \<open>split\<close> with a one-character pattern does.\<close>

fun split_on :: "char \<Rightarrow> string \<Rightarrow> string list" where
  "split_on c [] = [[]]"
| "split_on c (x # xs) =
     (if x = c then [] # split_on c xs
      else (case split_on c xs of [] \<Rightarrow> [[x]] | w # ws \<Rightarrow> (x # w) # ws))"

lemma split_on_nonempty [simp]: "split_on c s \<noteq> []"
  by (induction s) (auto split: list.splits)

lemma split_on_no_sep: "c \<notin> set s \<Longrightarrow> split_on c s = [s]"
  by (induction s) auto

lemma split_on_append: "c \<notin> set s \<Longrightarrow> split_on c (s @ c # t) = s # split_on c t"
  by (induction s) auto

text \<open>\<open>Array.join\<close> on strings.\<close>

fun join_with :: "string \<Rightarrow> string list \<Rightarrow> string" where
  "join_with sep [] = []"
| "join_with sep [w] = w"
| "join_with sep (w # ws) = w @ sep @ join_with sep ws"

lemma split_on_join:
  assumes "ws \<noteq> []" "\<forall>w \<in> set ws. c \<notin> set w"
  shows "split_on c (join_with [c] ws) = ws"
  using assms by (induction "[c]" ws rule: join_with.induct) (auto simp: split_on_no_sep split_on_append)

lemma set_join_with: "set (join_with sep ws) \<subseteq> set sep \<union> \<Union> (set ` set ws)"
  by (induction sep ws rule: join_with.induct) auto

section \<open>Text with rendered numbers\<close>

text \<open>
  Markup and labels are built by concatenating strings with numbers. The text is kept as a list of
  pieces: \<open>T s\<close> is literal text, \<open>V x\<close> the rendering of the number \<open>x\<close> that the
  language's number-to-string conversion gives at that place.
\<close>

datatype piece = T string | V real

type_synonym markup = "piece list"

text \<open>The text itself, for a given rendering of numbers.\<close>

definition flatten :: "(real \<Rightarrow> string) \<Rightarrow> markup \<Rightarrow> string" where
  "flatten ns m = concat (map (\<lambda>p. case p of T s \<Rightarrow> s | V x \<Rightarrow> ns x) m)"

lemma flatten_simps [simp]:
  "flatten ns [] = []" "flatten ns (T s # m) = s @ flatten ns m" "flatten ns (V x # m) = ns x @ flatten ns m"
  by (simp_all add: flatten_def)

lemma flatten_append [simp]: "flatten ns (m @ m') = flatten ns m @ flatten ns m'"
  by (simp add: flatten_def)

section \<open>Arrays: out-of-range reads and null\<close>

text \<open>
  A cell of a data array is a finite number or \<open>null\<close> (\<open>None\<close>). A read outside the array
  gives \<open>undefined\<close>, which every test in the code (\<open>== null\<close>) treats as \<open>null\<close>, so it is
  \<open>None\<close> as well. In arithmetic \<open>null\<close> counts as 0.
\<close>

type_synonym cell = "real option"

definition rd :: "cell list \<Rightarrow> int \<Rightarrow> cell" where
  "rd xs i = (if 0 \<le> i \<and> i < int (length xs) then xs ! nat i else None)"

definition num0 :: "cell \<Rightarrow> real" where
  "num0 v = (case v of None \<Rightarrow> 0 | Some x \<Rightarrow> x)"

lemma num0_simps [simp]: "num0 None = 0" "num0 (Some x) = x"
  by (simp_all add: num0_def)

lemma rd_out [simp]: "i < 0 \<Longrightarrow> rd xs i = None" "int (length xs) \<le> i \<Longrightarrow> rd xs i = None"
  by (simp_all add: rd_def)

lemma rd_nat: "rd xs (int i) = (if i < length xs then xs ! i else None)"
  by (simp add: rd_def)

text \<open>The slice \<open>points[i], \<dots>, points[i + n - 1]\<close> that the copying loops push.\<close>

definition slice :: "cell list \<Rightarrow> nat \<Rightarrow> nat \<Rightarrow> cell list" where
  "slice xs i n = map (\<lambda>m. rd xs (int (i + m))) [0..<n]"

lemma length_slice [simp]: "length (slice xs i n) = n"
  by (simp add: slice_def)

lemma slice_0 [simp]: "slice xs i 0 = []"
  by (simp add: slice_def)

lemma slice_full: "slice xs 0 (length xs) = xs"
  by (rule nth_equalityI) (auto simp: slice_def rd_nat)

lemma nth_slice [simp]: "m < n \<Longrightarrow> slice xs i n ! m = rd xs (int (i + m))"
  by (simp add: slice_def)

section \<open>Objects as ordered lists of properties\<close>

text \<open>
  Assigning a property of an object, \<open>o[k] = v\<close>: overwrites an existing key in place, else adds it at the end (the order in
  which the keys of an object are enumerated).
\<close>

fun set_key :: "'k \<Rightarrow> 'v \<Rightarrow> ('k \<times> 'v) list \<Rightarrow> ('k \<times> 'v) list" where
  "set_key k v [] = [(k, v)]"
| "set_key k v ((a, b) # ps) = (if a = k then (k, v) # ps else (a, b) # set_key k v ps)"

lemma set_key_new: "k \<notin> fst ` set m \<Longrightarrow> set_key k v m = m @ [(k, v)]"
  by (induction k v m rule: set_key.induct) auto

lemma map_of_set_key: "map_of (set_key k v m) = (map_of m)(k \<mapsto> v)"
  by (induction k v m rule: set_key.induct) auto

lemma fst_set_key: "fst ` set (set_key k v m) = insert k (fst ` set m)"
  by (induction k v m rule: set_key.induct) auto

lemma distinct_set_key: "distinct (map fst m) \<Longrightarrow> distinct (map fst (set_key k v m))"
  by (induction k v m rule: set_key.induct) (auto simp: fst_set_key image_iff)

section \<open>Loops over a list\<close>

text \<open>What one round of a loop achieves and every other round keeps holds after the loop.\<close>

lemma fold_keeps: "(\<And>y s. P s \<Longrightarrow> P (f y s)) \<Longrightarrow> P s \<Longrightarrow> P (fold f xs s)"
  by (induction xs arbitrary: s) auto

lemma fold_reaches:
  assumes "x \<in> set xs" "Inv s" "\<And>y s. y \<in> set xs \<Longrightarrow> Inv s \<Longrightarrow> Inv (f y s)"
    and "\<And>s. Inv s \<Longrightarrow> P (f x s)" "\<And>y s. P s \<Longrightarrow> P (f y s)"
  shows "P (fold f xs s)"
  using assms(1-3)
proof (induction xs arbitrary: s)
  case (Cons y ys)
  show ?case
  proof (cases "x \<in> set ys")
    case True
    then show ?thesis using Cons by simp
  next
    case False
    then have "y = x" using Cons.prems(1) by simp
    then show ?thesis using Cons.prems(2) assms(4,5) fold_keeps [of P f "f y s" ys] by simp
  qed
qed simp

end
