(* ===== verification/Store_Client.thy ===== *)
theory Store_Client
  imports JS_Prelude
begin

text \<open>
  The dashboard's RPC client and its string helpers, \<open>static/openinstrument.js\<close>.
  The protocol-buffer library and the generated message classes are not part of the repository:
  messages are abstract, their serialisation and parsing are arguments.
\<close>

section \<open>Requests and responses\<close>

text \<open>The two fields of a response message the client reads and writes, and the rest of it.\<close>

record 'm response =
  success :: bool
  errormessage :: string
  payload :: 'm

text \<open>What a request makes the browser do once the transport has answered.\<close>

datatype 'm reaction =
    CallSuccess "'m response"
  | CallError "'m response"
  | ConsoleLog string

text \<open>\<open>"\<dots>".replace("\n", "")\<close>: a string pattern replaces the first occurrence only.\<close>

fun remove_first :: "char \<Rightarrow> string \<Rightarrow> string" where
  "remove_first c [] = []"
| "remove_first c (x # xs) = (if x = c then xs else x # remove_first c xs)"

record post =
  url :: string
  body :: string

definition SendRequest_post :: "('q \<Rightarrow> string) \<Rightarrow> string \<Rightarrow> 'q \<Rightarrow> post" where
  "SendRequest_post serialize path request =
     \<lparr>url = path, body = remove_first (CHR 10) (serialize request)\<rparr>"

text \<open>
  The transport's answer: a body, or a failure with its status and the error thrown. The parse
  of a body is an argument; \<open>None\<close> means that it throws.
\<close>

datatype answer = Body string | Failed string string

definition error_text :: "string \<Rightarrow> string \<Rightarrow> string" where
  "error_text path what = ''Error in '' @ path @ '' request: '' @ what"

fun SendRequest_answer ::
  "(string \<Rightarrow> 'm response \<Rightarrow> 'm response option) \<Rightarrow> string \<Rightarrow> 'm response \<Rightarrow> bool \<Rightarrow> answer
    \<Rightarrow> 'm reaction list" where
  "SendRequest_answer parse path response has_error (Body text) =
     (case parse text response of
        None \<Rightarrow> []
      | Some r \<Rightarrow>
          if success r then [CallSuccess r]
          else if has_error then [CallError r]
          else [])"
| "SendRequest_answer parse path response has_error (Failed textStatus errorThrown) =
     (let r = response\<lparr>success := False, errormessage := error_text path (textStatus @ errorThrown)\<rparr>
      in if has_error then [CallError r] else [ConsoleLog (error_text path errorThrown)])"

text \<open>The three calls of the client: a path and a fresh response message each.\<close>

definition Add_path :: string where "Add_path = ''/add''"
definition Get_path :: string where "Get_path = ''/get''"
definition List_path :: string where "List_path = ''/list''"

section \<open>Durations\<close>

definition minute_s :: nat where "minute_s = 60"
definition hour_s :: nat where "hour_s = 60 * 60"
definition day_s :: nat where "day_s = 60 * 60 * 24"
definition week_s :: nat where "week_s = 60 * 60 * 24 * 7"
definition year_s :: nat where "year_s = 60 * 60 * 24 * 365"

lemmas unit_defs = minute_s_def hour_s_def day_s_def week_s_def year_s_def

text \<open>The pattern \<open>/^(\d+)u$/\<close>: one or more digits, then the unit letter, then the end.\<close>

definition match_unit :: "char \<Rightarrow> string \<Rightarrow> string option" where
  "match_unit u s =
     (if s \<noteq> [] \<and> last s = u \<and> butlast s \<noteq> [] \<and> list_all is_digit (butlast s)
      then Some (butlast s) else None)"

text \<open>The pattern \<open>/^(\d+)s?$/\<close>.\<close>

definition match_seconds :: "string \<Rightarrow> string option" where
  "match_seconds s =
     (case match_unit (CHR ''s'') s of
        Some d \<Rightarrow> Some d
      | None \<Rightarrow> if s \<noteq> [] \<and> list_all is_digit s then Some s else None)"

definition ParseDuration :: "string \<Rightarrow> jsnum" where
  "ParseDuration str =
     (case match_unit (CHR ''y'') str of Some d \<Rightarrow> jmul (parse_int d) (Fin (real year_s)) | None \<Rightarrow>
     (case match_unit (CHR ''w'') str of Some d \<Rightarrow> jmul (parse_int d) (Fin (real week_s)) | None \<Rightarrow>
     (case match_unit (CHR ''d'') str of Some d \<Rightarrow> jmul (parse_int d) (Fin (real day_s)) | None \<Rightarrow>
     (case match_unit (CHR ''h'') str of Some d \<Rightarrow> jmul (parse_int d) (Fin (real hour_s)) | None \<Rightarrow>
     (case match_unit (CHR ''m'') str of Some d \<Rightarrow> jmul (parse_int d) (Fin (real minute_s)) | None \<Rightarrow>
     (case match_seconds str of Some d \<Rightarrow> parse_int d | None \<Rightarrow>
      parse_int str))))))"

text \<open>\<open>Math.floor(duration / n) + u\<close> for a finite duration.\<close>

definition in_units :: "real \<Rightarrow> nat \<Rightarrow> char \<Rightarrow> string" where
  "in_units duration n u = int_str \<lfloor>duration / real n\<rfloor> @ [u]"

text \<open>
  \<open>None\<close> is the \<open>undefined\<close> of falling off the end of the function: every comparison is false
  on NaN, so NaN ends there too, as zero and negative durations do.
\<close>

definition nice_finite :: "real \<Rightarrow> string option" where
  "nice_finite duration =
     (if duration > real year_s then Some (in_units duration year_s (CHR ''y''))
      else if duration \<ge> real week_s then Some (in_units duration week_s (CHR ''w''))
      else if duration \<ge> real day_s then Some (in_units duration day_s (CHR ''d''))
      else if duration \<ge> real hour_s then Some (in_units duration hour_s (CHR ''h''))
      else if duration \<ge> real minute_s then Some (in_units duration minute_s (CHR ''m''))
      else if duration > 0 then Some (in_units duration 1 (CHR ''s''))
      else None)"

fun NiceDuration :: "jsnum \<Rightarrow> string option" where
  "NiceDuration (Fin d) = nice_finite d"
| "NiceDuration PInf = Some ''Infinityy''"
| "NiceDuration NInf = None"
| "NiceDuration NaN = None"

section \<open>Variable names\<close>

record variable =
  name :: string
  labels :: "(string \<times> string option) list"

text \<open>
  The pattern \<open>/^([^{]+){(.+)}/\<close>: the text before the first brace, which must not be empty, and
  the longest stretch of the rest of that line that ends before a closing brace.
\<close>

definition line_end :: "char \<Rightarrow> bool" where
  "line_end c \<longleftrightarrow> c = CHR 10 \<or> c = CHR 13"

definition match_variable :: "string \<Rightarrow> (string \<times> string) option" where
  "match_variable s =
     (let pre = takeWhile (\<lambda>c. c \<noteq> CHR ''{'') s;
          rest = dropWhile (\<lambda>c. c \<noteq> CHR ''{'') s;
          line = takeWhile (\<lambda>c. \<not> line_end c) (tl rest);
          tail = dropWhile (\<lambda>c. c \<noteq> CHR ''}'') (rev line)
      in if pre = [] \<or> rest = [] \<or> tail = [] \<or> tl tail = [] then None
         else Some (pre, rev (tl tail)))"

text \<open>\<open>split(/=/, 2)\<close> keeps the first two fields; a missing second field is \<open>undefined\<close>.\<close>

definition label_of :: "string \<Rightarrow> string \<times> string option" where
  "label_of s =
     (case take 2 (split_on (CHR ''='') s) of
        [k] \<Rightarrow> (k, None)
      | k # v # _ \<Rightarrow> (k, Some v)
      | [] \<Rightarrow> ([], None))"

definition Variable_FromString :: "string \<Rightarrow> variable option" where
  "Variable_FromString s =
     (case match_variable s of
        None \<Rightarrow> None
      | Some (n, ls) \<Rightarrow>
          Some \<lparr>name = n,
                labels = foldl (\<lambda>m l. let (k, v) = label_of l in set_key k v m) []
                           (split_on (CHR '','') ls)\<rparr>)"

section \<open>Properties of the client\<close>

lemma count_remove_first: "count_list (remove_first c s) c = count_list s c - 1"
proof (induction s)
  case (Cons x s)
  then show ?case by (cases "c \<in> set s") (auto simp: count_list_0_iff)
qed simp

lemma filter_remove_first: "filter (\<lambda>x. x \<noteq> c) (remove_first c s) = filter (\<lambda>x. x \<noteq> c) s"
  by (induction s) auto

lemma SendRequest_answer_error:
  "CallError m \<in> set (SendRequest_answer parse path r e a) \<Longrightarrow> e"
  by (cases a) (auto simp: Let_def split: option.splits if_splits)

lemma match_unit_nat_str [simp]:
  "match_unit v (nat_str k @ [u]) = (if v = u then Some (nat_str k) else None)"
  by (auto simp: match_unit_def)

lemma parse_int_nat_str [simp]: "parse_int (nat_str k) = Fin (real k)"
  by (simp add: parse_int_digits)

lemma match_seconds_s [simp]: "match_seconds (nat_str k @ ''s'') = Some (nat_str k)"
  by (simp add: match_seconds_def)

text \<open>A count of units reads back as that count times the unit.\<close>

lemma ParseDuration_units [simp]:
  "ParseDuration (nat_str k @ ''y'') = Fin (real k * real year_s)"
  "ParseDuration (nat_str k @ ''w'') = Fin (real k * real week_s)"
  "ParseDuration (nat_str k @ ''d'') = Fin (real k * real day_s)"
  "ParseDuration (nat_str k @ ''h'') = Fin (real k * real hour_s)"
  "ParseDuration (nat_str k @ ''m'') = Fin (real k * real minute_s)"
  "ParseDuration (nat_str k @ ''s'') = Fin (real k)"
  by (simp_all add: ParseDuration_def)

lemma in_units_nat_str:
  assumes "0 \<le> d"
  shows "in_units d n u = nat_str (nat \<lfloor>d / real n\<rfloor>) @ [u]"
  using assms by (simp add: in_units_def int_str_def not_less zero_le_divide_iff)

text \<open>
  The labels a duration of at least one second can get: a unit \<open>n\<close> that fits into it, with its
  letter and with what the parser makes of a count of that unit.
\<close>

lemma nice_finite_cases:
  assumes "1 \<le> d"
  obtains n u where "0 < n" "real n \<le> d" "nice_finite d = Some (nat_str (nat \<lfloor>d / real n\<rfloor>) @ [u])"
    "\<And>k. ParseDuration (nat_str k @ [u]) = Fin (real k * real n)"
    "n = year_s \<and> u = CHR ''y'' \<and> real year_s < d
     \<or> n \<noteq> year_s \<and> u \<noteq> CHR ''y'' \<and>
       (\<forall>t. real n \<le> t \<longrightarrow> t \<le> d \<longrightarrow> nice_finite t = Some (in_units t n u))"
proof -
  have pos: "0 \<le> d" using assms by simp
  note u = in_units_nat_str [OF pos]
  consider "real year_s < d" | "real week_s \<le> d" "\<not> real year_s < d" | "real day_s \<le> d" "\<not> real week_s \<le> d"
    | "real hour_s \<le> d" "\<not> real day_s \<le> d" | "real minute_s \<le> d" "\<not> real hour_s \<le> d"
    | "\<not> real minute_s \<le> d"
    by linarith
  then show thesis
  proof cases
    case 1
    then show ?thesis
      by (intro that [of year_s "CHR ''y''"]) (auto simp: nice_finite_def u year_s_def)
  next
    case 2
    then show ?thesis
      by (intro that [of week_s "CHR ''w''"]) (auto simp: nice_finite_def u unit_defs)
  next
    case 3
    then show ?thesis
      by (intro that [of day_s "CHR ''d''"]) (auto simp: nice_finite_def u unit_defs)
  next
    case 4
    then show ?thesis
      by (intro that [of hour_s "CHR ''h''"]) (auto simp: nice_finite_def u unit_defs)
  next
    case 5
    then show ?thesis
      by (intro that [of minute_s "CHR ''m''"]) (auto simp: nice_finite_def u unit_defs)
  next
    case 6
    then show ?thesis using assms
      by (intro that [of 1 "CHR ''s''"]) (auto simp: nice_finite_def u unit_defs)
  qed
qed

lemma floor_units_bounds:
  fixes n :: nat
  assumes "0 < n" "real n \<le> d"
  defines "t \<equiv> real (nat \<lfloor>d / real n\<rfloor>) * real n"
  shows "real n \<le> t" "t \<le> d" "d < 2 * t"
proof -
  define q where "q = d / real n"
  have q: "1 \<le> q" "d = q * real n" using assms by (simp_all add: q_def field_simps)
  have k: "real (nat \<lfloor>q\<rfloor>) = of_int \<lfloor>q\<rfloor>" using q(1) by simp
  have fl: "of_int \<lfloor>q\<rfloor> \<le> q" "q < of_int \<lfloor>q\<rfloor> + 1" "(1::real) \<le> of_int \<lfloor>q\<rfloor>"
    using q(1) by (simp_all add: le_floor_iff)
  have t: "t = of_int \<lfloor>q\<rfloor> * real n" by (simp add: t_def q_def [symmetric] k)
  show "real n \<le> t" using fl(3) assms(1) by (simp add: t)
  show "t \<le> d" using fl(1) assms(1) by (simp add: t q(2))
  have "q < 2 * of_int \<lfloor>q\<rfloor>" using fl by linarith
  then show "d < 2 * t" using assms(1) by (simp add: t q(2))
qed

text \<open>
  C23. A transport answer leads to at most one callback. The success callback gets a response that
  was parsed from a body and says success; the error callback gets one that says failure and is
  called only if the caller gave it; a transport failure is never silent.
\<close>

theorem SendRequest_one_callback:
  assumes "out = SendRequest_answer parse path r e a"
  shows "length out \<le> 1
    \<and> (\<forall>r'. CallSuccess r' \<in> set out \<longrightarrow> success r' \<and> (\<exists>b. a = Body b \<and> parse b r = Some r'))
    \<and> (\<forall>r'. CallError r' \<in> set out \<longrightarrow> \<not> success r' \<and> e)
    \<and> (\<forall>st err. a = Failed st err \<longrightarrow> out \<noteq> [])"
  unfolding assms by (cases a) (auto simp: Let_def split: option.splits if_splits)

theorem SendRequest_one_callback_witness:
  "SendRequest_answer (\<lambda>b r. Some r) ''/get'' \<lparr>success = True, errormessage = [], payload = ()\<rparr> True
      (Failed ''timeout'' ''late'') \<noteq> []"
  using SendRequest_one_callback [OF refl, of "\<lambda>b r. Some r" "''/get''"
    "\<lparr>success = True, errormessage = [], payload = ()\<rparr>" True "Failed ''timeout'' ''late''"] by blast

text \<open>
  C22. Rendering a duration of at least one second and reading the label back gives a positive
  duration that is not longer than the original and more than half of it.
\<close>

theorem duration_round_trip:
  assumes "1 \<le> d"
  shows "\<exists>s t. NiceDuration (Fin d) = Some s \<and> ParseDuration s = Fin t \<and> 0 < t \<and> t \<le> d \<and> d < 2 * t"
proof -
  obtain n u where nu: "0 < n" "real n \<le> d"
    "nice_finite d = Some (nat_str (nat \<lfloor>d / real n\<rfloor>) @ [u])"
    "\<And>k. ParseDuration (nat_str k @ [u]) = Fin (real k * real n)"
    using nice_finite_cases [OF assms] by metis
  note b = floor_units_bounds [OF nu(1,2)]
  have "0 < real (nat \<lfloor>d / real n\<rfloor>) * real n" using b(1) nu(1) by linarith
  moreover have "NiceDuration (Fin d) = Some (nat_str (nat \<lfloor>d / real n\<rfloor>) @ [u])" using nu(3) by simp
  ultimately show ?thesis using nu(4) b(2,3) by blast
qed

theorem duration_round_trip_witness:
  "(1::real) \<le> 100 \<and> (\<exists>s t. NiceDuration (Fin 100) = Some s \<and> ParseDuration s = Fin t \<and> 0 < t \<and> t \<le> 100 \<and> 100 < 2 * t)"
  using duration_round_trip [of 100] by simp

text \<open>
  The label is stable under being read back and rendered again, except for a duration of one
  to two years: its label \<open>1y\<close> reads back as 365 days, which renders as \<open>52w\<close>, because the year
  is the only unit whose bound is strict.
\<close>

lemma duration_label_stable:
  assumes "1 \<le> d" "NiceDuration (Fin d) = Some s" "ParseDuration s = Fin t"
  shows "NiceDuration (Fin t) = (if s = ''1y'' then Some ''52w'' else Some s)"
proof -
  obtain n u where nu: "0 < n" "real n \<le> d"
    "nice_finite d = Some (nat_str (nat \<lfloor>d / real n\<rfloor>) @ [u])"
    "\<And>k. ParseDuration (nat_str k @ [u]) = Fin (real k * real n)"
    and shape: "n = year_s \<and> u = CHR ''y'' \<and> real year_s < d
     \<or> n \<noteq> year_s \<and> u \<noteq> CHR ''y'' \<and>
       (\<forall>t. real n \<le> t \<longrightarrow> t \<le> d \<longrightarrow> nice_finite t = Some (in_units t n u))"
    using nice_finite_cases [OF assms(1)] by metis
  define k where "k = nat \<lfloor>d / real n\<rfloor>"
  have s: "s = nat_str k @ [u]" and t: "t = real k * real n"
    using assms(2,3) nu(3,4) by (auto simp: k_def)
  have b: "real n \<le> t" "t \<le> d" using floor_units_bounds [OF nu(1,2)] by (simp_all only: t k_def)
  have fl: "nat \<lfloor>t / real n\<rfloor> = k" using nu(1) by (simp add: t)
  have lab: "in_units t n u = s" using b(1) by (simp add: in_units_nat_str fl s)
  have one: "''1y'' = nat_str 1 @ ''y''" by (simp add: nat_str.simps)
  show ?thesis
    using shape
  proof (elim disjE conjE)
    assume y: "n = year_s" "u = CHR ''y''"
    show ?thesis
    proof (cases "k = 1")
      case True
      then show ?thesis using y one
        by (simp add: s t nice_finite_def in_units_def int_str_def nat_str.simps unit_defs)
    next
      case False
      moreover have "1 \<le> k" using b(1) nu(1) by (simp add: t Suc_le_eq)
      ultimately have "real year_s < t" by (simp add: t y year_s_def)
      moreover have "s \<noteq> ''1y''" using False one by (auto simp: s y)
      ultimately show ?thesis using lab y by (simp add: nice_finite_def)
    qed
  next
    assume "u \<noteq> CHR ''y''" and st: "\<forall>t. real n \<le> t \<longrightarrow> t \<le> d \<longrightarrow> nice_finite t = Some (in_units t n u)"
    then have "s \<noteq> ''1y''" by (simp add: s one)
    then show ?thesis using st b lab by simp
  qed
qed

section \<open>Reading a variable back\<close>

text \<open>The text form of a variable with its labels, as the server and the page write it.\<close>

definition label_text :: "string \<times> string \<Rightarrow> string" where
  "label_text l = fst l @ ''='' @ snd l"

definition variable_text :: "string \<Rightarrow> (string \<times> string) list \<Rightarrow> string" where
  "variable_text n ls = n @ ''{'' @ join_with '','' (map label_text ls) @ ''}''"

definition plain :: "string \<Rightarrow> bool" where
  "plain s \<longleftrightarrow> list_all (\<lambda>c. c \<notin> {CHR '','', CHR ''='', CHR ''{''} \<and> \<not> line_end c) s"

lemma plain_no_sep: "plain s \<Longrightarrow> CHR '','' \<notin> set s \<and> CHR ''='' \<notin> set s \<and> CHR ''{'' \<notin> set s"
  by (auto simp: plain_def list_all_iff)

lemma plain_line_end: "plain s \<Longrightarrow> c \<in> set s \<Longrightarrow> \<not> line_end c"
  by (simp add: plain_def list_all_iff)

lemma match_variable_text:
  assumes "n \<noteq> []" "CHR ''{'' \<notin> set n" "b \<noteq> []" "\<forall>c \<in> set b. \<not> line_end c"
  shows "match_variable (n @ ''{'' @ b @ ''}'') = Some (n, b)"
proof -
  let ?P = "\<lambda>c. c \<noteq> CHR ''{''"
  have n: "\<forall>c \<in> set n. ?P c" using assms(2) by auto
  have "takeWhile ?P (n @ ''{'' @ b @ ''}'') = n" "dropWhile ?P (n @ ''{'' @ b @ ''}'') = ''{'' @ b @ ''}''"
    using n by (simp_all add: takeWhile_append dropWhile_append)
  moreover have "takeWhile (\<lambda>c. \<not> line_end c) (b @ ''}'') = b @ ''}''"
    using assms(4) by (simp add: takeWhile_eq_all_conv line_end_def)
  ultimately show ?thesis using assms(1,3) by (simp add: match_variable_def Let_def)
qed

lemma label_of_label_text: "plain k \<Longrightarrow> plain v \<Longrightarrow> label_of (label_text (k, v)) = (k, Some v)"
  by (simp add: label_of_def label_text_def split_on_append split_on_no_sep plain_no_sep)

lemma collect_labels:
  assumes "distinct (map fst m @ map fst ls)" "\<forall>l \<in> set ls. plain (fst l) \<and> plain (snd l)"
  shows "foldl (\<lambda>m l. let (k, v) = label_of l in set_key k v m) m (map label_text ls)
    = m @ map (\<lambda>(k, v). (k, Some v)) ls"
  using assms
proof (induction ls arbitrary: m)
  case (Cons l ls)
  then show ?case
    by (cases l) (auto simp: label_of_label_text set_key_new image_iff)
qed simp

text \<open>
  C21. A variable's text form, with a nonempty name and distinct labels whose keys and values are
  free of the separators, reads back as that name and those labels, in that order.
\<close>

theorem variable_round_trip:
  assumes "n \<noteq> []" "plain n" "ls \<noteq> []" "distinct (map fst ls)"
    and "\<forall>l \<in> set ls. plain (fst l) \<and> plain (snd l)"
  shows "Variable_FromString (variable_text n ls)
    = Some \<lparr>name = n, labels = map (\<lambda>(k, v). (k, Some v)) ls\<rparr>"
proof -
  let ?b = "join_with '','' (map label_text ls)"
  have b: "?b \<noteq> []" using assms(3) by (cases ls; cases "tl ls") (auto simp: label_text_def)
  have "\<forall>c \<in> set ?b. \<not> line_end c"
  proof
    fix c assume "c \<in> set ?b"
    then have "c = CHR '','' \<or> (\<exists>l \<in> set ls. c \<in> set (label_text l))"
      using set_join_with [of "'',''" "map label_text ls"] by auto
    then show "\<not> line_end c"
    proof
      assume "\<exists>l \<in> set ls. c \<in> set (label_text l)"
      then obtain l where l: "l \<in> set ls" "c \<in> set (fst l) \<or> c = CHR ''='' \<or> c \<in> set (snd l)"
        by (auto simp: label_text_def)
      moreover have "\<not> line_end (CHR ''='')" by (simp add: line_end_def)
      ultimately show ?thesis
        using assms(5) plain_line_end by blast
    qed (simp add: line_end_def)
  qed
  then have m: "match_variable (variable_text n ls) = Some (n, ?b)"
    unfolding variable_text_def using assms(1) plain_no_sep [OF assms(2)] b by (intro match_variable_text) auto
  have "\<forall>w \<in> set (map label_text ls). CHR '','' \<notin> set w"
    using assms(5) plain_no_sep by (auto simp: label_text_def)
  then have "split_on (CHR '','') ?b = map label_text ls"
    using assms(3) by (intro split_on_join) auto
  then show ?thesis
    using collect_labels [of "[]" ls] assms(4,5) by (simp add: Variable_FromString_def m)
qed

theorem variable_round_trip_witness:
  "Variable_FromString (variable_text ''/rpc'' [(''host'', ''a''), (''job'', ''b'')])
    = Some \<lparr>name = ''/rpc'', labels = [(''host'', Some ''a''), (''job'', Some ''b'')]\<rparr>"
  using variable_round_trip [of "''/rpc''" "[(''host'', ''a''), (''job'', ''b'')]"]
  by (simp add: plain_def line_end_def)

text \<open>
  The request body is the serialised message without its first line feed: every other
  character is kept in order, and only one line feed goes, so a longer base64 text with several
  line feeds is sent with the rest of them in it.
\<close>

lemma SendRequest_strips_one_newline:
  "let b = body (SendRequest_post serialize path q) in
     count_list b (CHR 10) = count_list (serialize q) (CHR 10) - 1
     \<and> filter (\<lambda>c. c \<noteq> CHR 10) b = filter (\<lambda>c. c \<noteq> CHR 10) (serialize q)"
  by (simp add: SendRequest_post_def count_remove_first filter_remove_first)

end
