(* ===== verification/Dashboard.thy ===== *)
theory Dashboard
  imports Store_Client
begin

text \<open>
  The bandwidth dashboard page, \<open>static/test.js\<close>: the graph view with its zoom stack, the selectors
  filled from the server's variable lists, the duration field, and the polling of data. The state
  is the page's globals together with the parts of the document and of the browser (timers, requests
  under way) its handlers read and write. One step is one event delivered to the page.
\<close>

section \<open>Rendering of values\<close>

definition round_to :: "real \<Rightarrow> nat \<Rightarrow> real" where
  "round_to val decimals = (let mul = 10 ^ decimals in jsround (val * mul) / mul)"

text \<open>The tick formatter of the vertical axis: bytes to bits, then the largest unit exceeded.\<close>

definition tick_bps :: "real \<Rightarrow> markup" where
  "tick_bps v =
     (let val = v * 8
      in if val > 1024 * 1024 * 1024 then [V (round_to (val / 1024 / 1024 / 1024) 1), T ''Gbps'']
         else if val > 1024 * 1024 then [V (round_to (val / 1024 / 1024) 1), T ''Mbps'']
         else if val > 1024 then [V (round_to (val / 1024) 1), T ''Kbps'']
         else [V val, T ''bps''])"

section \<open>The page\<close>

record stream =
  svariable :: string
  svalue :: "(real \<times> real) list"

text \<open>A request under way: the data query, the list of all variables, the list of interfaces.\<close>

datatype request = GetReq string jsnum jsnum | ListAll string | ListInterfaces string

type_synonym series_data = "(string \<times> (real \<times> real) list) list"

record dashboard =
  graphdata :: "series_data option"
  zoomstack :: "(real option \<times> real option) list"
  xaxis_min :: "real option"
  xaxis_max :: "real option"
  zoomout_disabled :: bool
  graph_variable :: "string option"
  graph_interface :: "string option"
  graph_host :: "string option"
  graph_duration :: jsnum
  nice_duration :: string
  value_type :: string
  variable_opts :: "(string \<times> bool) list"
  host_opts :: "(string \<times> bool) list"
  interface_opts :: "(string option \<times> bool) list"
  graph_size :: "real \<times> real"
  fetch_timeout :: "nat option"
  timers :: "nat list"
  next_timer :: nat
  pending :: "request list"
  plots :: "(series_data option \<times> real option \<times> real option) list"
  console :: "string list"

record env =
  now :: real
  innerWidth :: real
  innerHeight :: real

datatype exn = TypeError

text \<open>Truthiness of a string, and the text of a variable that may be \<open>null\<close>.\<close>

definition str_truthy :: "string option \<Rightarrow> bool" where
  "str_truthy s \<longleftrightarrow> s \<noteq> None \<and> s \<noteq> Some []"

definition str_of :: "string option \<Rightarrow> string" where
  "str_of s = (case s of None \<Rightarrow> ''null'' | Some t \<Rightarrow> t)"

definition num_truthy :: "real option \<Rightarrow> bool" where
  "num_truthy v \<longleftrightarrow> v \<noteq> None \<and> v \<noteq> Some 0"

definition ResizeGraph :: "env \<Rightarrow> dashboard \<Rightarrow> dashboard" where
  "ResizeGraph e s = s\<lparr>graph_size := (innerWidth e - 70, innerHeight e - 100)\<rparr>"

definition ResetZoom :: "dashboard \<Rightarrow> dashboard" where
  "ResetZoom s = s\<lparr>xaxis_min := None, xaxis_max := None, zoomout_disabled := True\<rparr>"

definition ShowDuration :: "dashboard \<Rightarrow> dashboard" where
  "ShowDuration s =
     s\<lparr>nice_duration := (case NiceDuration (graph_duration s) of None \<Rightarrow> [] | Some t \<Rightarrow> t)\<rparr>"

definition plot_graph :: "dashboard \<Rightarrow> dashboard" where
  "plot_graph s = s\<lparr>plots := plots s @ [(graphdata s, xaxis_min s, xaxis_max s)]\<rparr>"

section \<open>Fetching data\<close>

definition query_text :: "string option \<Rightarrow> string option \<Rightarrow> string option \<Rightarrow> string" where
  "query_text v h i = str_of v @ ''{hostname='' @ str_of h @ '',interface='' @ str_of i @ ''}''"

definition clear_timer :: "nat option \<Rightarrow> nat list \<Rightarrow> nat list" where
  "clear_timer t ts = (case t of None \<Rightarrow> ts | Some t \<Rightarrow> removeAll t ts)"

definition fetch_ready :: "dashboard \<Rightarrow> bool" where
  "fetch_ready s \<longleftrightarrow>
     str_truthy (graph_interface s) \<and> str_truthy (graph_host s) \<and> str_truthy (graph_variable s)"

definition FetchData :: "env \<Rightarrow> dashboard \<Rightarrow> dashboard" where
  "FetchData e s =
     (if \<not> fetch_ready s then s
      else s\<lparr>timers := clear_timer (fetch_timeout s) (timers s),
             pending := pending s
               @ [GetReq (query_text (graph_variable s) (graph_host s) (graph_interface s))
                    (jsub (Fin (now e)) (jmul (graph_duration s) (Fin 1000)))
                    (parse_int (value_type s))]\<rparr>)"

text \<open>\<open>fetch_timeout = setTimeout(FetchData, 30000)\<close>: a fresh timer, remembered.\<close>

definition set_fetch_timer :: "dashboard \<Rightarrow> dashboard" where
  "set_fetch_timer s =
     s\<lparr>fetch_timeout := Some (next_timer s), timers := timers s @ [next_timer s],
       next_timer := Suc (next_timer s)\<rparr>"

definition stream_record :: "stream \<Rightarrow> string \<times> (real \<times> real) list" where
  "stream_record st = (svariable st, svalue st)"

text \<open>A \<open>null\<close> entry makes the loop throw after the records before it have been pushed.\<close>

definition FetchData_success :: "env \<Rightarrow> stream option list \<Rightarrow> dashboard \<Rightarrow> dashboard \<times> exn option" where
  "FetchData_success e streams s =
     (let good = takeWhile (\<lambda>st. st \<noteq> None) streams;
          s' = s\<lparr>graphdata := Some (map (\<lambda>st. stream_record (the st)) good)\<rparr>
      in if length good < length streams then (s', Some TypeError)
         else (set_fetch_timer (ResizeGraph e (plot_graph s')), None))"

section \<open>The selectors\<close>

definition BuildSelectors :: "dashboard \<Rightarrow> dashboard" where
  "BuildSelectors s =
     s\<lparr>pending := pending s @ [ListAll ''/network/interface/stats/*{hostname=*,interface=*}'']\<rparr>"

definition BuildInterfaceList :: "dashboard \<Rightarrow> dashboard" where
  "BuildInterfaceList s =
     s\<lparr>pending := pending s
        @ [ListInterfaces (str_of (graph_variable s) @ ''{hostname='' @ str_of (graph_host s) @ '',interface=*}'')]\<rparr>"

text \<open>A label read as a property key: a missing label is the key \<open>undefined\<close>.\<close>

definition label_value :: "variable \<Rightarrow> string \<Rightarrow> string option" where
  "label_value v k = (case map_of (labels v) k of None \<Rightarrow> None | Some x \<Rightarrow> x)"

definition prop_key :: "string option \<Rightarrow> string" where
  "prop_key v = (case v of None \<Rightarrow> ''undefined'' | Some t \<Rightarrow> t)"

definition add_key :: "string \<Rightarrow> string list \<Rightarrow> string list" where
  "add_key k ks = (if k \<in> set ks then ks else ks @ [k])"

text \<open>Names and hosts of all streams; \<open>null\<close> entries are skipped, a name that does not parse throws.\<close>

fun collect_streams ::
  "stream option list \<Rightarrow> string list \<Rightarrow> string list \<Rightarrow> (string list \<times> string list) option" where
  "collect_streams [] vs hs = Some (vs, hs)"
| "collect_streams (None # ss) vs hs = collect_streams ss vs hs"
| "collect_streams (Some st # ss) vs hs =
     (case Variable_FromString (svariable st) of
        None \<Rightarrow> None
      | Some v \<Rightarrow> collect_streams ss (add_key (name v) vs) (add_key (prop_key (label_value v ''hostname'')) hs))"

definition or_default :: "string option \<Rightarrow> string option \<Rightarrow> string option" where
  "or_default cur i = (if str_truthy cur then cur else i)"

fun offer_variables :: "string list \<Rightarrow> dashboard \<Rightarrow> dashboard" where
  "offer_variables [] s = s"
| "offer_variables (i # is) s =
     (let v = or_default (graph_variable s) (Some i)
      in offer_variables is (s\<lparr>graph_variable := v, variable_opts := variable_opts s @ [(i, v = Some i)]\<rparr>))"

fun offer_hosts :: "string list \<Rightarrow> dashboard \<Rightarrow> dashboard" where
  "offer_hosts [] s = s"
| "offer_hosts (i # is) s =
     (let v = or_default (graph_host s) (Some i)
      in offer_hosts is (s\<lparr>graph_host := v, host_opts := host_opts s @ [(i, v = Some i)]\<rparr>))"

definition BuildSelectors_success :: "stream option list \<Rightarrow> dashboard \<Rightarrow> dashboard \<times> exn option" where
  "BuildSelectors_success streams s =
     (let s0 = s\<lparr>variable_opts := [], interface_opts := [], host_opts := []\<rparr>
      in case collect_streams streams [] [] of
           None \<Rightarrow> (s0, Some TypeError)
         | Some (vs, hs) \<Rightarrow>
             (BuildInterfaceList (offer_hosts hs (offer_variables vs (s0\<lparr>graph_host := None\<rparr>))), None))"

fun offer_interfaces :: "stream option list \<Rightarrow> dashboard \<Rightarrow> dashboard \<times> exn option" where
  "offer_interfaces [] s = (s, None)"
| "offer_interfaces (None # ss) s = (s, Some TypeError)"
| "offer_interfaces (Some st # ss) s =
     (case Variable_FromString (svariable st) of
        None \<Rightarrow> (s, Some TypeError)
      | Some v \<Rightarrow>
          let i = label_value v ''interface'';
              g = or_default (graph_interface s) i
          in offer_interfaces ss (s\<lparr>graph_interface := g, interface_opts := interface_opts s @ [(i, g = i)]\<rparr>))"

definition BuildInterfaceList_success :: "env \<Rightarrow> stream option list \<Rightarrow> dashboard \<Rightarrow> dashboard \<times> exn option" where
  "BuildInterfaceList_success e streams s =
     (case offer_interfaces streams (s\<lparr>interface_opts := []\<rparr>) of
        (s', None) \<Rightarrow> (FetchData e s', None)
      | (s', Some x) \<Rightarrow> (s', Some x))"

section \<open>Events\<close>

datatype event =
    IncreaseDuration
  | DecreaseDuration
  | NiceDurationChanged string
  | ValueTypeChanged string
  | HostChanged string
  | VariableChanged string
  | InterfaceChanged string
  | PlotSelected real real
  | PlotUnselected
  | ZoomOutClicked
  | WindowResized
  | TimerFired nat
  | Answered nat answer

definition change_duration :: "env \<Rightarrow> (jsnum \<Rightarrow> jsnum) \<Rightarrow> dashboard \<Rightarrow> dashboard" where
  "change_duration e f s =
     FetchData e (ResetZoom (ShowDuration
       (s\<lparr>graph_duration := f (ParseDuration (nice_duration s))\<rparr>)))"

definition on_plotselected :: "real \<Rightarrow> real \<Rightarrow> dashboard \<Rightarrow> dashboard" where
  "on_plotselected from_x to_x s =
     plot_graph
       (s\<lparr>zoomstack := (if num_truthy (xaxis_min s) then (xaxis_min s, xaxis_max s) # zoomstack s else zoomstack s),
          xaxis_min := Some from_x, xaxis_max := Some to_x, zoomout_disabled := False\<rparr>)"

definition on_zoomout :: "dashboard \<Rightarrow> dashboard" where
  "on_zoomout s =
     plot_graph
       (case zoomstack s of
          [] \<Rightarrow> ResetZoom s
        | (lo, hi) # rest \<Rightarrow>
            s\<lparr>zoomstack := rest, xaxis_min := lo, xaxis_max := hi, zoomout_disabled := False\<rparr>)"

text \<open>What an answered request does: the callbacks the client calls, and their handlers.\<close>

definition has_error_callback :: "request \<Rightarrow> bool" where
  "has_error_callback r = (case r of GetReq _ _ _ \<Rightarrow> True | _ \<Rightarrow> False)"

definition request_path :: "request \<Rightarrow> string" where
  "request_path r = (case r of GetReq _ _ _ \<Rightarrow> Get_path | _ \<Rightarrow> List_path)"

definition handle_success ::
  "env \<Rightarrow> request \<Rightarrow> stream option list \<Rightarrow> dashboard \<Rightarrow> dashboard \<times> exn option" where
  "handle_success e r streams s =
     (case r of
        GetReq _ _ _ \<Rightarrow> FetchData_success e streams s
      | ListAll _ \<Rightarrow> BuildSelectors_success streams s
      | ListInterfaces _ \<Rightarrow> BuildInterfaceList_success e streams s)"

type_synonym parser =
  "string \<Rightarrow> stream option list response \<Rightarrow> stream option list response option"

fun handle_reactions ::
  "env \<Rightarrow> request \<Rightarrow> stream option list reaction list \<Rightarrow> dashboard \<Rightarrow> dashboard \<times> exn option" where
  "handle_reactions e r [] s = (s, None)"
| "handle_reactions e r (CallSuccess m # _) s = handle_success e r (payload m) s"
| "handle_reactions e r (CallError m # _) s = (set_fetch_timer s, None)"
| "handle_reactions e r (ConsoleLog t # _) s = (s\<lparr>console := console s @ [t]\<rparr>, None)"

definition empty_response :: "stream option list response" where
  "empty_response = \<lparr>success = False, errormessage = [], payload = []\<rparr>"

definition remove_nth :: "nat \<Rightarrow> 'a list \<Rightarrow> 'a list" where
  "remove_nth i xs = take i xs @ drop (Suc i) xs"

fun step :: "parser \<Rightarrow> env \<Rightarrow> event \<Rightarrow> dashboard \<Rightarrow> dashboard \<times> exn option" where
  "step parse e IncreaseDuration s = (change_duration e (\<lambda>d. jmul d (Fin 2)) s, None)"
| "step parse e DecreaseDuration s = (change_duration e (\<lambda>d. jdiv d (Fin 2)) s, None)"
| "step parse e (NiceDurationChanged t) s = (s\<lparr>nice_duration := t\<rparr>, Some TypeError)"
| "step parse e (ValueTypeChanged t) s = (FetchData e (s\<lparr>value_type := t\<rparr>), None)"
| "step parse e (HostChanged h) s =
     (BuildInterfaceList (s\<lparr>graph_host := Some h, graph_interface := None\<rparr>), None)"
| "step parse e (VariableChanged v) s = (FetchData e (s\<lparr>graph_variable := Some v\<rparr>), None)"
| "step parse e (InterfaceChanged i) s = (FetchData e (s\<lparr>graph_interface := Some i\<rparr>), None)"
| "step parse e (PlotSelected a b) s = (on_plotselected a b s, None)"
| "step parse e PlotUnselected s = (s, None)"
| "step parse e ZoomOutClicked s = (on_zoomout s, None)"
| "step parse e WindowResized s = (ResizeGraph e s, None)"
| "step parse e (TimerFired t) s =
     (if t \<in> set (timers s) then (FetchData e (s\<lparr>timers := removeAll t (timers s)\<rparr>), None) else (s, None))"
| "step parse e (Answered i a) s =
     (if i < length (pending s) then
        let r = pending s ! i
        in handle_reactions e r
             (SendRequest_answer parse (request_path r) empty_response (has_error_callback r) a)
             (s\<lparr>pending := remove_nth i (pending s)\<rparr>)
      else (s, None))"

text \<open>The page's globals before the document is ready, and the ready handler.\<close>

definition globals :: dashboard where
  "globals =
     \<lparr>graphdata = None, zoomstack = [], xaxis_min = None, xaxis_max = None, zoomout_disabled = False,
      graph_variable = Some ''/network/interface/stats/ifInOctets'', graph_interface = Some ''Dialer0'',
      graph_host = Some [], graph_duration = Fin (3600 * 12), nice_duration = [], value_type = ''4'',
      variable_opts = [], host_opts = [], interface_opts = [], graph_size = (0, 0),
      fetch_timeout = None, timers = [], next_timer = 1, pending = [], plots = [], console = []\<rparr>"

definition page_ready :: "env \<Rightarrow> dashboard" where
  "page_ready e = ResizeGraph e (FetchData e (ShowDuration (BuildSelectors globals)))"

fun run :: "parser \<Rightarrow> env \<Rightarrow> event list \<Rightarrow> dashboard \<Rightarrow> dashboard" where
  "run parse e [] s = s"
| "run parse e (ev # evs) s = run parse e evs (fst (step parse e ev s))"

lemma run_append: "run parse e (xs @ ys) s = run parse e ys (run parse e xs s)"
  by (induction xs arbitrary: s) auto

section \<open>The query reads back\<close>

lemma query_text_variable_text:
  "query_text (Some v) (Some h) (Some i) = variable_text v [(''hostname'', h), (''interface'', i)]"
  by (simp add: query_text_def str_of_def variable_text_def label_text_def)



section \<open>Zooming\<close>

definition view :: "dashboard \<Rightarrow> real option \<times> real option \<times> (real option \<times> real option) list" where
  "view s = (xaxis_min s, xaxis_max s, zoomstack s)"

text \<open>The stack is empty while no zoom is set, and the left edge is not the falsy number 0.\<close>

definition zoom_ok :: "dashboard \<Rightarrow> bool" where
  "zoom_ok s \<longleftrightarrow>
     (xaxis_min s = None \<longrightarrow> xaxis_max s = None \<and> zoomstack s = []) \<and> xaxis_min s \<noteq> Some 0"

lemma zoom_out_undoes_select:
  assumes "zoom_ok s" "view t = view (on_plotselected a b s)"
  shows "view (on_zoomout t) = view s"
proof (cases "num_truthy (xaxis_min s)")
  case True
  then show ?thesis using assms(2)
    by (auto simp: view_def on_plotselected_def on_zoomout_def plot_graph_def)
next
  case False
  then show ?thesis using assms
    by (auto simp: view_def on_plotselected_def on_zoomout_def plot_graph_def num_truthy_def zoom_ok_def ResetZoom_def)
qed

lemma select_zoom_ok: "a \<noteq> 0 \<Longrightarrow> zoom_ok (on_plotselected a b s)"
  by (simp add: zoom_ok_def on_plotselected_def plot_graph_def)

definition selections :: "(real \<times> real) list \<Rightarrow> event list" where
  "selections rs = map (\<lambda>(a, b). PlotSelected a b) rs"



text \<open>
  Changing the duration clears the zoom but not the stack, so the next zoom-out returns to a range
  of the old graph and not to the whole of the new one.
\<close>

lemma stale_zoom_after_reset:
  "view (run parse e [PlotSelected 10 90, PlotSelected 20 30, IncreaseDuration, PlotSelected 40 50, ZoomOutClicked] globals)
    = (Some 10, Some 90, [])"
  by (simp add: view_def on_plotselected_def on_zoomout_def change_duration_def plot_graph_def num_truthy_def
      ResetZoom_def ShowDuration_def FetchData_def globals_def fetch_ready_def str_truthy_def)

section \<open>Polling\<close>

definition is_get :: "request \<Rightarrow> bool" where
  "is_get r = has_error_callback r"

definition gets :: "dashboard \<Rightarrow> nat" where
  "gets s = length (filter is_get (pending s))"

definition polls :: "dashboard \<Rightarrow> nat" where
  "polls s = gets s + length (timers s)"

definition poll_inv :: "dashboard \<Rightarrow> bool" where
  "poll_inv s \<longleftrightarrow> polls s \<le> 1 \<and> list_all (\<lambda>t. fetch_timeout s = Some t) (timers s)"

text \<open>Events that fetch without being the polling timer.\<close>

fun user_fetch :: "event \<Rightarrow> dashboard \<Rightarrow> bool" where
  "user_fetch IncreaseDuration s = True"
| "user_fetch DecreaseDuration s = True"
| "user_fetch (ValueTypeChanged t) s = True"
| "user_fetch (VariableChanged v) s = True"
| "user_fetch (InterfaceChanged i) s = True"
| "user_fetch (Answered i a) s =
     (i < length (pending s) \<and> (case pending s ! i of ListInterfaces _ \<Rightarrow> True | _ \<Rightarrow> False))"
| "user_fetch _ s = False"

fun patient :: "parser \<Rightarrow> env \<Rightarrow> event list \<Rightarrow> dashboard \<Rightarrow> bool" where
  "patient parse e [] s = True"
| "patient parse e (ev # evs) s =
     ((user_fetch ev s \<longrightarrow> gets s = 0) \<and> patient parse e evs (fst (step parse e ev s)))"

lemma filter_nth_pos: "i < length xs \<Longrightarrow> P (xs ! i) \<Longrightarrow> 0 < length (filter P xs)"
  by (auto simp: filter_empty_conv)

lemma filter_remove_nth:
  "i < length xs \<Longrightarrow>
    length (filter P (remove_nth i xs)) = length (filter P xs) - (if P (xs ! i) then 1 else 0)"
proof (induction xs arbitrary: i)
  case (Cons x xs)
  then show ?case
    by (cases i) (auto simp: remove_nth_def dest: filter_nth_pos)
qed simp

lemma poll_inv_frame:
  "poll_inv s \<Longrightarrow> timers t = timers s \<Longrightarrow> fetch_timeout t = fetch_timeout s \<Longrightarrow>
    gets t \<le> gets s \<Longrightarrow> poll_inv t"
  by (simp add: poll_inv_def polls_def)

lemma clear_timer_inv: "list_all (\<lambda>t. f = Some t) ts \<Longrightarrow> clear_timer f ts = []"
  by (cases f) (auto simp: clear_timer_def list_all_iff removeAll_filter_not_eq filter_empty_conv dest: neq_Nil_conv [THEN iffD1])

lemma FetchData_poll_inv:
  assumes "poll_inv s" "gets s = 0"
  shows "poll_inv (FetchData e s)"
  using assms clear_timer_inv
  by (auto simp: FetchData_def poll_inv_def polls_def gets_def is_get_def has_error_callback_def)

lemma FetchData_frame_poll_inv:
  assumes "poll_inv s" "gets s = 0"
    and "timers t = timers s" "fetch_timeout t = fetch_timeout s" "pending t = pending s"
  shows "poll_inv (FetchData e t)"
  by (rule FetchData_poll_inv) (use assms in \<open>simp_all add: poll_inv_def polls_def gets_def\<close>)

lemma offer_frame [simp]:
  "timers (offer_variables is s) = timers s" "fetch_timeout (offer_variables is s) = fetch_timeout s"
  "pending (offer_variables is s) = pending s"
  "timers (offer_hosts is s) = timers s" "fetch_timeout (offer_hosts is s) = fetch_timeout s"
  "pending (offer_hosts is s) = pending s"
  by (induction "is" arbitrary: s) (auto simp: Let_def)

lemma offer_interfaces_frame [simp]:
  "timers (fst (offer_interfaces ss s)) = timers s"
  "fetch_timeout (fst (offer_interfaces ss s)) = fetch_timeout s"
  "pending (fst (offer_interfaces ss s)) = pending s"
  by (induction ss s rule: offer_interfaces.induct) (auto simp: Let_def split: option.splits)

lemma set_fetch_timer_poll_inv:
  assumes "gets s = 0" "timers s = []"
  shows "poll_inv (set_fetch_timer s)"
  using assms by (simp add: poll_inv_def polls_def gets_def set_fetch_timer_def)

lemma FetchData_success_poll_inv:
  assumes "gets s = 0" "timers s = []"
  shows "poll_inv (fst (FetchData_success e ss s))"
  using assms set_fetch_timer_poll_inv
  by (auto simp: FetchData_success_def Let_def ResizeGraph_def plot_graph_def poll_inv_def polls_def gets_def
      set_fetch_timer_def)

lemma BuildSelectors_success_poll_inv:
  assumes "poll_inv s"
  shows "poll_inv (fst (BuildSelectors_success ss s))"
  by (rule poll_inv_frame [OF assms])
    (auto simp: BuildSelectors_success_def BuildInterfaceList_def gets_def is_get_def has_error_callback_def Let_def
      split: option.splits)

lemma BuildInterfaceList_success_poll_inv:
  assumes "poll_inv s" "gets s = 0"
  shows "poll_inv (fst (BuildInterfaceList_success e ss s))"
proof -
  obtain t x where tx: "offer_interfaces ss (s\<lparr>interface_opts := []\<rparr>) = (t, x)" by fastforce
  have fr: "timers t = timers s" "fetch_timeout t = fetch_timeout s" "pending t = pending s"
    using offer_interfaces_frame [of ss "s\<lparr>interface_opts := []\<rparr>"] by (simp_all add: tx)
  then have "poll_inv t" "gets t = 0" using assms by (auto simp: poll_inv_def polls_def gets_def)
  then show ?thesis
    by (cases x) (auto simp: BuildInterfaceList_success_def tx FetchData_poll_inv)
qed

text \<open>Taking an answered request off the list frees the poll it stood for.\<close>

lemma take_request:
  assumes "poll_inv s" "i < length (pending s)"
  defines "t \<equiv> s\<lparr>pending := remove_nth i (pending s)\<rparr>"
  shows "poll_inv t" "gets t \<le> gets s" "is_get (pending s ! i) \<Longrightarrow> gets t = 0 \<and> timers t = []"
proof -
  have g: "gets t = gets s - (if is_get (pending s ! i) then 1 else 0)"
    using assms(2) by (simp add: t_def gets_def filter_remove_nth)
  then show "gets t \<le> gets s" by simp
  then show "poll_inv t" using assms(1) by (auto simp: poll_inv_def polls_def t_def)
  assume "is_get (pending s ! i)"
  moreover have "0 < gets s"
    using filter_nth_pos [of i "pending s" is_get] assms(2) calculation by (simp add: gets_def)
  ultimately have "gets s = 1 \<and> timers s = []"
    using assms(1) by (cases "timers s") (auto simp: poll_inv_def polls_def)
  then show "gets t = 0 \<and> timers t = []"
    using g \<open>is_get (pending s ! i)\<close> by (simp add: t_def)
qed

lemma Answered_poll_inv:
  assumes "poll_inv s" "user_fetch (Answered i a) s \<longrightarrow> gets s = 0"
  shows "poll_inv (fst (step parse e (Answered i a) s))"
proof (cases "i < length (pending s)")
  case i: True
  let ?t = "s\<lparr>pending := remove_nth i (pending s)\<rparr>" and ?r = "pending s ! i"
  let ?out = "SendRequest_answer parse (request_path ?r) empty_response (has_error_callback ?r) a"
  note t = take_request [OF assms(1) i]
  have "poll_inv (fst (handle_reactions e ?r ?out ?t))"
  proof (cases ?out)
    case Nil
    then show ?thesis using t(1) by simp
  next
    case (Cons x xs)
    show ?thesis
    proof (cases x)
      case (CallSuccess m)
      then show ?thesis
        using Cons t assms(2) i
        by (cases ?r) (auto simp: handle_success_def is_get_def has_error_callback_def
            intro: FetchData_success_poll_inv BuildSelectors_success_poll_inv BuildInterfaceList_success_poll_inv)
    next
      case (CallError m)
      then have "is_get ?r"
        using SendRequest_answer_error [of m parse "request_path ?r" empty_response "has_error_callback ?r" a]
        by (simp add: Cons is_get_def)
      then show ?thesis using Cons CallError t(3) by (simp add: set_fetch_timer_poll_inv)
    next
      case (ConsoleLog l)
      then show ?thesis using Cons t(1) by (auto intro: poll_inv_frame simp: gets_def)
    qed
  qed
  then show ?thesis using i by (simp add: Let_def)
next
  case False
  then show ?thesis using assms(1) by simp
qed

lemma TimerFired_poll_inv:
  assumes "poll_inv s"
  shows "poll_inv (fst (step parse e (TimerFired t) s))"
proof (cases "t \<in> set (timers s)")
  case True
  then have "timers s = [t]" "gets s = 0" using assms
    by (cases "timers s"; auto simp: poll_inv_def polls_def)+
  then have "poll_inv (FetchData e (s\<lparr>timers := removeAll t (timers s)\<rparr>))"
    by (intro FetchData_poll_inv) (simp_all add: poll_inv_def polls_def gets_def)
  then show ?thesis using True by simp
qed (simp add: assms)

lemmas quiet_handlers = on_plotselected_def on_zoomout_def plot_graph_def ResetZoom_def ShowDuration_def ResizeGraph_def

lemma step_poll_inv:
  assumes "poll_inv s" "user_fetch ev s \<longrightarrow> gets s = 0"
  shows "poll_inv (fst (step parse e ev s))"
proof (cases ev)
  case (Answered i a)
  then show ?thesis using Answered_poll_inv assms by simp
next
  case (TimerFired t)
  then show ?thesis using TimerFired_poll_inv assms by simp
next
  case (HostChanged h)
  then show ?thesis using assms
    by (auto intro: poll_inv_frame simp: BuildInterfaceList_def gets_def is_get_def has_error_callback_def)
next
  case ZoomOutClicked
  then show ?thesis
    by (auto intro: poll_inv_frame [OF assms(1)] simp: quiet_handlers gets_def split: list.splits)
next
  case (PlotSelected a b)
  then show ?thesis
    by (auto intro: poll_inv_frame [OF assms(1)] simp: quiet_handlers gets_def)
next
  case (NiceDurationChanged t)
  then show ?thesis by (auto intro: poll_inv_frame [OF assms(1)] simp: gets_def)
next
  case WindowResized
  then show ?thesis by (auto intro: poll_inv_frame [OF assms(1)] simp: quiet_handlers gets_def)
qed (use assms in \<open>auto intro!: FetchData_frame_poll_inv [of s] simp: change_duration_def quiet_handlers\<close>)

lemma run_poll_inv: "poll_inv s \<Longrightarrow> patient parse e evs s \<Longrightarrow> poll_inv (run parse e evs s)"
  by (induction evs arbitrary: s) (auto simp: step_poll_inv)

text \<open>
  C1. The page polls the server once at a time: from a fresh page, as long as no user action
  fetches while a data query is under way, there is at every moment at most one data query or one
  armed timer, and an armed timer is the one the page remembers.
\<close>

theorem polls_once:
  assumes "patient parse e evs (page_ready e)"
  shows "polls (run parse e evs (page_ready e)) \<le> 1
    \<and> list_all (\<lambda>t. fetch_timeout (run parse e evs (page_ready e)) = Some t) (timers (run parse e evs (page_ready e)))"
proof -
  have "poll_inv (page_ready e)"
    by (simp add: page_ready_def globals_def BuildSelectors_def ShowDuration_def FetchData_def fetch_ready_def
        str_truthy_def ResizeGraph_def poll_inv_def polls_def gets_def is_get_def has_error_callback_def)
  then show ?thesis using run_poll_inv [OF _ assms] by (simp add: poll_inv_def)
qed

text \<open>
  Without that proviso it polls twice: two changes of the selectors in a row send two queries, each
  answer arms a timer, and the page forgets the first one.
\<close>

definition impatient :: "event list" where
  "impatient = [HostChanged ''r1'', InterfaceChanged ''eth0'', VariableChanged ''/v'',
     Answered 2 (Failed ''timeout'' []), Answered 2 (Failed ''timeout'' [])]"

lemmas page_eval = page_ready_def globals_def BuildSelectors_def ShowDuration_def FetchData_def fetch_ready_def
  str_truthy_def ResizeGraph_def BuildInterfaceList_def has_error_callback_def remove_nth_def set_fetch_timer_def
  clear_timer_def gets_def is_get_def polls_def

theorem polls_once_witness:
  "polls (run (\<lambda>b r. None) \<lparr>now = 0, innerWidth = 800, innerHeight = 600\<rparr>
     [HostChanged ''r1'', InterfaceChanged ''eth0'', Answered 2 (Failed ''timeout'' []), VariableChanged ''/v'']
     (page_ready \<lparr>now = 0, innerWidth = 800, innerHeight = 600\<rparr>)) \<le> 1"
  by (rule polls_once [THEN conjunct1]) (simp add: page_eval)

lemma impatient_polls_twice:
  "polls (run parse e impatient (page_ready e)) = 2
   \<and> timers (run parse e impatient (page_ready e)) = [1, 2]
   \<and> fetch_timeout (run parse e impatient (page_ready e)) = Some 2"
  by (simp add: page_eval impatient_def Let_def)

end
