(* ===== verification/Color.thy ===== *)
theory Color
  imports JS_Prelude "HOL-Library.Monad_Syntax"
begin

text \<open>
  Colours, \<open>static/flot/jquery.colorhelpers.js\<close> (also inlined in \<open>jquery.flot.js\<close>): construction
  and normalisation, channel arithmetic, the textual form, and the parser of CSS colours. The
  patterns of the parser are matchers on character lists, searched for at every position as
  \<open>RegExp.exec\<close> does.
\<close>

section \<open>Colour objects\<close>

record color =
  red :: real
  green :: real
  blue :: real
  alpha :: real

text \<open>
  \<open>parseInt\<close> of a number reads the digits of its decimal text: the integral part, but the leading
  digit where the text is in exponent form.
\<close>

definition parse_int_num :: "real \<Rightarrow> real" where
  "parse_int_num x =
     (if x \<noteq> 0 \<and> (\<bar>x\<bar> < 1 / 10 ^ 6 \<or> 10 ^ 21 \<le> \<bar>x\<bar>)
      then sgn x * of_int \<lfloor>\<bar>x\<bar> / 10 powr of_int \<lfloor>log 10 \<bar>x\<bar>\<rfloor>\<rfloor>
      else trunc x)"

definition normalize :: "color \<Rightarrow> color" where
  "normalize c =
     \<lparr>red = clamp 0 (parse_int_num (red c)) 255, green = clamp 0 (parse_int_num (green c)) 255,
      blue = clamp 0 (parse_int_num (blue c)) 255, alpha = clamp 0 (alpha c) 1\<rparr>"

text \<open>A missing alpha is 1.\<close>

definition make :: "real \<Rightarrow> real \<Rightarrow> real \<Rightarrow> real option \<Rightarrow> color" where
  "make r g b a =
     normalize \<lparr>red = r, green = g, blue = b, alpha = (case a of None \<Rightarrow> 1 | Some x \<Rightarrow> x)\<rparr>"

text \<open>\<open>o[c.charAt(i)] = f(o[c.charAt(i)])\<close>: a letter that is no channel leaves the channels alone.\<close>

definition on_channel :: "(real \<Rightarrow> real) \<Rightarrow> char \<Rightarrow> color \<Rightarrow> color" where
  "on_channel f k c =
     (if k = CHR ''r'' then c\<lparr>red := f (red c)\<rparr>
      else if k = CHR ''g'' then c\<lparr>green := f (green c)\<rparr>
      else if k = CHR ''b'' then c\<lparr>blue := f (blue c)\<rparr>
      else if k = CHR ''a'' then c\<lparr>alpha := f (alpha c)\<rparr>
      else c)"

definition add :: "string \<Rightarrow> real \<Rightarrow> color \<Rightarrow> color" where
  "add cs d c = normalize (fold (on_channel (\<lambda>v. v + d)) cs c)"

definition scale :: "string \<Rightarrow> real \<Rightarrow> color \<Rightarrow> color" where
  "scale cs f c = normalize (fold (on_channel (\<lambda>v. v * f)) cs c)"

definition toString :: "color \<Rightarrow> markup" where
  "toString c =
     (if alpha c \<ge> 1 then [T ''rgb('', V (red c), T '','', V (green c), T '','', V (blue c), T '')'']
      else [T ''rgba('', V (red c), T '','', V (green c), T '','', V (blue c), T '','', V (alpha c), T '')''])"

text \<open>The arguments are in the order of the code: blue before green.\<close>

definition clone :: "color \<Rightarrow> color" where
  "clone c = make (red c) (blue c) (green c) (Some (alpha c))"

section \<open>Patterns\<close>

type_synonym 'a matcher = "string \<Rightarrow> ('a \<times> string) option"

fun lit :: "string \<Rightarrow> unit matcher" where
  "lit [] s = Some ((), s)"
| "lit (c # cs) [] = None"
| "lit (c # cs) (x # s) = (if x = c then lit cs s else None)"

definition ws :: "unit matcher" where
  "ws s = Some ((), dropWhile is_space s)"

text \<open>\<open>[0-9]{1,3}\<close>: what follows in the patterns is never a digit, so the whole run must match.\<close>

definition num3 :: "real matcher" where
  "num3 s =
     (let d = takeWhile is_digit s
      in if d \<noteq> [] \<and> length d \<le> 3 then Some (real (digits_val d), dropWhile is_digit s) else None)"

text \<open>\<open>[0-9]+(?:\.[0-9]+)?\<close>, with its value.\<close>

definition dec :: "real matcher" where
  "dec s =
     (let d = takeWhile is_digit s; t = dropWhile is_digit s; f = takeWhile is_digit (tl t)
      in if d = [] then None
         else if t \<noteq> [] \<and> hd t = CHR ''.'' \<and> f \<noteq> []
           then Some (real (digits_val d) + real (digits_val f) / 10 ^ length f, dropWhile is_digit (tl t))
         else Some (real (digits_val d), t))"

definition hex_val :: "char \<Rightarrow> nat option" where
  "hex_val c =
     (let n = of_char c :: nat
      in if is_digit c then Some (n - 48)
         else if 97 \<le> n \<and> n \<le> 102 then Some (n - 87)
         else if 65 \<le> n \<and> n \<le> 70 then Some (n - 55)
         else None)"

fun hex1 :: "nat matcher" where
  "hex1 [] = None"
| "hex1 (c # s) = (case hex_val c of None \<Rightarrow> None | Some v \<Rightarrow> Some (v, s))"

text \<open>Sequencing of matchers.\<close>

definition seq :: "'a matcher \<Rightarrow> ('a \<Rightarrow> 'b matcher) \<Rightarrow> 'b matcher" where
  "seq m f s = do { (x, t) \<leftarrow> m s; f x t }"

definition comma :: "unit matcher" where
  "comma = seq ws (\<lambda>_. seq (lit '','') (\<lambda>_. ws))"

definition close :: "unit matcher" where
  "close = seq ws (\<lambda>_. lit '')'')"

text \<open>Three numbers between separators, then what the pattern has after them.\<close>

definition three :: "real matcher \<Rightarrow> (real \<Rightarrow> real \<Rightarrow> real \<Rightarrow> 'b matcher) \<Rightarrow> 'b matcher" where
  "three m f =
     seq ws (\<lambda>_. seq m (\<lambda>x. seq comma (\<lambda>_. seq m (\<lambda>y. seq comma (\<lambda>_. seq m (\<lambda>z. f x y z))))))"

definition ret :: "'a \<Rightarrow> 'a matcher" where
  "ret x s = Some (x, s)"

definition percent :: "real matcher" where
  "percent = seq dec (\<lambda>x. seq (lit ''%'') (\<lambda>_. ret (x * 2.55)))"

definition rgb_num :: "color matcher" where
  "rgb_num = seq (lit ''rgb('') (\<lambda>_. three num3 (\<lambda>x y z. seq close (\<lambda>_. ret (make x y z None))))"

definition rgba_num :: "color matcher" where
  "rgba_num = seq (lit ''rgba('') (\<lambda>_. three num3 (\<lambda>x y z.
     seq comma (\<lambda>_. seq dec (\<lambda>a. seq close (\<lambda>_. ret (make x y z (Some a)))))))"

definition rgb_pct :: "color matcher" where
  "rgb_pct = seq (lit ''rgb('') (\<lambda>_. three percent (\<lambda>x y z. seq close (\<lambda>_. ret (make x y z None))))"

definition rgba_pct :: "color matcher" where
  "rgba_pct = seq (lit ''rgba('') (\<lambda>_. three percent (\<lambda>x y z.
     seq comma (\<lambda>_. seq dec (\<lambda>a. seq close (\<lambda>_. ret (make x y z (Some a)))))))"

definition hex6 :: "color matcher" where
  "hex6 = seq (lit ''#'') (\<lambda>_. seq hex1 (\<lambda>a. seq hex1 (\<lambda>b. seq hex1 (\<lambda>c. seq hex1 (\<lambda>d.
     seq hex1 (\<lambda>e. seq hex1 (\<lambda>f.
       ret (make (real (16 * a + b)) (real (16 * c + d)) (real (16 * e + f)) None))))))))"

definition hex3 :: "color matcher" where
  "hex3 = seq (lit ''#'') (\<lambda>_. seq hex1 (\<lambda>a. seq hex1 (\<lambda>b. seq hex1 (\<lambda>c.
     ret (make (real (16 * a + a)) (real (16 * b + b)) (real (16 * c + c)) None)))))"

text \<open>\<open>RegExp.exec\<close>: the leftmost position where the pattern matches.\<close>

fun exec :: "'a matcher \<Rightarrow> string \<Rightarrow> 'a option" where
  "exec m [] = map_option fst (m [])"
| "exec m (c # s) = (case m (c # s) of Some (x, _) \<Rightarrow> Some x | None \<Rightarrow> exec m s)"

section \<open>Named colours\<close>

definition to_lower :: "string \<Rightarrow> string" where
  "to_lower s = map (\<lambda>c. if 65 \<le> (of_char c :: nat) \<and> (of_char c :: nat) \<le> 90
                        then char_of ((of_char c :: nat) + 32) else c) s"

definition trim :: "string \<Rightarrow> string" where
  "trim s = rev (dropWhile is_space (rev (dropWhile is_space s)))"

definition lookupColors :: "(string \<times> real \<times> real \<times> real) list" where
  "lookupColors =
    [(''aqua'', 0, 255, 255), (''azure'', 240, 255, 255), (''beige'', 245, 245, 220),
     (''black'', 0, 0, 0), (''blue'', 0, 0, 255), (''brown'', 165, 42, 42), (''cyan'', 0, 255, 255),
     (''darkblue'', 0, 0, 139), (''darkcyan'', 0, 139, 139), (''darkgrey'', 169, 169, 169),
     (''darkgreen'', 0, 100, 0), (''darkkhaki'', 189, 183, 107), (''darkmagenta'', 139, 0, 139),
     (''darkolivegreen'', 85, 107, 47), (''darkorange'', 255, 140, 0), (''darkorchid'', 153, 50, 204),
     (''darkred'', 139, 0, 0), (''darksalmon'', 233, 150, 122), (''darkviolet'', 148, 0, 211),
     (''fuchsia'', 255, 0, 255), (''gold'', 255, 215, 0), (''green'', 0, 128, 0),
     (''indigo'', 75, 0, 130), (''khaki'', 240, 230, 140), (''lightblue'', 173, 216, 230),
     (''lightcyan'', 224, 255, 255), (''lightgreen'', 144, 238, 144), (''lightgrey'', 211, 211, 211),
     (''lightpink'', 255, 182, 193), (''lightyellow'', 255, 255, 224), (''lime'', 0, 255, 0),
     (''magenta'', 255, 0, 255), (''maroon'', 128, 0, 0), (''navy'', 0, 0, 128), (''olive'', 128, 128, 0),
     (''orange'', 255, 165, 0), (''pink'', 255, 192, 203), (''purple'', 128, 0, 128),
     (''violet'', 128, 0, 128), (''red'', 255, 0, 0), (''silver'', 192, 192, 192),
     (''white'', 255, 255, 255), (''yellow'', 255, 255, 0)]"

definition named_color :: "string \<Rightarrow> color" where
  "named_color str =
     (let name = to_lower (trim str)
      in if name = ''transparent'' then make 255 255 255 (Some 0)
         else case map_of lookupColors name of
                Some (r, g, b) \<Rightarrow> make r g b None
              | None \<Rightarrow> make 0 0 0 None)"

definition parse :: "string \<Rightarrow> color" where
  "parse str =
     (case exec rgb_num str of Some c \<Rightarrow> c | None \<Rightarrow>
     (case exec rgba_num str of Some c \<Rightarrow> c | None \<Rightarrow>
     (case exec rgb_pct str of Some c \<Rightarrow> c | None \<Rightarrow>
     (case exec rgba_pct str of Some c \<Rightarrow> c | None \<Rightarrow>
     (case exec hex6 str of Some c \<Rightarrow> c | None \<Rightarrow>
     (case exec hex3 str of Some c \<Rightarrow> c | None \<Rightarrow> named_color str))))))"

text \<open>
  \<open>$.color.extract\<close> climbs from an element: the argument lists the computed property of the element and
  of its ancestors, each with whether it is the body. \<open>None\<close> is the error of climbing off the
  document.
\<close>

fun climb :: "(string \<times> bool) list \<Rightarrow> string option" where
  "climb [] = None"
| "climb ((css, _) # up) =
     (let c = to_lower css
      in if c \<noteq> [] \<and> c \<noteq> ''transparent'' then Some c
         else case up of [] \<Rightarrow> None | (_, body) # _ \<Rightarrow> if body then Some c else climb up)"

definition extract_color :: "(string \<times> bool) list \<Rightarrow> color option" where
  "extract_color chain =
     map_option (\<lambda>c. parse (if c = ''rgba(0, 0, 0, 0)'' then ''transparent'' else c)) (climb chain)"

section \<open>Normal colours\<close>

definition normal :: "color \<Rightarrow> bool" where
  "normal c \<longleftrightarrow> red c \<in> \<int> \<and> green c \<in> \<int> \<and> blue c \<in> \<int> \<and> 0 \<le> red c \<and> red c \<le> 255 \<and> 0 \<le> green c \<and>
     green c \<le> 255 \<and> 0 \<le> blue c \<and> blue c \<le> 255 \<and> 0 \<le> alpha c \<and> alpha c \<le> 1"

lemma trunc_Ints [simp]: "trunc x \<in> \<int>"
  by (simp add: trunc_def)

lemma parse_int_num_Ints [simp]: "parse_int_num x \<in> \<int>"
  by (cases "x < 0") (auto simp: parse_int_num_def sgn_if)

lemma clamp_Ints: "v \<in> \<int> \<Longrightarrow> clamp 0 v 255 \<in> \<int>"
  by (auto simp: clamp_def)

lemma normal_normalize [simp, intro]: "normal (normalize c)"
  using clamp_bounds [of 0 255] clamp_bounds [of 0 1 "alpha c"]
  by (auto simp: normal_def normalize_def clamp_Ints)

lemma normal_make [simp, intro]: "normal (make r g b a)"
  by (simp add: make_def)

lemma normal_add [simp, intro]: "normal (add cs d c)" and normal_scale [simp, intro]: "normal (scale cs d c)"
  by (simp_all add: add_def scale_def)

lemma parse_int_num_int:
  assumes "x \<in> \<int>" "0 \<le> x" "x \<le> 255"
  shows "parse_int_num x = x"
proof -
  obtain i where i: "x = of_int i" using assms(1) by (auto elim: Ints_cases)
  have "\<not> (x \<noteq> 0 \<and> (\<bar>x\<bar> < 1 / 10 ^ 6 \<or> 10 ^ 21 \<le> \<bar>x\<bar>))"
  proof (cases "x = 0")
    case False
    then have "1 \<le> x" using assms(2) i by simp
    then show ?thesis using assms(3) by simp
  qed simp
  then have "parse_int_num x = trunc x" unfolding parse_int_num_def by (rule if_not_P)
  then show ?thesis using i by simp
qed

lemma normalize_normal [simp]: "normal c \<Longrightarrow> normalize c = c"
  by (cases c) (auto simp: normal_def normalize_def parse_int_num_int clamp_id)

lemma exec_range: "exec m s = Some x \<Longrightarrow> \<exists>t u. m t = Some (x, u)"
  by (induction m s rule: exec.induct) (auto split: option.splits)

lemma seq_Some: "seq m f s = Some (y, u) \<longleftrightarrow> (\<exists>x t. m s = Some (x, t) \<and> f x t = Some (y, u))"
  by (auto simp: seq_def split: bind_splits)


section \<open>Reading a colour back\<close>

lemma takeWhile_nat_str [simp]:
  "\<not> is_digit c \<Longrightarrow> takeWhile is_digit (nat_str n @ c # t) = nat_str n"
  "\<not> is_digit c \<Longrightarrow> dropWhile is_digit (nat_str n @ c # t) = c # t"
  using nat_str_digits [of n] by (auto simp: takeWhile_append dropWhile_append list_all_iff)

lemma num3_nat_str:
  "n < 1000 \<Longrightarrow> \<not> is_digit c \<Longrightarrow> num3 (nat_str n @ c # t) = Some (real n, c # t)"
  by (simp add: num3_def Let_def length_nat_str_small)

lemma ws_nat_str [simp]: "dropWhile is_space (nat_str n @ t) = nat_str n @ t"
proof -
  obtain c u where cu: "nat_str n = c # u" using nat_str_nonempty [of n] by (cases "nat_str n") auto
  then have "is_digit c" using nat_str_digits [of n] by simp
  then show ?thesis by (simp add: cu is_digit_not_space)
qed

lemma separators [simp]: "\<not> is_digit (CHR '','')" "\<not> is_digit (CHR '')'')"
  "\<not> is_space (CHR '','')" "\<not> is_space (CHR '')'')"
  by (simp_all add: is_digit_def is_space_def)

lemma rgb_num_text:
  assumes "r < 1000" "g < 1000" "b < 1000"
  shows "rgb_num (''rgb('' @ nat_str r @ '','' @ nat_str g @ '','' @ nat_str b @ '')'')
    = Some (make (real r) (real g) (real b) None, [])"
  using assms
  by (simp add: rgb_num_def three_def seq_def comma_def close_def ws_def ret_def num3_nat_str)

lemma parse_rgb:
  assumes "r < 1000" "g < 1000" "b < 1000"
  shows "parse (''rgb('' @ nat_str r @ '','' @ nat_str g @ '','' @ nat_str b @ '')'') = make (real r) (real g) (real b) None"
  using rgb_num_text [OF assms] by (simp add: parse_def)

lemma channel_nat:
  assumes "x \<in> \<int>" "0 \<le> x" "x \<le> (255 :: real)"
  obtains n where "x = real n" "n < 1000"
proof -
  obtain i where i: "x = of_int i" using assms(1) by (auto elim: Ints_cases)
  then show thesis using assms by (intro that [of "nat i"]) auto
qed



text \<open>Cloning exchanges the green and the blue channel.\<close>

lemma clone_swaps: "normal c \<Longrightarrow> clone c = c\<lparr>green := blue c, blue := green c\<rparr>"
  using normalize_normal [of "c\<lparr>green := blue c, blue := green c\<rparr>"]
  by (cases c) (simp add: clone_def make_def normal_def)

end
