(* ===== verification/Canvas.thy ===== *)
theory Canvas
  imports JS_Prelude
begin

text \<open>
  The drawing context the plotting code writes to (a canvas 2D context, or its emulation): a drawing
  operation is the list of the calls and property assignments it makes, in order.
\<close>

datatype style = Css markup | Gradient real real "(real \<times> markup) list"

datatype cmd =
    Save
  | Restore
  | Translate real real
  | ScaleBy real real
  | BeginPath
  | ClosePath
  | MoveTo real real
  | LineTo real real
  | Arc real real real real real
  | RectPath real real real real
  | Stroke
  | Fill
  | FillRect real real real real
  | StrokeRect real real real real
  | ClearRect real real real real
  | LineWidth real
  | LineJoin string
  | StrokeStyle style
  | FillStyle style
  | GlobalAlpha real
  | CompositeOperation string
  | DrawImage nat real real real real real real real real

type_synonym drawing = "cmd list"

section \<open>Saved states\<close>

text \<open>The number of saved states after a drawing; \<open>None\<close> if it restores a state it did not save.\<close>

fun depth :: "nat \<Rightarrow> drawing \<Rightarrow> nat option" where
  "depth d [] = Some d"
| "depth d (Save # cs) = depth (Suc d) cs"
| "depth d (Restore # cs) = (case d of 0 \<Rightarrow> None | Suc k \<Rightarrow> depth k cs)"
| "depth d (_ # cs) = depth d cs"

definition balanced :: "drawing \<Rightarrow> bool" where
  "balanced cs \<longleftrightarrow> depth 0 cs = Some 0"

lemma depth_append: "depth d (xs @ ys) = Option.bind (depth d xs) (\<lambda>k. depth k ys)"
proof (induction xs arbitrary: d)
  case (Cons x xs)
  then show ?case by (cases x) (auto split: nat.splits)
qed simp

lemma depth_shift: "depth d cs = Some k \<Longrightarrow> depth (d + e) cs = Some (k + e)"
proof (induction cs arbitrary: d)
  case (Cons c cs)
  then show ?case by (cases c) (auto split: nat.splits simp: add_Suc [symmetric] simp del: add_Suc)
qed simp

lemma balanced_depth: "balanced cs \<Longrightarrow> depth d cs = Some d"
  using depth_shift [of 0 cs 0 d] by (simp add: balanced_def)

lemma balanced_Nil [simp, cmd_simps]: "balanced []"
  by (simp add: balanced_def)

lemma balanced_append [cmd_simps]: "balanced xs \<Longrightarrow> balanced ys \<Longrightarrow> balanced (xs @ ys)"
  by (simp add: balanced_def depth_append)

lemma balanced_concat: "(\<And>x. x \<in> set xs \<Longrightarrow> balanced x) \<Longrightarrow> balanced (concat xs)"
  by (induction xs) (auto intro: balanced_append)

lemma balanced_save: "balanced cs \<Longrightarrow> balanced (Save # cs @ [Restore])"
  by (simp add: balanced_def depth_append balanced_depth)

lemma balanced_Cons: "c \<notin> {Save, Restore} \<Longrightarrow> balanced (c # cs) = balanced cs"
  by (cases c) (simp_all add: balanced_def)

text \<open>Drawings that neither save nor restore.\<close>

definition flat :: "drawing \<Rightarrow> bool" where
  "flat cs \<longleftrightarrow> list_all (\<lambda>c. c \<notin> {Save, Restore}) cs"

lemma flat_simps [simp, cmd_simps]:
  "flat []" "flat (c # cs) \<longleftrightarrow> c \<notin> {Save, Restore} \<and> flat cs" "flat (xs @ ys) \<longleftrightarrow> flat xs \<and> flat ys"
  "flat (concat xss) \<longleftrightarrow> list_all flat xss"
  by (auto simp: flat_def list_all_iff)

lemma flat_balanced: "flat cs \<Longrightarrow> balanced cs"
  by (induction cs) (auto simp: balanced_Cons)

section \<open>Vertices\<close>

text \<open>The path vertices a drawing mentions, in order.\<close>

fun vertices :: "drawing \<Rightarrow> (real \<times> real) list" where
  "vertices [] = []"
| "vertices (MoveTo x y # cs) = (x, y) # vertices cs"
| "vertices (LineTo x y # cs) = (x, y) # vertices cs"
| "vertices (_ # cs) = vertices cs"

lemma vertices_append [simp, cmd_simps]: "vertices (xs @ ys) = vertices xs @ vertices ys"
proof (induction xs)
  case (Cons x xs)
  then show ?case by (cases x) auto
qed simp

lemma vertices_concat [simp]: "vertices (concat xss) = concat (map vertices xss)"
  by (induction xss) auto

end
