(* ===== verification/Coordinates.thy ===== *)
theory Coordinates
  imports JS_Prelude
begin

text \<open>
  The contract between an axis and the code that works with pixels (selection, navigation, hovering,
  drawing): its two coordinate maps are inverse to each other and, for axes without a
  transformation, affine. Clients are proved once from these laws; the axes of the plot provide
  them.
\<close>

locale coordinate_map =
  fixes valid :: "'a \<Rightarrow> bool"
    and to_px :: "'a \<Rightarrow> real \<Rightarrow> real"
    and from_px :: "'a \<Rightarrow> real \<Rightarrow> real"
  assumes from_to: "valid a \<Longrightarrow> from_px a (to_px a x) = x"
    and to_from: "valid a \<Longrightarrow> to_px a (from_px a c) = c"
begin

lemma to_px_eq_iff: "valid a \<Longrightarrow> to_px a x = to_px a y \<longleftrightarrow> x = y"
  by (metis from_to)

lemma from_px_eq_iff: "valid a \<Longrightarrow> from_px a c = from_px a d \<longleftrightarrow> c = d"
  by (metis to_from)

end

locale affine_map = coordinate_map +
  assumes from_affine:
    "valid a \<Longrightarrow> from_px a ((1 - u) * c + u * d) = (1 - u) * from_px a c + u * from_px a d"
begin

lemma to_affine:
  assumes "valid a"
  shows "to_px a ((1 - u) * x + u * y) = (1 - u) * to_px a x + u * to_px a y"
proof -
  have "from_px a ((1 - u) * to_px a x + u * to_px a y) = (1 - u) * x + u * y"
    using assms by (simp add: from_affine from_to)
  then show ?thesis using assms to_from by metis
qed

text \<open>Moving two positions by the same number of pixels keeps their distance in data units.\<close>

lemma from_px_shift:
  assumes "valid a"
  shows "from_px a (c + s) - from_px a (d + s) = from_px a c - from_px a d"
proof (cases "c = d")
  case False
  define u where "u = s / (d - c)"
  have "s = u * (d - c)" using False by (simp add: u_def)
  then have c: "c + s = (1 - u) * c + u * d" and d: "d + s = (1 - (1 + u)) * c + (1 + u) * d"
    by (simp_all add: algebra_simps)
  show ?thesis
    unfolding c d from_affine [OF assms] by (simp add: algebra_simps)
qed simp

text \<open>Scaling a pixel interval by a factor scales the interval of data values by the same factor.\<close>

lemma from_px_stretch:
  assumes "valid a"
  shows "from_px a (c + k * (d - c)) = from_px a c + k * (from_px a d - from_px a c)"
  using from_affine [OF assms, of k c d] by (simp add: algebra_simps)

end

end
