(* ===== verification/Axis.thy ===== *)
theory Axis
  imports Canvas Coordinates
begin

text \<open>
  Axes of a plot, \<open>static/flot/jquery.flot.js\<close>: their options and state, how they are numbered and
  created, their range, the maps between data and canvas coordinates, and the boxes that hold their
  labels. Axes are kept by number, as the two arrays of the code do; a series refers to its axes
  by number where the code holds references.
\<close>

section \<open>Axes\<close>

datatype direction = X | Y

text \<open>A tick length is a number of pixels or \<open>"full"\<close>.\<close>

datatype tick_length = Full | Len real

datatype tick_unit = Second | Minute | Hour | Day | Month | Year

text \<open>A tick size is a number or, on a time axis, a number of units.\<close>

datatype tick_size = Size real | UnitSize real tick_unit

text \<open>
  The functions \<open>axis.tickGenerator\<close> and \<open>axis.tickFormatter\<close> can be: for decimal numbers, for times, the ticks of another axis
  (its number), and for the formatter the one of the options.
\<close>

datatype generator = DecimalTicks | TimeTicks | TicksOf nat

datatype formatter = DecimalFormat | TimeFormat | OptionFormat

text \<open>
  \<open>ticks\<close>: absent, a number, an explicit list (a value with an optional label each; \<open>None\<close> for a
  value that is no number), a function of the range, or another falsy value.
\<close>

datatype tick_option =
    AutoTicks
  | NoTicks
  | TickCount real
  | TickList "(real option \<times> markup option) list"
  | TickFun "real \<Rightarrow> real \<Rightarrow> (real option \<times> markup option) list"

text \<open>A range restriction of the navigation plugin: absent, \<open>false\<close>, or a pair of bounds.\<close>

datatype range_option = NoRange | Disabled | Bounds "real option" "real option"

record axis_options =
  opt_show :: "bool option"
  opt_position :: string
  opt_time :: bool
  opt_color :: string
  opt_tickColor :: "string option"
  opt_transform :: "(real \<Rightarrow> real) option"
  opt_inverseTransform :: "(real \<Rightarrow> real) option"
  opt_min :: "real option"
  opt_max :: "real option"
  opt_autoscaleMargin :: "real option"
  opt_ticks :: tick_option
  opt_tickFormatter :: "(real \<Rightarrow> markup) option"
  opt_labelWidth :: "real option"
  opt_labelHeight :: "real option"
  opt_reserveSpace :: bool
  opt_tickLength :: "tick_length option"
  opt_alignTicksWithAxis :: "nat option"
  opt_tickDecimals :: "int option"
  opt_tickSize :: "tick_size option"
  opt_minTickSize :: "tick_size option"
  opt_monthNames :: "string list option"
  opt_timeformat :: "string option"
  opt_twelveHourClock :: bool
  opt_zoomRange :: range_option
  opt_panRange :: range_option

record box =
  box_left :: real
  box_top :: real
  box_width :: real
  box_height :: real
  box_padding :: real

record axis =
  ax_n :: nat
  ax_direction :: direction
  ax_options :: axis_options
  ax_datamin :: "real option"
  ax_datamax :: "real option"
  ax_used :: bool
  ax_show :: bool
  ax_reserveSpace :: bool
  ax_min :: real
  ax_max :: real
  ax_ticks :: "(real \<times> markup) list option"
  ax_tickSize :: tick_size
  ax_tickDecimals :: int
  ax_tickGenerator :: generator
  ax_tickFormatter :: formatter
  ax_labelWidth :: real
  ax_labelHeight :: real
  ax_position :: string
  ax_tickLength :: tick_length
  ax_innermost :: bool
  ax_box :: box
  ax_scale :: real
  ax_p2c :: "real \<Rightarrow> real"
  ax_c2p :: "real \<Rightarrow> real"

definition empty_box :: box where
  "empty_box = \<lparr>box_left = 0, box_top = 0, box_width = 0, box_height = 0, box_padding = 0\<rparr>"

text \<open>A fresh axis: a number, a direction and its own copy of the options.\<close>

definition new_axis :: "nat \<Rightarrow> direction \<Rightarrow> axis_options \<Rightarrow> axis" where
  "new_axis n d opts =
     \<lparr>ax_n = n, ax_direction = d, ax_options = opts, ax_datamin = None, ax_datamax = None,
      ax_used = False, ax_show = False, ax_reserveSpace = False, ax_min = 0, ax_max = 0, ax_ticks = None,
      ax_tickSize = Size 0, ax_tickDecimals = 0, ax_tickGenerator = DecimalTicks, ax_tickFormatter = DecimalFormat, ax_labelWidth = 0, ax_labelHeight = 0, ax_position = [],
      ax_tickLength = Full, ax_innermost = False, ax_box = empty_box, ax_scale = 0,
      ax_p2c = (\<lambda>x. x), ax_c2p = (\<lambda>x. x)\<rparr>"

type_synonym axes = "axis option list"

text \<open>
  What the \<open>xaxis\<close> property of a series can be: missing or of another type, a number, or an axis
  object (its number).
\<close>

datatype axis_ref = NoAxis | AxisNumber nat | AxisObject nat

definition axisNumber :: "axis_ref \<Rightarrow> nat" where
  "axisNumber a = (case a of AxisNumber k \<Rightarrow> k | AxisObject k \<Rightarrow> k | NoAxis \<Rightarrow> 1)"

definition allAxes :: "axes \<Rightarrow> axes \<Rightarrow> axis list" where
  "allAxes xs ys = map the (filter (\<lambda>a. a \<noteq> None) (xs @ ys))"

definition axis_at :: "axes \<Rightarrow> nat \<Rightarrow> axis option" where
  "axis_at axes i = (if i < length axes then axes ! i else None)"

text \<open>\<open>axes[i] = a\<close>, which extends the array when \<open>i\<close> lies beyond its end.\<close>

definition put_axis :: "nat \<Rightarrow> axis \<Rightarrow> axes \<Rightarrow> axes" where
  "put_axis i a axes = (axes @ replicate (Suc i - length axes) None)[i := Some a]"

definition getOrCreateAxis :: "direction \<Rightarrow> axis_options \<Rightarrow> nat \<Rightarrow> axes \<Rightarrow> axes" where
  "getOrCreateAxis d opts number axes =
     (case axis_at axes (number - 1) of
        Some _ \<Rightarrow> axes
      | None \<Rightarrow> put_axis (number - 1) (new_axis number d opts) axes)"

text \<open>Every axis of an array is at the place of its number and has the array's direction.\<close>

definition axes_ok :: "direction \<Rightarrow> axes \<Rightarrow> bool" where
  "axes_ok d axes \<longleftrightarrow>
     (\<forall>i < length axes. case axes ! i of None \<Rightarrow> True | Some a \<Rightarrow> ax_n a = Suc i \<and> ax_direction a = d)"

lemma length_put_axis: "length (put_axis i a axes) = max (Suc i) (length axes)"
  by (simp add: put_axis_def)

lemma put_axis_same: "axis_at (put_axis i a axes) i = Some a"
  by (simp add: axis_at_def put_axis_def)

lemma put_axis_other: "i \<noteq> j \<Longrightarrow> axis_at (put_axis i a axes) j = axis_at axes j"
  by (auto simp: axis_at_def put_axis_def nth_append)

lemma axes_okI: "axes_ok d axes \<longleftrightarrow> (\<forall>i a. axis_at axes i = Some a \<longrightarrow> ax_n a = Suc i \<and> ax_direction a = d)"
  by (auto simp: axes_ok_def axis_at_def split: option.splits)

lemma getOrCreateAxis_at:
  "axis_at (getOrCreateAxis d opts n axes) (n - 1)
    = Some (case axis_at axes (n - 1) of Some a \<Rightarrow> a | None \<Rightarrow> new_axis n d opts)"
  by (auto simp: getOrCreateAxis_def put_axis_same split: option.splits)

lemma getOrCreateAxis_other:
  "i \<noteq> n - 1 \<Longrightarrow> axis_at (getOrCreateAxis d opts n axes) i = axis_at axes i"
  by (auto simp: getOrCreateAxis_def put_axis_other split: option.splits)

lemma getOrCreateAxis_ok:
  assumes "axes_ok d axes" "1 \<le> n"
  shows "axes_ok d (getOrCreateAxis d opts n axes)"
  unfolding axes_okI
proof (intro allI impI)
  fix i a
  assume "axis_at (getOrCreateAxis d opts n axes) i = Some a"
  then show "ax_n a = Suc i \<and> ax_direction a = d"
    using assms getOrCreateAxis_at [of d opts n axes] getOrCreateAxis_other [of i n d opts axes]
    by (cases "i = n - 1") (auto simp: axes_okI new_axis_def split: option.splits)
qed

section \<open>The range of an axis\<close>

definition setRange :: "axis \<Rightarrow> axis" where
  "setRange a =
     (let o' = ax_options a;
          mn = num0 (case opt_min o' of Some m \<Rightarrow> Some m | None \<Rightarrow> ax_datamin a);
          mx = num0 (case opt_max o' of Some m \<Rightarrow> Some m | None \<Rightarrow> ax_datamax a);
          delta = mx - mn
      in if delta = 0 then
           let widen = (if mx = 0 then 1 else 0.01)
           in a\<lparr>ax_min := (if opt_min o' = None then mn - widen else mn),
                ax_max := (if opt_max o' = None \<or> opt_min o' \<noteq> None then mx + widen else mx)\<rparr>
         else case opt_autoscaleMargin o' of
           None \<Rightarrow> a\<lparr>ax_min := mn, ax_max := mx\<rparr>
         | Some margin \<Rightarrow>
             let mn' = mn - delta * margin; mx' = mx + delta * margin
             in a\<lparr>ax_min :=
                    (if opt_min o' = None then
                       (if mn' < 0 \<and> (case ax_datamin a of Some d \<Rightarrow> d \<ge> 0 | None \<Rightarrow> False) then 0 else mn')
                     else mn),
                  ax_max :=
                    (if opt_max o' = None then
                       (if mx' > 0 \<and> (case ax_datamax a of Some d \<Rightarrow> d \<le> 0 | None \<Rightarrow> False) then 0 else mx')
                     else mx)\<rparr>)"

definition snapRangeToTicks :: "axis \<Rightarrow> (real \<times> markup) list \<Rightarrow> axis" where
  "snapRangeToTicks a ticks =
     (let o' = ax_options a
      in if opt_autoscaleMargin o' \<noteq> None \<and> opt_autoscaleMargin o' \<noteq> Some 0 \<and> ticks \<noteq> [] then
           let a1 = (if opt_min o' = None then a\<lparr>ax_min := min (ax_min a) (fst (hd ticks))\<rparr> else a)
           in (if opt_max o' = None \<and> length ticks > 1 then a1\<lparr>ax_max := max (ax_max a1) (fst (last ticks))\<rparr> else a1)
         else a)"

section \<open>Data and canvas coordinates\<close>

definition setTransformationHelpers :: "real \<Rightarrow> real \<Rightarrow> axis \<Rightarrow> axis" where
  "setTransformationHelpers plotWidth plotHeight a =
     (let t = (case opt_transform (ax_options a) of Some f \<Rightarrow> f | None \<Rightarrow> (\<lambda>x. x));
          sc = (case ax_direction a of X \<Rightarrow> plotWidth | Y \<Rightarrow> plotHeight) / \<bar>t (ax_max a) - t (ax_min a)\<bar>;
          s = (case ax_direction a of X \<Rightarrow> sc | Y \<Rightarrow> - sc);
          m = (case ax_direction a of X \<Rightarrow> min (t (ax_max a)) (t (ax_min a)) | Y \<Rightarrow> max (t (ax_max a)) (t (ax_min a)))
      in a\<lparr>ax_scale := sc,
           ax_p2c := (\<lambda>p. (t p - m) * s),
           ax_c2p := (case opt_inverseTransform (ax_options a) of
                        None \<Rightarrow> (\<lambda>c. m + c / s)
                      | Some it \<Rightarrow> (\<lambda>c. it (m + c / s)))\<rparr>)"

text \<open>Objects that collect coordinates by axis name: a list of pairs in the order of insertion.\<close>

definition dir_char :: "direction \<Rightarrow> char" where
  "dir_char d = (case d of X \<Rightarrow> CHR ''x'' | Y \<Rightarrow> CHR ''y'')"

definition coord_key :: "axis \<Rightarrow> string" where
  "coord_key a = dir_char (ax_direction a) # nat_str (ax_n a)"

definition used_axes :: "axes \<Rightarrow> axis list" where
  "used_axes axes = filter ax_used (map the (filter (\<lambda>a. a \<noteq> None) axes))"

definition alias_key :: "string \<Rightarrow> string \<Rightarrow> (string \<times> real) list \<Rightarrow> (string \<times> real) list" where
  "alias_key from_k to_k res = (case map_of res from_k of None \<Rightarrow> res | Some v \<Rightarrow> set_key to_k v res)"

definition canvasToAxisCoords :: "axes \<Rightarrow> axes \<Rightarrow> real \<Rightarrow> real \<Rightarrow> (string \<times> real) list" where
  "canvasToAxisCoords xs ys lpos tpos =
     (let r1 = foldl (\<lambda>r a. set_key (coord_key a) (ax_c2p a lpos) r) [] (used_axes xs);
          r2 = foldl (\<lambda>r a. set_key (coord_key a) (ax_c2p a tpos) r) r1 (used_axes ys)
      in alias_key ''y1'' ''y'' (alias_key ''x1'' ''x'' r2))"

text \<open>The first used axis for which the position names a coordinate.\<close>

fun find_coord :: "axis list \<Rightarrow> (string \<Rightarrow> real option) \<Rightarrow> real option" where
  "find_coord [] pos = None"
| "find_coord (a # as) pos =
     (let k = (if pos (coord_key a) = None \<and> ax_n a = 1 then [dir_char (ax_direction a)] else coord_key a)
      in case pos k of Some v \<Rightarrow> Some (ax_p2c a v) | None \<Rightarrow> find_coord as pos)"

definition axisToCanvasCoords :: "axes \<Rightarrow> axes \<Rightarrow> (string \<Rightarrow> real option) \<Rightarrow> real option \<times> real option" where
  "axisToCanvasCoords xs ys pos = (find_coord (used_axes xs) pos, find_coord (used_axes ys) pos)"

text \<open>The named axes \<open>plot.getAxes()\<close> returns: \<open>xaxis\<close>, \<open>x2axis\<close>, \<dots>\<close>

definition axis_name :: "axis \<Rightarrow> string" where
  "axis_name a = dir_char (ax_direction a) # (if ax_n a \<noteq> 1 then nat_str (ax_n a) else []) @ ''axis''"

definition getAxes :: "axes \<Rightarrow> axes \<Rightarrow> (string \<times> axis) list" where
  "getAxes xs ys = foldl (\<lambda>r a. set_key (axis_name a) a r) [] (allAxes xs ys)"

section \<open>The range covers the data\<close>

lemma setRange_frame [simp]:
  "ax_options (setRange a) = ax_options a" "ax_datamin (setRange a) = ax_datamin a"
  "ax_datamax (setRange a) = ax_datamax a" "ax_direction (setRange a) = ax_direction a"
  "ax_n (setRange a) = ax_n a" "ax_used (setRange a) = ax_used a"
  by (auto simp: setRange_def Let_def split: option.splits)

text \<open>The data range of an axis: absent, or a pair of bounds in order.\<close>

definition data_range_ok :: "axis \<Rightarrow> bool" where
  "data_range_ok a \<longleftrightarrow>
     (case (ax_datamin a, ax_datamax a) of
        (None, None) \<Rightarrow> True | (Some lo, Some hi) \<Rightarrow> lo \<le> hi | _ \<Rightarrow> False)"

text \<open>
  C26. With automatic bounds and no negative margin the range of an axis is a proper interval, and
  it contains all the data, whether there is none, a single value or several.
\<close>

theorem setRange_covers_data:
  assumes "data_range_ok a" "opt_min (ax_options a) = None" "opt_max (ax_options a) = None"
    and "\<forall>m. opt_autoscaleMargin (ax_options a) = Some m \<longrightarrow> 0 \<le> m"
  shows "ax_min (setRange a) < ax_max (setRange a)
    \<and> (\<forall>lo. ax_datamin a = Some lo \<longrightarrow> ax_min (setRange a) \<le> lo)
    \<and> (\<forall>hi. ax_datamax a = Some hi \<longrightarrow> hi \<le> ax_max (setRange a))"
proof (cases "ax_datamin a")
  case None
  then have "ax_datamax a = None" using assms(1) by (auto simp: data_range_ok_def split: option.splits)
  then show ?thesis using None assms(2,3) by (simp add: setRange_def)
next
  case (Some lo)
  then obtain hi where hi: "ax_datamax a = Some hi" "lo \<le> hi"
    using assms(1) by (auto simp: data_range_ok_def split: option.splits)
  show ?thesis
  proof (cases "opt_autoscaleMargin (ax_options a)")
    case None
    then show ?thesis using Some hi assms(2,3) by (auto simp: setRange_def Let_def)
  next
    case (Some m)
    define e where "e = (hi - lo) * m"
    have "0 \<le> e" using Some assms(4) hi(2) by (simp add: e_def)
    then show ?thesis using Some \<open>ax_datamin a = Some lo\<close> hi assms(2,3)
      by (auto simp: setRange_def Let_def e_def [symmetric])
  qed
qed

definition demo_options :: axis_options where
  "demo_options =
     \<lparr>opt_show = None, opt_position = ''bottom'', opt_time = False, opt_color = ''#545454'', opt_tickColor = None,
      opt_transform = None, opt_inverseTransform = None, opt_min = None, opt_max = None,
      opt_autoscaleMargin = None, opt_ticks = AutoTicks, opt_tickFormatter = None, opt_labelWidth = None,
      opt_labelHeight = None, opt_reserveSpace = False, opt_tickLength = None, opt_alignTicksWithAxis = None,
      opt_tickDecimals = None, opt_tickSize = None, opt_minTickSize = None, opt_monthNames = None, opt_timeformat = None,
      opt_twelveHourClock = False, opt_zoomRange = NoRange,
      opt_panRange = NoRange\<rparr>"

theorem setRange_covers_data_witness:
  "let a = (new_axis 1 Y (demo_options\<lparr>opt_autoscaleMargin := Some (1 / 50)\<rparr>))
             \<lparr>ax_datamin := Some 3, ax_datamax := Some 8\<rparr>
   in ax_min (setRange a) < ax_max (setRange a)"
  using setRange_covers_data [of "(new_axis 1 Y (demo_options\<lparr>opt_autoscaleMargin := Some (1 / 50)\<rparr>))
             \<lparr>ax_datamin := Some 3, ax_datamax := Some 8\<rparr>"]
  by (simp add: data_range_ok_def new_axis_def demo_options_def)

section \<open>The coordinate maps\<close>

text \<open>An axis whose maps are a stretched and shifted transformation with an inverse.\<close>

definition mapped_axis :: "axis \<Rightarrow> bool" where
  "mapped_axis a \<longleftrightarrow>
     (\<exists>t it m s. s \<noteq> 0 \<and> (\<forall>x. it (t x) = x) \<and> (\<forall>x. t (it x) = x) \<and>
        ax_p2c a = (\<lambda>p. (t p - m) * s) \<and> ax_c2p a = (\<lambda>c. it (m + c / s)))"

text \<open>The same without a transformation.\<close>

definition linear_axis :: "axis \<Rightarrow> bool" where
  "linear_axis a \<longleftrightarrow> (\<exists>m s. s \<noteq> 0 \<and> ax_p2c a = (\<lambda>p. (p - m) * s) \<and> ax_c2p a = (\<lambda>c. m + c / s))"

interpretation mapped: coordinate_map mapped_axis ax_p2c ax_c2p
  by unfold_locales (auto simp: mapped_axis_def)

interpretation linear: affine_map linear_axis ax_p2c ax_c2p
  by unfold_locales (auto simp: linear_axis_def field_simps)

text \<open>A plot area and a range that are not empty; a transformation comes with its inverse.\<close>

definition scalable :: "real \<Rightarrow> real \<Rightarrow> axis \<Rightarrow> bool" where
  "scalable w h a \<longleftrightarrow> 0 < w \<and> 0 < h \<and>
     (case (opt_transform (ax_options a), opt_inverseTransform (ax_options a)) of
        (None, None) \<Rightarrow> ax_min a \<noteq> ax_max a
      | (Some t, Some it) \<Rightarrow> t (ax_min a) \<noteq> t (ax_max a) \<and> (\<forall>x. it (t x) = x) \<and> (\<forall>x. t (it x) = x)
      | _ \<Rightarrow> False)"

lemma setTransformationHelpers_frame [simp]:
  "ax_options (setTransformationHelpers w h a) = ax_options a" "ax_n (setTransformationHelpers w h a) = ax_n a"
  "ax_direction (setTransformationHelpers w h a) = ax_direction a"
  "ax_used (setTransformationHelpers w h a) = ax_used a"
  "ax_min (setTransformationHelpers w h a) = ax_min a" "ax_max (setTransformationHelpers w h a) = ax_max a"
  by (simp_all add: setTransformationHelpers_def Let_def)

text \<open>The offset and the signed factor the maps are made of.\<close>

definition map_fun :: "(real \<Rightarrow> real) option \<Rightarrow> real \<Rightarrow> real" where
  "map_fun f = (case f of Some g \<Rightarrow> g | None \<Rightarrow> (\<lambda>x. x))"

definition map_offset :: "axis \<Rightarrow> real" where
  "map_offset a = (let t = map_fun (opt_transform (ax_options a)) in
     case ax_direction a of X \<Rightarrow> min (t (ax_max a)) (t (ax_min a)) | Y \<Rightarrow> max (t (ax_max a)) (t (ax_min a)))"

definition map_factor :: "real \<Rightarrow> real \<Rightarrow> axis \<Rightarrow> real" where
  "map_factor w h a = (let t = map_fun (opt_transform (ax_options a)); d = \<bar>t (ax_max a) - t (ax_min a)\<bar> in
     case ax_direction a of X \<Rightarrow> w / d | Y \<Rightarrow> - (h / d))"

lemma setTransformationHelpers_maps:
  "ax_p2c (setTransformationHelpers w h a)
    = (\<lambda>p. (map_fun (opt_transform (ax_options a)) p - map_offset a) * map_factor w h a)"
  "ax_c2p (setTransformationHelpers w h a)
    = (\<lambda>c. map_fun (opt_inverseTransform (ax_options a)) (map_offset a + c / map_factor w h a))"
  by (simp_all add: setTransformationHelpers_def Let_def map_offset_def map_factor_def map_fun_def
      split: direction.splits option.splits)

lemma map_factor_nonzero: "scalable w h a \<Longrightarrow> map_factor w h a \<noteq> 0"
  by (auto simp: scalable_def map_factor_def Let_def map_fun_def split: option.splits direction.splits)

lemma setTransformationHelpers_mapped:
  assumes "scalable w h a"
  shows "mapped_axis (setTransformationHelpers w h a)"
proof -
  let ?t = "map_fun (opt_transform (ax_options a))"
  let ?it = "map_fun (opt_inverseTransform (ax_options a))"
  have "\<forall>x. ?it (?t x) = x" "\<forall>x. ?t (?it x) = x"
    using assms by (auto simp: scalable_def map_fun_def split: option.splits)
  then show ?thesis
    unfolding mapped_axis_def setTransformationHelpers_maps
    using map_factor_nonzero [OF assms] by blast
qed

lemma setTransformationHelpers_linear:
  assumes "scalable w h a" "opt_transform (ax_options a) = None"
  shows "linear_axis (setTransformationHelpers w h a)"
proof -
  have "opt_inverseTransform (ax_options a) = None"
    using assms by (auto simp: scalable_def split: option.splits)
  then show ?thesis
    unfolding linear_axis_def setTransformationHelpers_maps
    using map_factor_nonzero [OF assms(1)] assms(2) by (auto simp: map_fun_def)
qed

text \<open>Where a position in a range lands when the range is stretched over an area.\<close>

lemma stretched_bounds:
  fixes u d w :: real
  assumes "0 < d" "0 \<le> u" "u \<le> d" "0 < w"
  shows "0 \<le> u * (w / d)" "u * (w / d) \<le> w"
proof -
  have q: "0 \<le> w / d" using assms by simp
  then show "0 \<le> u * (w / d)" using assms(2) by (rule mult_nonneg_nonneg [rotated])
  have "u * (w / d) \<le> d * (w / d)" using q assms(3) by (rule mult_right_mono [rotated])
  then show "u * (w / d) \<le> w" using assms(1) by simp
qed

lemma linear_p2c_bounds:
  assumes "scalable w h a" "opt_transform (ax_options a) = None" "ax_min a \<le> x" "x \<le> ax_max a"
  shows "0 \<le> ax_p2c (setTransformationHelpers w h a) x
    \<and> ax_p2c (setTransformationHelpers w h a) x \<le> (case ax_direction a of X \<Rightarrow> w | Y \<Rightarrow> h)"
proof -
  have r: "ax_min a < ax_max a" "0 < w" "0 < h"
    using assms by (auto simp: scalable_def split: option.splits)
  let ?d = "ax_max a - ax_min a"
  have flip: "(x - ax_max a) * - (h / ?d) = (ax_max a - x) * (h / ?d)"
    by (metis minus_diff_eq minus_mult_commute)
  show ?thesis
  proof (cases "ax_direction a")
    case X
    then have "ax_p2c (setTransformationHelpers w h a) x = (x - ax_min a) * (w / ?d)"
      using r assms(2) by (simp add: setTransformationHelpers_maps map_offset_def map_factor_def map_fun_def Let_def)
    then show ?thesis using X r assms(3,4) stretched_bounds [of ?d "x - ax_min a" w] by simp
  next
    case Y
    then have "ax_p2c (setTransformationHelpers w h a) x = (x - ax_max a) * - (h / ?d)"
      using r assms(2) by (simp add: setTransformationHelpers_maps map_offset_def map_factor_def map_fun_def Let_def)
    then show ?thesis unfolding flip using Y r assms(3,4) stretched_bounds [of ?d "ax_max a - x" h] by simp
  qed
qed

text \<open>
  C25. On an axis that can be scaled, the two coordinate maps undo each other in both directions,
  also under a user-supplied transformation that comes with its inverse; and without one they take
  the ends of the range to the ends of the plot area, so that what lies in the range is drawn
  inside it.
\<close>

theorem coordinate_maps_inverse:
  assumes "scalable w h a" "b = setTransformationHelpers w h a"
  shows "ax_c2p b (ax_p2c b x) = x \<and> ax_p2c b (ax_c2p b c) = c
    \<and> (opt_transform (ax_options a) = None \<and> ax_min a \<le> x \<and> x \<le> ax_max a \<longrightarrow>
         0 \<le> ax_p2c b x \<and> ax_p2c b x \<le> (case ax_direction a of X \<Rightarrow> w | Y \<Rightarrow> h))"
proof (intro conjI impI)
  have "mapped_axis b" using assms by (simp add: setTransformationHelpers_mapped)
  then show "ax_c2p b (ax_p2c b x) = x" and "ax_p2c b (ax_c2p b c) = c"
    by (simp_all add: mapped.from_to mapped.to_from)
  assume r: "opt_transform (ax_options a) = None \<and> ax_min a \<le> x \<and> x \<le> ax_max a"
  then show "0 \<le> ax_p2c b x" "ax_p2c b x \<le> (case ax_direction a of X \<Rightarrow> w | Y \<Rightarrow> h)"
    using linear_p2c_bounds [OF assms(1), of x] unfolding assms(2) by blast+
qed

theorem coordinate_maps_inverse_witness:
  "let b = setTransformationHelpers 400 300 ((new_axis 1 Y demo_options)\<lparr>ax_min := 2, ax_max := 12\<rparr>)
   in ax_c2p b (ax_p2c b 7) = 7"
  using coordinate_maps_inverse [of 400 300 "(new_axis 1 Y demo_options)\<lparr>ax_min := 2, ax_max := 12\<rparr>", OF _ refl]
  by (simp add: scalable_def new_axis_def demo_options_def)

section \<open>Positions of the mouse\<close>

lemma map_of_set_keys_notin:
  "k \<notin> f ` set as \<Longrightarrow> map_of (foldl (\<lambda>r a. set_key (f a) (g a) r) r as) k = map_of r k"
  by (induction as arbitrary: r) (auto simp: map_of_set_key)

lemma map_of_set_keys_in:
  assumes "distinct (map f as)" "a \<in> set as"
  shows "map_of (foldl (\<lambda>r a. set_key (f a) (g a) r) r as) (f a) = Some (g a)"
  using assms
proof (induction as arbitrary: r)
  case (Cons b as)
  show ?case
  proof (cases "a = b")
    case True
    then have "f a \<notin> f ` set as" using Cons.prems by auto
    then show ?thesis by (simp add: True map_of_set_keys_notin map_of_set_key)
  next
    case False
    then show ?thesis using Cons by simp
  qed
qed simp

lemma used_axes_numbers:
  assumes "axes_ok d axes"
  shows "distinct (map ax_n (used_axes axes))" "\<forall>a \<in> set (used_axes axes). ax_direction a = d \<and> ax_used a"
proof -
  have "filter (\<lambda>a. a \<noteq> None) axes = map (nth axes) (filter (\<lambda>i. axes ! i \<noteq> None) [0..<length axes])"
    by (metis (no_types, lifting) filter_map comp_apply filter_cong map_nth)
  then have "map ax_n (map the (filter (\<lambda>a. a \<noteq> None) axes))
      = map Suc (filter (\<lambda>i. axes ! i \<noteq> None) [0..<length axes])"
    using assms by (auto simp: axes_ok_def)
  then have "distinct (map ax_n (map the (filter (\<lambda>a. a \<noteq> None) axes)))"
    by (simp only: distinct_map) simp
  then show "distinct (map ax_n (used_axes axes))"
    unfolding used_axes_def by (rule distinct_map_filter)
  show "\<forall>a \<in> set (used_axes axes). ax_direction a = d \<and> ax_used a"
    using assms by (auto simp: used_axes_def axes_ok_def in_set_conv_nth split: option.splits)
qed

lemma coord_keys_distinct:
  assumes "axes_ok d axes"
  shows "distinct (map coord_key (used_axes axes))"
  using used_axes_numbers [OF assms]
  by (auto simp: distinct_map inj_on_def coord_key_def)

lemma coord_key_other_direction:
  "axes_ok X xs \<Longrightarrow> axes_ok Y ys \<Longrightarrow> a \<in> set (used_axes xs) \<Longrightarrow> b \<in> set (used_axes ys) \<Longrightarrow> coord_key a \<noteq> coord_key b"
  using used_axes_numbers(2) [of X xs] used_axes_numbers(2) [of Y ys]
  by (auto simp: coord_key_def dir_char_def)

lemma coord_key_not_alias: "coord_key a \<noteq> ''x''" "coord_key a \<noteq> ''y''"
  by (auto simp: coord_key_def)

lemma map_of_alias: "k \<noteq> to_k \<Longrightarrow> map_of (alias_key from_k to_k r) k = map_of r k"
  by (auto simp: alias_key_def map_of_set_key split: option.splits)

lemma canvasToAxisCoords_at:
  assumes "axes_ok X xs" "axes_ok Y ys"
  shows "a \<in> set (used_axes xs) \<Longrightarrow> map_of (canvasToAxisCoords xs ys l t) (coord_key a) = Some (ax_c2p a l)"
    and "b \<in> set (used_axes ys) \<Longrightarrow> map_of (canvasToAxisCoords xs ys l t) (coord_key b) = Some (ax_c2p b t)"
proof -
  assume a: "a \<in> set (used_axes xs)"
  then have "coord_key a \<notin> coord_key ` set (used_axes ys)"
    using coord_key_other_direction [OF assms] by auto
  then show "map_of (canvasToAxisCoords xs ys l t) (coord_key a) = Some (ax_c2p a l)"
    using a map_of_set_keys_in [OF coord_keys_distinct [OF assms(1)], where g = "\<lambda>a. ax_c2p a l"]
    by (simp add: canvasToAxisCoords_def Let_def map_of_alias coord_key_not_alias map_of_set_keys_notin)
next
  assume "b \<in> set (used_axes ys)"
  then show "map_of (canvasToAxisCoords xs ys l t) (coord_key b) = Some (ax_c2p b t)"
    using map_of_set_keys_in [OF coord_keys_distinct [OF assms(2)], where g = "\<lambda>a. ax_c2p a t"]
    by (simp add: canvasToAxisCoords_def Let_def map_of_alias coord_key_not_alias)
qed

lemma find_coord_first:
  assumes "as \<noteq> []" "pos (coord_key (hd as)) = Some v"
  shows "find_coord as pos = Some (ax_p2c (hd as) v)"
  using assms by (cases as) (auto simp: Let_def)

text \<open>
  C27. A canvas position turned into the coordinates of all used axes and back is the same position,
  as soon as one axis of each direction is used; with several axes in a direction the first used
  one decides, and its coordinate is among those reported.
\<close>

theorem mouse_position_round_trip:
  assumes "axes_ok X xs" "axes_ok Y ys" "used_axes xs \<noteq> []" "used_axes ys \<noteq> []"
    and "\<forall>a \<in> set (used_axes xs) \<union> set (used_axes ys). mapped_axis a"
  shows "axisToCanvasCoords xs ys (map_of (canvasToAxisCoords xs ys l t)) = (Some l, Some t)"
proof -
  have x: "hd (used_axes xs) \<in> set (used_axes xs)" and y: "hd (used_axes ys) \<in> set (used_axes ys)"
    using assms(3,4) by simp_all
  show ?thesis
    using canvasToAxisCoords_at(1) [OF assms(1,2) x] canvasToAxisCoords_at(2) [OF assms(1,2) y] assms(3-5) x y
    by (simp add: axisToCanvasCoords_def find_coord_first mapped.to_from)
qed

definition demo_axis :: "direction \<Rightarrow> axis" where
  "demo_axis d =
     setTransformationHelpers 400 300 ((new_axis 1 d demo_options)\<lparr>ax_min := 2, ax_max := 12, ax_used := True\<rparr>)"

lemma demo_axis_facts:
  "ax_n (demo_axis d) = 1" "ax_direction (demo_axis d) = d" "ax_used (demo_axis d)" "mapped_axis (demo_axis d)"
  "linear_axis (demo_axis d)" "ax_min (demo_axis d) = 2" "ax_max (demo_axis d) = 12"
  unfolding demo_axis_def
  by (auto intro!: setTransformationHelpers_mapped setTransformationHelpers_linear
      simp: scalable_def new_axis_def demo_options_def)

lemma mapped_axis_renumber: "mapped_axis (a\<lparr>ax_n := k\<rparr>) = mapped_axis a"
  by (simp add: mapped_axis_def)

theorem mouse_position_round_trip_witness:
  "axisToCanvasCoords [Some (demo_axis X)] [None, Some ((demo_axis Y)\<lparr>ax_n := 2\<rparr>)]
     (map_of (canvasToAxisCoords [Some (demo_axis X)] [None, Some ((demo_axis Y)\<lparr>ax_n := 2\<rparr>)] 30 40)) = (Some 30, Some 40)"
  by (intro mouse_position_round_trip)
    (auto simp: axes_ok_def used_axes_def demo_axis_facts mapped_axis_renumber less_Suc_eq numeral_2_eq_2)

end
