(* ===== verification/Plot_Series.thy ===== *)
theory Plot_Series
  imports Color Axis
begin

text \<open>
  The data series of a plot, \<open>static/flot/jquery.flot.js\<close>: the record of a series with its options
  for lines, bars and points, and \<open>fillInSeriesOptions\<close>, which gives every series a colour, a way
  to be shown and its axes.
\<close>

section \<open>Series\<close>

text \<open>One entry of a data format: which axes the column belongs to, whether a point needs it.\<close>

record column =
  col_x :: bool
  col_y :: bool
  col_required :: bool
  col_default :: "real option"

text \<open>
  A raw value of the user's data: \<open>null\<close> or \<open>undefined\<close>, a number, text, a truth value, or any
  other object with the number it converts to (a date its milliseconds, most others NaN).
\<close>

datatype raw = RNull | RNum jsnum | RStr string | RBool bool | RObject jsnum

text \<open>The \<open>fill\<close> options: off, on, or an opacity; and the fill colour: none, text, or a gradient.\<close>

datatype fill_option = NoFill | FillOn | FillOpacity real

record gradient_stop =
  brightness :: "real option"
  opacity :: "real option"

datatype color_stop = StopText markup | StopSpec gradient_stop

datatype fill_color = DefaultFill | FillText markup | FillGradient "color_stop list"

datatype color_spec = NoColor | ColorIndex nat | ColorText markup

datatype symbol = Circle | SymbolName string | SymbolFun "real \<Rightarrow> real \<Rightarrow> real \<Rightarrow> bool \<Rightarrow> drawing"

record line_options =
  ln_show :: "bool option"
  ln_width :: real
  ln_fill :: fill_option
  ln_fillColor :: fill_color
  ln_steps :: bool

record bar_options =
  br_show :: bool
  br_width :: real
  br_barWidth :: real
  br_fill :: fill_option
  br_fillColor :: fill_color
  br_left :: bool
  br_horizontal :: bool

record point_options =
  pt_show :: bool
  pt_radius :: real
  pt_width :: real
  pt_fill :: fill_option
  pt_fillColor :: fill_color
  pt_symbol :: symbol

text \<open>
  A series. \<open>sr_plugin_show\<close> says whether any other property of the series object (an option group of
  a plugin, an axis object of an earlier plot) has its \<open>show\<close> set. \<open>sr_ref\<close> is the identity the
  code compares with \<open>==\<close> on series objects. \<open>sr_userid\<close>, \<open>sr_stack\<close>, \<open>sr_fillBetween\<close> and
  \<open>sr_threshold\<close> are the options the data plugins read. The \<open>dp_\<close> fields are the
  \<open>datapoints\<close> object.
\<close>

record series =
  sr_ref :: nat
  sr_userid :: raw
  sr_label :: "markup option"
  sr_color :: color_spec
  sr_data :: "raw list option list"
  sr_xaxis :: axis_ref
  sr_yaxis :: axis_ref
  sr_lines :: line_options
  sr_bars :: bar_options
  sr_points :: point_options
  sr_shadowSize :: real
  sr_plugin_show :: bool
  sr_hoverable :: bool
  sr_clickable :: bool
  sr_stack :: raw
  sr_fillBetween :: raw
  sr_threshold :: "(real \<times> markup option) option"
  dp_points :: "cell list"
  dp_pointsize :: "nat option"
  dp_format :: "column list option"

definition shows_lines :: "series \<Rightarrow> bool" where
  "shows_lines s \<longleftrightarrow> ln_show (sr_lines s) = Some True"

section \<open>Colours\<close>

text \<open>How many colours have to be produced.\<close>

fun neededColors :: "series list \<Rightarrow> nat" where
  "neededColors [] = 0"
| "neededColors (s # ss) = (if sr_color s = NoColor then 1 else 0) + neededColors ss"

fun assignedColors :: "series list \<Rightarrow> nat list" where
  "assignedColors [] = []"
| "assignedColors (s # ss) =
     (case sr_color s of ColorIndex k \<Rightarrow> k # assignedColors ss | _ \<Rightarrow> assignedColors ss)"

definition totalColors :: "series list \<Rightarrow> nat" where
  "totalColors ss = fold (\<lambda>k n. max n (k + 1)) (assignedColors ss) (neededColors ss)"

definition variant_factor :: "nat \<Rightarrow> real" where
  "variant_factor variation =
     1 + (if variation mod 2 = 1 then - 1 else 1) * of_int \<lceil>real variation / 2\<rceil> * 0.2"

text \<open>The loop that produces colours: position in the palette, variation, colours still to make.\<close>

fun produce :: "string list \<Rightarrow> nat \<Rightarrow> nat \<Rightarrow> nat \<Rightarrow> color list" where
  "produce palette i variation 0 = []"
| "produce palette i variation (Suc n) =
     (let c = (if length palette = i then Color.make 100 100 100 None else parse (palette ! i));
          c' = scale ''rgb'' (variant_factor variation) c
      in c' # (if Suc i \<ge> length palette then produce palette 0 (Suc variation) n
               else produce palette (Suc i) variation n))"

text \<open>Turning lines on for a series that shows nothing.\<close>

definition default_lines :: "series \<Rightarrow> series" where
  "default_lines s =
     (if ln_show (sr_lines s) = None \<and> \<not> (br_show (sr_bars s) \<or> pt_show (sr_points s) \<or> sr_plugin_show s)
      then s\<lparr>sr_lines := (sr_lines s)\<lparr>ln_show := Some True\<rparr>\<rparr> else s)"

text \<open>
  The loop that fills the options in: the counter of palette colours handed out and the two axis
  arrays go through it. \<open>None\<close> is the error of reading a colour that was not produced.
\<close>

fun fill_in ::
  "axis_options \<Rightarrow> axis_options \<Rightarrow> color list \<Rightarrow> series list \<Rightarrow> nat \<Rightarrow> axes \<Rightarrow> axes
    \<Rightarrow> (series list \<times> axes \<times> axes) option" where
  "fill_in xo yo colors [] colori xs ys = Some ([], xs, ys)"
| "fill_in xo yo colors (s # ss) colori xs ys =
     (case (case sr_color s of
              NoColor \<Rightarrow> if colori < length colors then Some (ColorText (toString (colors ! colori)), Suc colori) else None
            | ColorIndex k \<Rightarrow> if k < length colors then Some (ColorText (toString (colors ! k)), colori) else None
            | ColorText t \<Rightarrow> Some (ColorText t, colori)) of
        None \<Rightarrow> None
      | Some (c, colori') \<Rightarrow>
          let s1 = default_lines (s\<lparr>sr_color := c\<rparr>);
              nx = axisNumber (sr_xaxis s); ny = axisNumber (sr_yaxis s);
              s2 = s1\<lparr>sr_xaxis := AxisObject nx, sr_yaxis := AxisObject ny\<rparr>
          in map_option (\<lambda>(ss', xs', ys'). (s2 # ss', xs', ys'))
               (fill_in xo yo colors ss colori' (getOrCreateAxis X xo nx xs) (getOrCreateAxis Y yo ny ys)))"

definition fillInSeriesOptions ::
  "string list \<Rightarrow> axis_options \<Rightarrow> axis_options \<Rightarrow> series list \<Rightarrow> axes \<Rightarrow> axes
    \<Rightarrow> (series list \<times> axes \<times> axes) option" where
  "fillInSeriesOptions palette xo yo ss xs ys =
     fill_in xo yo (produce palette 0 0 (totalColors ss)) ss 0 xs ys"

section \<open>Every series gets a colour and its axes\<close>

lemma length_produce [simp]: "length (produce p i v n) = n"
  by (induction p i v n rule: produce.induct) (auto simp: Let_def)

lemma fold_max_ge: "(n :: nat) \<le> fold (\<lambda>k n. max n (k + 1)) ks n"
proof (induction ks arbitrary: n)
  case (Cons k ks)
  have "n \<le> max n (k + 1)" by simp
  also have "\<dots> \<le> fold (\<lambda>k n. max n (k + 1)) ks (max n (k + 1))" by (rule Cons.IH)
  finally show ?case by simp
qed simp

lemma fold_max_mem: "k \<in> set ks \<Longrightarrow> k < fold (\<lambda>k n. max n (k + 1)) ks (n :: nat)"
proof (induction ks arbitrary: n)
  case (Cons j ks)
  then show ?case
    using fold_max_ge [of "max n (k + 1)" ks] by (auto simp: max_def split: if_splits)
qed simp

lemma assignedColors_set: "sr_color s = ColorIndex k \<Longrightarrow> s \<in> set ss \<Longrightarrow> k \<in> set (assignedColors ss)"
  by (induction ss) (auto split: color_spec.splits)

text \<open>A series whose options are filled in, with both of its axes present.\<close>

definition filled :: "axes \<Rightarrow> axes \<Rightarrow> series \<Rightarrow> bool" where
  "filled xs ys s \<longleftrightarrow>
     (\<exists>t. sr_color s = ColorText t) \<and>
     (ln_show (sr_lines s) = None \<longrightarrow> br_show (sr_bars s) \<or> pt_show (sr_points s) \<or> sr_plugin_show s) \<and>
     axis_at xs (axisNumber (sr_xaxis s) - 1) \<noteq> None \<and> axis_at ys (axisNumber (sr_yaxis s) - 1) \<noteq> None"

lemma getOrCreateAxis_keeps:
  "axis_at axes i \<noteq> None \<Longrightarrow> axis_at (getOrCreateAxis d opts n axes) i \<noteq> None"
  by (cases "i = n - 1") (simp_all add: getOrCreateAxis_at getOrCreateAxis_other del: One_nat_def)

lemma fill_in_keeps:
  assumes "fill_in xo yo colors ss k xs ys = Some (ss', xs', ys')"
  shows "(axis_at xs i \<noteq> None \<longrightarrow> axis_at xs' i \<noteq> None) \<and> (axis_at ys i \<noteq> None \<longrightarrow> axis_at ys' i \<noteq> None)"
  using assms
proof (induction ss arbitrary: k xs ys ss')
  case (Cons s ss)
  from Cons.prems obtain k' ss1 where
    "fill_in xo yo colors ss k' (getOrCreateAxis X xo (axisNumber (sr_xaxis s)) xs)
       (getOrCreateAxis Y yo (axisNumber (sr_yaxis s)) ys) = Some (ss1, xs', ys')"
    by (auto simp: Let_def split: option.splits)
  from Cons.IH [OF this] show ?case using getOrCreateAxis_keeps by blast
qed simp

lemma fill_in_filled:
  assumes "neededColors ss + k \<le> length colors" "\<forall>j \<in> set (assignedColors ss). j < length colors"
  shows "\<exists>ss' xs' ys'. fill_in xo yo colors ss k xs ys = Some (ss', xs', ys') \<and> length ss' = length ss
    \<and> list_all (filled xs' ys') ss'"
  using assms
proof (induction ss arbitrary: k xs ys)
  case (Cons s ss)
  let ?xs = "getOrCreateAxis X xo (axisNumber (sr_xaxis s)) xs"
  let ?ys = "getOrCreateAxis Y yo (axisNumber (sr_yaxis s)) ys"
  obtain c k' where c: "(case sr_color s of
        NoColor \<Rightarrow> if k < length colors then Some (ColorText (toString (colors ! k)), Suc k) else None
      | ColorIndex j \<Rightarrow> if j < length colors then Some (ColorText (toString (colors ! j)), k) else None
      | ColorText t \<Rightarrow> Some (ColorText t, k)) = Some (ColorText c, k')"
    and k': "neededColors ss + k' \<le> length colors"
    using Cons.prems by (cases "sr_color s") auto
  have "\<forall>j \<in> set (assignedColors ss). j < length colors"
    using Cons.prems(2) by (auto split: color_spec.splits)
  then obtain ss1 xs1 ys1 where IH: "fill_in xo yo colors ss k' ?xs ?ys = Some (ss1, xs1, ys1)"
    "length ss1 = length ss" "list_all (filled xs1 ys1) ss1"
    using Cons.IH [OF k'] by blast
  have "axis_at xs1 (axisNumber (sr_xaxis s) - 1) \<noteq> None" "axis_at ys1 (axisNumber (sr_yaxis s) - 1) \<noteq> None"
    using fill_in_keeps [OF IH(1)] getOrCreateAxis_at by (metis option.distinct(1))+
  then have "filled xs1 ys1 ((default_lines (s\<lparr>sr_color := ColorText c\<rparr>))
      \<lparr>sr_xaxis := AxisObject (axisNumber (sr_xaxis s)), sr_yaxis := AxisObject (axisNumber (sr_yaxis s))\<rparr>)"
    by (auto simp: filled_def default_lines_def axisNumber_def)
  then show ?case using IH c by (simp add: Let_def)
qed (simp add: filled_def)

lemma fill_in_axes_ok:
  assumes "fill_in xo yo colors ss k xs ys = Some (ss', xs', ys')" "axes_ok X xs" "axes_ok Y ys"
    and "\<forall>s \<in> set ss. 1 \<le> axisNumber (sr_xaxis s) \<and> 1 \<le> axisNumber (sr_yaxis s)"
  shows "axes_ok X xs' \<and> axes_ok Y ys'"
  using assms
proof (induction ss arbitrary: k xs ys ss')
  case (Cons s ss)
  from Cons.prems(1) obtain k' ss1 where
    "fill_in xo yo colors ss k' (getOrCreateAxis X xo (axisNumber (sr_xaxis s)) xs)
       (getOrCreateAxis Y yo (axisNumber (sr_yaxis s)) ys) = Some (ss1, xs', ys')"
    by (auto simp: Let_def split: option.splits)
  from Cons.IH [OF this] Cons.prems(2-4) show ?case by (simp add: getOrCreateAxis_ok)
qed simp

text \<open>
  Filling in never reads a colour that was not produced, whatever mix of automatic, numbered and
  explicit colours the series have and however short the palette is: it succeeds, every series
  ends with a colour and something to show, and its two axes exist in well-formed axis arrays.
\<close>

lemma fillInSeriesOptions_total:
  assumes "axes_ok X xs" "axes_ok Y ys"
    and "\<forall>s \<in> set ss. 1 \<le> axisNumber (sr_xaxis s) \<and> 1 \<le> axisNumber (sr_yaxis s)"
  shows "\<exists>ss' xs' ys'. fillInSeriesOptions palette xo yo ss xs ys = Some (ss', xs', ys')
    \<and> length ss' = length ss \<and> list_all (filled xs' ys') ss' \<and> axes_ok X xs' \<and> axes_ok Y ys'"
proof -
  let ?cs = "produce palette 0 0 (totalColors ss)"
  have "neededColors ss + 0 \<le> length ?cs"
    using fold_max_ge [of "neededColors ss" "assignedColors ss"] by (simp add: totalColors_def)
  moreover have "\<forall>j \<in> set (assignedColors ss). j < length ?cs"
    using fold_max_mem [of _ "assignedColors ss" "neededColors ss"] by (simp add: totalColors_def)
  ultimately obtain ss' xs' ys' where r: "fill_in xo yo ?cs ss 0 xs ys = Some (ss', xs', ys')"
    "length ss' = length ss" "list_all (filled xs' ys') ss'"
    using fill_in_filled by blast
  then show ?thesis using fill_in_axes_ok [OF r(1) assms] by (simp add: fillInSeriesOptions_def)
qed

definition demo_series :: series where
  "demo_series =
     \<lparr>sr_ref = 0, sr_userid = RNull, sr_label = None, sr_color = NoColor, sr_data = [], sr_xaxis = NoAxis, sr_yaxis = NoAxis,
      sr_lines = \<lparr>ln_show = None, ln_width = 2, ln_fill = NoFill, ln_fillColor = DefaultFill, ln_steps = False\<rparr>,
      sr_bars = \<lparr>br_show = False, br_width = 2, br_barWidth = 1, br_fill = FillOn, br_fillColor = DefaultFill,
        br_left = True, br_horizontal = False\<rparr>,
      sr_points = \<lparr>pt_show = False, pt_radius = 3, pt_width = 2, pt_fill = FillOn, pt_fillColor = FillText [T ''#ffffff''],
        pt_symbol = Circle\<rparr>,
      sr_shadowSize = 3, sr_plugin_show = False, sr_hoverable = True, sr_clickable = True,
      sr_stack = RNull, sr_fillBetween = RNull, sr_threshold = None, dp_points = [], dp_pointsize = None, dp_format = None\<rparr>"

section \<open>The palette\<close>

text \<open>The colour at a place: the palette is repeated, one shade further in every round.\<close>

lemma nth_produce:
  assumes "i < length palette" "k < n"
  shows "produce palette i v n ! k =
    scale ''rgb'' (variant_factor (v + (i + k) div length palette)) (parse (palette ! ((i + k) mod length palette)))"
  using assms
proof (induction palette i v n arbitrary: k rule: produce.induct)
  case (2 palette i v n)
  show ?case
  proof (cases k)
    case 0
    then show ?thesis using "2.prems" by (auto simp: Let_def)
  next
    case (Suc j)
    show ?thesis
    proof (cases "Suc i \<ge> length palette")
      case True
      then have i: "i + k = length palette + j" using "2.prems"(1) Suc by simp
      have p: "0 < length palette" using "2.prems"(1) by linarith
      have d: "(i + k) div length palette = Suc (j div length palette)" "(i + k) mod length palette = j mod length palette"
        using p by (simp_all only: i div_add_self1 mod_add_self1 Suc_eq_plus1)
      have "produce palette i v (Suc n) ! k = produce palette 0 (Suc v) n ! j"
        using True Suc by (simp add: Let_def)
      then show ?thesis unfolding d using "2.IH"(1) [OF refl refl True p, of j] "2.prems"(2) Suc by simp
    next
      case False
      then show ?thesis using "2.IH"(2) [OF refl refl False, of j] "2.prems" Suc
        by (auto simp: Let_def)
    qed
  qed
qed simp

end
