(* ===== verification/Datapoints.thy ===== *)
theory Datapoints
  imports Plot_Series
begin

text \<open>
  From the user's data to the flat arrays that are drawn, \<open>processData\<close> of
  \<open>static/flot/jquery.flot.js\<close>: conversion of the raw values, gaps, the extra points of a step
  line, the hooks of the plugins, and the extents of the data on every axis.
\<close>

section \<open>Conversion to numbers\<close>

text \<open>The digits after the point and the exponent of a decimal literal.\<close>

definition digits_of :: "string \<Rightarrow> real" where
  "digits_of s = real (digits_val s)"

definition exponent :: "string \<Rightarrow> int option" where
  "exponent s =
     (case s of
        [] \<Rightarrow> Some 0
      | c # t \<Rightarrow>
          if c \<in> {CHR ''e'', CHR ''E''} then
            (let neg = (t \<noteq> [] \<and> hd t = CHR ''-'');
                 ds = (if t \<noteq> [] \<and> hd t \<in> {CHR ''-'', CHR ''+''} then tl t else t)
             in if ds \<noteq> [] \<and> list_all is_digit ds
                then Some (if neg then - int (digits_val ds) else int (digits_val ds)) else None)
          else None)"

definition decimal :: "string \<Rightarrow> real option" where
  "decimal s =
     (let ds = takeWhile is_digit s;
          r = dropWhile is_digit s;
          fs = (if r \<noteq> [] \<and> hd r = CHR ''.'' then takeWhile is_digit (tl r) else []);
          e = (if r \<noteq> [] \<and> hd r = CHR ''.'' then dropWhile is_digit (tl r) else r)
      in if ds = [] \<and> fs = [] then None
         else map_option (\<lambda>x. digits_of (ds @ fs) / 10 ^ length fs * (if x \<ge> 0 then 10 ^ nat x else 1 / 10 ^ nat (- x)))
                (exponent e))"

definition str_number :: "string \<Rightarrow> jsnum" where
  "str_number s =
     (let t = trim s in
      if t = [] then Fin 0
      else if take 2 t \<in> {''0x'', ''0X''} then
        (if drop 2 t \<noteq> [] \<and> list_all (\<lambda>c. hex_val c \<noteq> None) (drop 2 t)
         then Fin (real (foldl (\<lambda>a c. 16 * a + the (hex_val c)) 0 (drop 2 t))) else NaN)
      else
        let neg = (hd t = CHR ''-'');
            u = (if hd t \<in> {CHR ''-'', CHR ''+''} then tl t else t)
        in if u = ''Infinity'' then (if neg then NInf else PInf)
           else case decimal u of None \<Rightarrow> NaN | Some x \<Rightarrow> Fin (if neg then - x else x))"

text \<open>The unary plus on a value.\<close>

fun to_number :: "raw \<Rightarrow> jsnum" where
  "to_number RNull = Fin 0"
| "to_number (RNum x) = x"
| "to_number (RStr s) = str_number s"
| "to_number (RBool b) = Fin (if b then 1 else 0)"
| "to_number (RObject x) = x"

text \<open>The largest finite double, which stands for infinity in the arrays.\<close>

definition fakeInfinity :: real where
  "fakeInfinity = 2 ^ 1024 - 2 ^ 971"

definition clean :: "raw \<Rightarrow> cell" where
  "clean v =
     (if v = RNull then None
      else case to_number v of NaN \<Rightarrow> None | PInf \<Rightarrow> Some fakeInfinity | NInf \<Rightarrow> Some (- fakeInfinity) | Fin x \<Rightarrow> Some x)"

section \<open>First pass: one series\<close>

text \<open>The format of a series that brings none.\<close>

definition fill_truthy :: "fill_option \<Rightarrow> bool" where
  "fill_truthy f = (case f of NoFill \<Rightarrow> False | FillOn \<Rightarrow> True | FillOpacity x \<Rightarrow> x \<noteq> 0)"

definition default_format :: "series \<Rightarrow> column list" where
  "default_format s =
     [\<lparr>col_x = True, col_y = False, col_required = True, col_default = None\<rparr>,
      \<lparr>col_x = False, col_y = True, col_required = True, col_default = None\<rparr>] @
     (if br_show (sr_bars s) \<or> shows_lines s \<and> fill_truthy (ln_fill (sr_lines s))
      then [\<lparr>col_x = br_horizontal (sr_bars s), col_y = \<not> br_horizontal (sr_bars s),
             col_required = False, col_default = Some 0\<rparr>]
      else [])"

text \<open>
  The extent of an axis while the data is read: the smallest and largest value so far. A bound is a
  number or infinity; \<open>None\<close> is \<open>null\<close>, which compares like 0.
\<close>

type_synonym bound = "jsnum option"

definition bnum :: "bound \<Rightarrow> jsnum" where
  "bnum b = (case b of None \<Rightarrow> Fin 0 | Some x \<Rightarrow> x)"

lemma bnum_Some [simp]: "bnum (Some x) = x"
  by (simp add: bnum_def)

type_synonym extent = "bound \<times> bound"

definition no_extent :: extent where
  "no_extent = (Some PInf, Some NInf)"

definition updateAxis :: "bound \<Rightarrow> bound \<Rightarrow> extent \<Rightarrow> extent" where
  "updateAxis mn mx e =
     (if jlt (bnum mn) (bnum (fst e)) \<and> mn \<noteq> Some (Fin (- fakeInfinity)) then mn else fst e,
      if jlt (bnum (snd e)) (bnum mx) \<and> mx \<noteq> Some (Fin fakeInfinity) then mx else snd e)"

text \<open>The extents of the horizontal and of the vertical axes, by number.\<close>

type_synonym extents = "(nat \<Rightarrow> extent) \<times> (nat \<Rightarrow> extent)"

definition update_x :: "nat \<Rightarrow> bound \<Rightarrow> bound \<Rightarrow> extents \<Rightarrow> extents" where
  "update_x k mn mx e = ((fst e)(k := updateAxis mn mx (fst e k)), snd e)"

definition update_y :: "nat \<Rightarrow> bound \<Rightarrow> bound \<Rightarrow> extents \<Rightarrow> extents" where
  "update_y k mn mx e = (fst e, (snd e)(k := updateAxis mn mx (snd e k)))"

text \<open>
  One value of a point: the cell that is stored and whether the point is given up for it.
\<close>

definition convert :: "column \<Rightarrow> raw \<Rightarrow> cell \<times> bool" where
  "convert f v =
     (case clean v of
        Some x \<Rightarrow> (Some x, False)
      | None \<Rightarrow> (col_default f, col_required f))"

definition convert_point :: "column list \<Rightarrow> raw list \<Rightarrow> cell list \<times> bool" where
  "convert_point fmt vs =
     (let cs = map (\<lambda>m. convert (fmt ! m) (if m < length vs then vs ! m else RNull)) [0..<length fmt]
      in (map fst cs, list_ex snd cs))"

text \<open>The values of a point that is given up still count for the extents.\<close>

definition count_value :: "nat \<Rightarrow> nat \<Rightarrow> column \<times> cell \<Rightarrow> extents \<Rightarrow> extents" where
  "count_value kx ky fc e =
     (case snd fc of
        None \<Rightarrow> e
      | Some v \<Rightarrow>
          let e1 = (if col_x (fst fc) then update_x kx (Some (Fin v)) (Some (Fin v)) e else e)
          in if col_y (fst fc) then update_y ky (Some (Fin v)) (Some (Fin v)) e1 else e1)"

definition copy_point ::
  "column list \<Rightarrow> bool \<Rightarrow> nat \<Rightarrow> nat \<Rightarrow> raw list option \<Rightarrow> cell list \<times> extents \<Rightarrow> cell list \<times> extents" where
  "copy_point fmt insertSteps kx ky p st =
     (let ps = length fmt; points = fst st; k = int (length points);
          (block, nullify) = (case p of None \<Rightarrow> (replicate ps None, True) | Some vs \<Rightarrow> convert_point fmt vs)
      in if nullify then
           (points @ replicate ps None, fold (count_value kx ky) (zip fmt block) (snd st))
         else if insertSteps \<and> k > 0 \<and> rd points (k - int ps) \<noteq> None
             \<and> rd points (k - int ps) \<noteq> rd block 0
             \<and> rd points (k - int ps + 1) \<noteq> rd block 1 then
           (points @ (block @ block)[1 := rd points (k - int ps + 1)], snd st)
         else (points @ block, snd st))"

text \<open>The marks \<open>used\<close> of the axes, by direction and number.\<close>

type_synonym marks = "(direction \<times> nat) list"

definition first_pass :: "series \<Rightarrow> extents \<times> marks \<Rightarrow> series \<times> extents \<times> marks" where
  "first_pass s eu =
     (let fmt = (case dp_format s of Some f \<Rightarrow> f | None \<Rightarrow> default_format s);
          s1 = s\<lparr>dp_format := Some fmt\<rparr>
      in if dp_pointsize s \<noteq> None then (s1, eu)
         else
           let kx = axisNumber (sr_xaxis s); ky = axisNumber (sr_yaxis s);
               (points, e) = fold (copy_point fmt (shows_lines s \<and> ln_steps (sr_lines s)) kx ky) (sr_data s) ([], fst eu)
           in (s1\<lparr>dp_pointsize := Some (length fmt), dp_points := points\<rparr>, e, (X, kx) # (Y, ky) # snd eu))"

fun first_passes :: "series list \<Rightarrow> extents \<times> marks \<Rightarrow> series list \<times> extents \<times> marks" where
  "first_passes [] eu = ([], eu)"
| "first_passes (s # ss) eu =
     (let (s', eu1) = first_pass s eu; (ss', eu2) = first_passes ss eu1 in (s' # ss', eu2))"

section \<open>Hooks\<close>

text \<open>
  A hook is called with the place of a series and sees and changes the whole array of series, to
  which it may also append: the loop reads the length of the array again in every round. The fuel
  bounds the rounds; \<open>None\<close> is a loop that does not end within it, or a hook that throws or
  does not return.
\<close>

type_synonym hook = "nat \<Rightarrow> series list \<Rightarrow> series list option"

definition executeHooks :: "hook list \<Rightarrow> nat \<Rightarrow> series list \<Rightarrow> series list option" where
  "executeHooks hooks i ss = fold (\<lambda>h r. Option.bind r (h i)) hooks (Some ss)"

fun hook_loop :: "nat \<Rightarrow> hook list \<Rightarrow> nat \<Rightarrow> series list \<Rightarrow> series list option" where
  "hook_loop 0 hooks i ss = (if i < length ss then None else Some ss)"
| "hook_loop (Suc fuel) hooks i ss =
     (if i < length ss then Option.bind (executeHooks hooks i ss) (hook_loop fuel hooks (Suc i)) else Some ss)"

section \<open>Second pass\<close>

definition widen :: "bound \<Rightarrow> extent \<Rightarrow> extent" where
  "widen v e = (if jlt (bnum v) (bnum (fst e)) then v else fst e,
                if jlt (bnum (snd e)) (bnum v) then v else snd e)"

definition scan_cell :: "column \<Rightarrow> cell \<Rightarrow> extent \<times> extent \<Rightarrow> extent \<times> extent" where
  "scan_cell f v e =
     (if v = Some fakeInfinity \<or> v = Some (- fakeInfinity) then e
      else (if col_x f then widen (map_option Fin v) (fst e) else fst e,
            if col_y f then widen (map_option Fin v) (snd e) else snd e))"

definition scan_point :: "column list \<Rightarrow> nat \<Rightarrow> cell list \<Rightarrow> nat \<Rightarrow> extent \<times> extent \<Rightarrow> extent \<times> extent" where
  "scan_point fmt ps points j e =
     (if rd points (int j) = None then e
      else fold (\<lambda>m e. if m < length fmt then scan_cell (fmt ! m) (rd points (int (j + m))) e else e) [0..<ps] e)"

text \<open>The positions \<open>0, ps, 2 ps, \<dots>\<close> below \<open>n\<close>.\<close>

definition starts :: "nat \<Rightarrow> nat \<Rightarrow> nat list" where
  "starts n ps = map (\<lambda>i. i * ps) [0..<(n + ps - 1) div ps]"

definition bar_room :: "bar_options \<Rightarrow> extent \<times> extent \<Rightarrow> extent \<times> extent" where
  "bar_room b e =
     (if br_show b then
        let delta = (if br_left b then 0 else - br_barWidth b / 2);
            room = (\<lambda>e. (Some (jadd (bnum (fst e)) (Fin delta)), Some (jadd (bnum (snd e)) (Fin (delta + br_barWidth b)))))
        in if br_horizontal b then (fst e, room (snd e)) else (room (fst e), snd e)
      else e)"

text \<open>
  One series of the second pass, with the format the code uses there. A point size of 0 or
  \<open>null\<close> makes the loop run forever on a series that has points: \<open>None\<close>.
\<close>

definition second_pass :: "column list \<Rightarrow> series \<Rightarrow> extents \<Rightarrow> extents option" where
  "second_pass fmt s e =
     (let ps = (case dp_pointsize s of None \<Rightarrow> 0 | Some n \<Rightarrow> n)
      in if ps = 0 \<and> dp_points s \<noteq> [] then None
         else
           let (xe, ye) = bar_room (sr_bars s)
                    (fold (scan_point fmt ps (dp_points s)) (starts (length (dp_points s)) ps) (no_extent, no_extent))
           in Some (update_y (axisNumber (sr_yaxis s)) (fst ye) (snd ye)
                     (update_x (axisNumber (sr_xaxis s)) (fst xe) (snd xe) e)))"

fun second_passes :: "column list \<Rightarrow> series list \<Rightarrow> extents \<Rightarrow> extents option" where
  "second_passes fmt [] e = Some e"
| "second_passes fmt (s # ss) e =
     (case second_pass fmt s e of None \<Rightarrow> None | Some e' \<Rightarrow> second_passes fmt ss e')"

section \<open>The whole of processData\<close>

definition final_bound :: "bound \<Rightarrow> real option" where
  "final_bound b = (case b of Some (Fin x) \<Rightarrow> Some x | _ \<Rightarrow> None)"

definition finish_axis :: "extents \<Rightarrow> marks \<Rightarrow> axis \<Rightarrow> axis" where
  "finish_axis e used a =
     (let b = (case ax_direction a of X \<Rightarrow> fst e (ax_n a) | Y \<Rightarrow> snd e (ax_n a))
      in a\<lparr>ax_used := ((ax_direction a, ax_n a) \<in> set used),
           ax_datamin := final_bound (fst b), ax_datamax := final_bound (snd b)\<rparr>)"

text \<open>
  The loop of the second pass still reads the variable \<open>format\<close> of the first one: the format of
  the last series.
\<close>

definition last_format :: "series list \<Rightarrow> column list" where
  "last_format ss = (if ss = [] then [] else case dp_format (last ss) of Some f \<Rightarrow> f | None \<Rightarrow> [])"

definition reset :: "series \<Rightarrow> series" where
  "reset s = s\<lparr>dp_points := [], dp_pointsize := None, dp_format := None\<rparr>"

lemma reset_simps [simp]:
  "dp_points (reset s) = []" "dp_pointsize (reset s) = None" "dp_format (reset s) = None"
  by (simp_all add: reset_def)

definition processData ::
  "nat \<Rightarrow> hook list \<Rightarrow> hook list \<Rightarrow> series list \<Rightarrow> axes \<Rightarrow> axes \<Rightarrow> (series list \<times> axes \<times> axes) option" where
  "processData fuel processRawData processDatapoints ss xs ys =
     (case hook_loop fuel processRawData 0 (map reset ss) of
        None \<Rightarrow> None
      | Some ss1 \<Rightarrow>
          let (ss2, e, used) = first_passes ss1 ((\<lambda>_. no_extent, \<lambda>_. no_extent), []);
              fmt = last_format ss2
          in case hook_loop fuel processDatapoints 0 ss2 of
               None \<Rightarrow> None
             | Some ss3 \<Rightarrow>
                 (case second_passes fmt ss3 e of
                    None \<Rightarrow> None
                  | Some e' \<Rightarrow>
                      Some (ss3, map (map_option (finish_axis e' used)) xs, map (map_option (finish_axis e' used)) ys)))"


section \<open>The stored points\<close>

lemma rd_append: "rd (xs @ ys) (int i) = (if i < length xs then rd xs (int i) else rd ys (int (i - length xs)))"
  unfolding rd_nat by (cases "i < length xs") (auto simp: nth_append)

text \<open>Two neighbouring points of a step line share a coordinate, unless one of them is a gap.\<close>

definition linked :: "nat \<Rightarrow> cell list \<Rightarrow> nat \<Rightarrow> bool" where
  "linked ps points i \<longleftrightarrow>
     rd points (int i) = None \<or> rd points (int (i + ps)) = None
     \<or> rd points (int i) = rd points (int (i + ps)) \<or> rd points (int (i + 1)) = rd points (int (i + ps + 1))"

definition rectilinear :: "nat \<Rightarrow> cell list \<Rightarrow> bool" where
  "rectilinear ps points \<longleftrightarrow> (\<forall>i < length points. ps dvd i \<longrightarrow> linked ps points i)"

text \<open>A point is whole when it is a gap in every column or has its two coordinates.\<close>

definition whole :: "cell list \<Rightarrow> bool" where
  "whole b \<longleftrightarrow> list_all (\<lambda>c. c = None) b \<or> (rd b 0 \<noteq> None \<and> rd b 1 \<noteq> None)"

definition wholes :: "nat \<Rightarrow> cell list \<Rightarrow> bool" where
  "wholes ps points \<longleftrightarrow> ps dvd length points \<and> (\<forall>i < length points. ps dvd i \<longrightarrow> whole (take ps (drop i points)))"

lemma wholes_Nil [simp]: "wholes ps []"
  by (simp add: wholes_def)

lemma rectilinear_Nil [simp]: "rectilinear ps []"
  by (simp add: rectilinear_def)

text \<open>A position of a list of blocks lies in an earlier block or starts the last one.\<close>

lemma block_position:
  assumes "(ps :: nat) dvd n" "ps dvd i" "i < n + ps"
  shows "i + ps \<le> n \<or> i = n"
proof -
  obtain a b where "n = ps * a" "i = ps * b" using assms(1,2) by (auto elim!: dvdE)
  then have "ps * b < ps * (a + 1)" using assms(3) by simp
  then have "b < a + 1" by (simp only: mult_less_cancel1)
  then have "b = a \<or> ps * (b + 1) \<le> ps * a" by (simp only: mult_le_cancel1) linarith
  then show ?thesis using \<open>n = ps * a\<close> \<open>i = ps * b\<close> by auto
qed

lemma wholes_append:
  assumes "wholes ps points" "length b = ps" "whole b" "0 < ps"
  shows "wholes ps (points @ b)"
proof -
  have d: "ps dvd length points" using assms(1) by (simp add: wholes_def)
  have "whole (take ps (drop i (points @ b)))" if i: "i < length (points @ b)" "ps dvd i" for i
  proof -
    consider "i + ps \<le> length points" | "i = length points" using block_position [OF d i(2)] i(1) assms(2) by auto
    then show ?thesis
    proof cases
      case 1
      then have "i < length points" using assms(4) by linarith
      then show ?thesis using 1 assms(1) i(2) by (simp add: wholes_def)
    qed (use assms(2,3) in simp)
  qed
  then show ?thesis using d assms(2) by (simp add: wholes_def)
qed

lemma rectilinear_append:
  assumes "rectilinear ps points" "ps dvd length points" "length b = ps" "2 \<le> ps"
    and "points = [] \<or> (let i = int (length points) - int ps in
           rd points i = None \<or> rd b 0 = None \<or> rd points i = rd b 0 \<or> rd points (i + 1) = rd b 1)"
  shows "rectilinear ps (points @ b)"
  unfolding rectilinear_def
proof (intro allI impI)
  fix i
  assume i: "i < length (points @ b)" "ps dvd i"
  consider "i + 2 * ps \<le> length points" | "i + ps = length points" | "i = length points"
    using block_position [OF assms(2) i(2)] block_position [OF assms(2), of "i + ps"] i assms(3)
    by (auto simp: mult_2)
  then show "linked ps (points @ b) i"
  proof cases
    case 1
    then have "linked ps points i" using assms(1,4) i(2) by (simp add: rectilinear_def)
    then show ?thesis using 1 assms(4) unfolding linked_def rd_append by simp
  next
    case 2
    then have "int (length points) - int ps = int i" "points \<noteq> []" using assms(4) by auto
    then have "rd points (int i) = None \<or> rd b 0 = None \<or> rd points (int i) = rd b 0 \<or> rd points (int i + 1) = rd b 1"
      using assms(5) by (simp only: Let_def) simp
    then show ?thesis using 2 assms(4) unfolding linked_def rd_append by (simp add: add.commute)
  next
    case 3
    then show ?thesis using assms(3,4) unfolding linked_def rd_append by simp
  qed
qed

text \<open>A format whose first two columns are the coordinates every point needs.\<close>

definition xy_format :: "column list \<Rightarrow> bool" where
  "xy_format fmt \<longleftrightarrow> 2 \<le> length fmt \<and> (\<forall>m < 2. col_required (fmt ! m) \<and> col_default (fmt ! m) = None)
     \<and> col_x (fmt ! 0) \<and> col_y (fmt ! 1)"

lemma default_format_xy: "xy_format (default_format s)"
  by (auto simp: xy_format_def default_format_def less_Suc_eq numeral_2_eq_2)

lemma convert_point_whole:
  assumes "xy_format fmt" "convert_point fmt vs = (b, False)"
  shows "length b = length fmt \<and> rd b 0 \<noteq> None \<and> rd b 1 \<noteq> None"
proof -
  let ?c = "\<lambda>m. convert (fmt ! m) (if m < length vs then vs ! m else RNull)"
  have b: "b = map fst (map ?c [0..<length fmt])" and n: "\<not> list_ex snd (map ?c [0..<length fmt])"
    using assms(2) by (simp_all add: convert_point_def)
  have "fst (?c m) \<noteq> None" if "m < 2" for m
  proof -
    have "\<not> snd (?c m)" "col_required (fmt ! m)"
      using n that assms(1) by (auto simp: list_ex_iff xy_format_def)
    then show ?thesis unfolding convert_def by (cases "clean (if m < length vs then vs ! m else RNull)") auto
  qed
  from this [of 0] this [of 1] have "rd b 0 \<noteq> None" "rd b 1 \<noteq> None"
    using assms(1) by (auto simp: rd_def b xy_format_def)
  then show ?thesis by (simp add: b whole_def)
qed

text \<open>What the array of points keeps: whole blocks, and the step form where it is asked for.\<close>

definition points_ok :: "nat \<Rightarrow> bool \<Rightarrow> cell list \<Rightarrow> bool" where
  "points_ok ps steps points \<longleftrightarrow> wholes ps points \<and> (steps \<longrightarrow> rectilinear ps points)"

lemma points_ok_Nil [simp]: "points_ok ps steps []"
  by (simp add: points_ok_def)

text \<open>The last point of an array, as the copying loop looks at it.\<close>

definition joins :: "nat \<Rightarrow> cell list \<Rightarrow> cell list \<Rightarrow> bool" where
  "joins ps points b \<longleftrightarrow> points = [] \<or>
     (let i = int (length points) - int ps in
        rd points i = None \<or> rd b 0 = None \<or> rd points i = rd b 0 \<or> rd points (i + 1) = rd b 1)"

lemma points_ok_append:
  assumes "points_ok ps steps points" "length b = ps" "2 \<le> ps" "whole b" "steps \<longrightarrow> joins ps points b"
  shows "points_ok ps steps (points @ b)"
  using assms rectilinear_append [of ps points b] wholes_append [of ps points b]
  by (auto simp: points_ok_def joins_def wholes_def)

lemma rd_update: "rd (xs[j := v]) i = (if i = int j \<and> j < length xs then v else rd xs i)"
  by (auto simp: rd_def nth_list_update)

lemma whole_replicate [simp]: "whole (replicate n None)"
  by (simp add: whole_def list_all_iff)

lemma joins_None: "rd b 0 = None \<Longrightarrow> joins ps points b"
  by (auto simp: joins_def Let_def)

lemma whole_not_gap: "whole b \<Longrightarrow> rd b 0 \<noteq> None \<Longrightarrow> rd b 1 \<noteq> None"
  by (cases b) (auto simp: whole_def rd_def split: if_splits)

lemma points_ok_gap:
  assumes "points_ok ps steps points" "2 \<le> ps"
  shows "points_ok ps steps (points @ replicate ps None)"
  by (rule points_ok_append [OF assms(1) _ assms(2)]) (use assms(2) in \<open>auto simp: rd_def intro!: joins_None\<close>)

text \<open>The point in between: the abscissa of the new point, the ordinate of the last one.\<close>

lemma points_ok_step:
  assumes "points_ok ps steps points" "2 \<le> ps" "length b = ps" "whole b"
    and "rd points (int (length points) - int ps) \<noteq> None" "rd b 0 \<noteq> None"
    and "\<forall>i < length points. ps dvd i \<longrightarrow> whole (take ps (drop i points))" "points \<noteq> []"
  shows "points_ok ps steps (points @ (b @ b)[1 := rd points (int (length points) - int ps + 1)])"
proof -
  let ?y = "rd points (int (length points) - int ps + 1)"
  let ?mid = "b[1 := ?y]"
  have l1: "1 < length b" using assms(2,3) by simp
  have mid: "rd ?mid 0 = rd b 0" "rd ?mid 1 = ?y"
    using rd_update [of b 1 ?y 0] rd_update [of b 1 ?y 1] l1 by simp_all
  have d: "ps dvd length points" using assms(1) by (simp add: points_ok_def wholes_def)
  then have n: "ps \<le> length points" using assms(8) by (simp add: dvd_imp_le)
  let ?i = "length points - ps"
  have i: "ps dvd ?i" "?i < length points" using d n assms(2) by (simp_all add: dvd_diff_nat)
  let ?l = "take ps (drop ?i points)"
  have "rd ?l 0 = rd points (int (length points) - int ps)" "rd ?l 1 = ?y"
    using n assms(2) by (auto simp: rd_def nat_diff_distrib' add.commute intro!: arg_cong [of _ _ "nth points"])
  moreover have "whole ?l" using assms(7) i by blast
  ultimately have y: "?y \<noteq> None" using assms(5) whole_not_gap by metis
  have w: "whole ?mid" using mid assms(6) y by (simp add: whole_def)
  have "joins ps points ?mid" using mid by (simp add: joins_def Let_def)
  then have 1: "points_ok ps steps (points @ ?mid)"
    using points_ok_append [OF assms(1) _ assms(2) w] assms(3) by simp
  have "joins ps (points @ ?mid) b"
  proof -
    have "int (length (points @ ?mid)) - int ps = int (length points)" using assms(3) by simp
    then show ?thesis using mid(1) assms(2,3) unfolding joins_def Let_def
      by (simp add: rd_append [of points ?mid "length points", simplified])
  qed
  then have "points_ok ps steps ((points @ ?mid) @ b)"
    using points_ok_append [OF 1 _ assms(2,4)] assms(3) by simp
  then show ?thesis using l1 by (simp add: list_update_append)
qed

lemma copy_point_ok:
  assumes "xy_format fmt" "points_ok (length fmt) steps (fst st)"
  shows "points_ok (length fmt) steps (fst (copy_point fmt steps kx ky p st))"
proof -
  have ps: "2 \<le> length fmt" using assms(1) by (simp add: xy_format_def)
  obtain b nul where bn: "(case p of None \<Rightarrow> (replicate (length fmt) None, True) | Some vs \<Rightarrow> convert_point fmt vs) = (b, nul)"
    by (meson surj_pair)
  show ?thesis
  proof (cases nul)
    case True
    then show ?thesis using points_ok_gap [OF assms(2) ps] bn by (simp add: copy_point_def Let_def)
  next
    case False
    then have b0: "length b = length fmt" "rd b 0 \<noteq> None \<and> rd b 1 \<noteq> None"
      using bn convert_point_whole [OF assms(1)] by (auto split: option.splits)
    then have b: "length b = length fmt" "whole b" by (auto simp: whole_def)
    let ?k = "int (length (fst st)) - int (length fmt)"
    let ?step = "steps \<and> fst st \<noteq> [] \<and> rd (fst st) ?k \<noteq> None
        \<and> rd (fst st) ?k \<noteq> rd b 0 \<and> rd (fst st) (?k + 1) \<noteq> rd b 1"
    have r: "fst (copy_point fmt steps kx ky p st)
        = (if ?step then fst st @ (b @ b)[1 := rd (fst st) (?k + 1)] else fst st @ b)"
      using bn False unfolding copy_point_def Let_def by auto
    show ?thesis
    proof (cases ?step)
      case True
      then show ?thesis using r points_ok_step [OF assms(2) ps b] assms(2) b0(2)
        by (simp add: points_ok_def wholes_def)
    next
      case False
      then have "steps \<longrightarrow> joins (length fmt) (fst st) b" by (auto simp: joins_def Let_def)
      then show ?thesis using points_ok_append [OF assms(2) b(1) ps b(2)] unfolding r if_not_P [OF False] by blast
    qed
  qed
qed


lemma fold_copy_point_ok:
  assumes "xy_format fmt" "points_ok (length fmt) steps (fst st)"
  shows "points_ok (length fmt) steps (fst (fold (copy_point fmt steps kx ky) data st))"
  using assms(2) by (induction data arbitrary: st) (simp_all add: copy_point_ok [OF assms(1)])

text \<open>A series after the first pass.\<close>

definition processed :: "series \<Rightarrow> bool" where
  "processed s \<longleftrightarrow>
     (\<exists>ps \<ge> 2. dp_pointsize s = Some ps \<and> points_ok ps (shows_lines s \<and> ln_steps (sr_lines s)) (dp_points s))"

lemma first_pass_processed:
  assumes "dp_pointsize s = None" "dp_format s = None"
  shows "processed (fst (first_pass s eu))"
proof -
  let ?f = "default_format s" let ?st = "shows_lines s \<and> ln_steps (sr_lines s)"
  obtain points e where f: "fold (copy_point ?f ?st (axisNumber (sr_xaxis s)) (axisNumber (sr_yaxis s)))
      (sr_data s) ([], fst eu) = (points, e)" by (meson surj_pair)
  then have "points_ok (length ?f) ?st points"
    using fold_copy_point_ok [OF default_format_xy [of s], of ?st "([], fst eu)"] by (metis fst_conv points_ok_Nil)
  moreover have "2 \<le> length ?f" using default_format_xy [of s] by (simp add: xy_format_def)
  ultimately show ?thesis using f assms
    by (simp add: processed_def first_pass_def Let_def shows_lines_def)
qed

lemma first_passes_processed:
  assumes "\<forall>s \<in> set ss. dp_pointsize s = None \<and> dp_format s = None"
  shows "list_all processed (fst (first_passes ss eu))"
  using assms
proof (induction ss arbitrary: eu)
  case (Cons s ss)
  obtain s' eu1 where 1: "first_pass s eu = (s', eu1)" by (meson surj_pair)
  obtain ss' eu2 where 2: "first_passes ss eu1 = (ss', eu2)" by (meson surj_pair)
  show ?case using Cons.IH [of eu1] Cons.prems first_pass_processed [of s eu] 1 2 by simp
qed simp

lemma length_first_passes [simp]: "length (fst (first_passes ss eu)) = length ss"
  by (induction ss arbitrary: eu) (auto simp: Let_def split: prod.splits, metis fst_conv)

text \<open>Hooks that keep the number of series need no more rounds than there are series.\<close>

lemma executeHooks_keeps:
  assumes "\<And>h ss. h \<in> set hooks \<Longrightarrow> P ss \<Longrightarrow> \<exists>ss'. h i ss = Some ss' \<and> P ss'" "P ss"
  shows "\<exists>ss'. executeHooks hooks i ss = Some ss' \<and> P ss'"
  using assms unfolding executeHooks_def
proof (induction hooks arbitrary: ss)
  case (Cons h hooks)
  then obtain ss1 where "h i ss = Some ss1" "P ss1" by (metis list.set_intros(1))
  then show ?case using Cons by simp
qed simp

text \<open>What every hook keeps, with the number of series, holds after the loop; it ends in time.\<close>

lemma hook_loop_total:
  assumes "\<And>h i ss. h \<in> set hooks \<Longrightarrow> i < n \<Longrightarrow> length ss = n \<and> P ss \<Longrightarrow> \<exists>ss'. h i ss = Some ss' \<and> length ss' = n \<and> P ss'"
    and "n \<le> i + fuel" "length ss = n" "P ss"
  shows "\<exists>ss'. hook_loop fuel hooks i ss = Some ss' \<and> length ss' = n \<and> P ss'"
  using assms(2-4)
proof (induction fuel arbitrary: i ss)
  case (Suc fuel)
  show ?case
  proof (cases "i < length ss")
    case True
    have "\<exists>ss'. executeHooks hooks i ss = Some ss' \<and> length ss' = n \<and> P ss'"
      by (rule executeHooks_keeps [where P = "\<lambda>ss. length ss = n \<and> P ss"]) (use assms(1) Suc.prems True in auto)
    then show ?thesis using Suc.IH [of "Suc i"] Suc.prems(1) True by auto
  next
    case False
    then show ?thesis using Suc.prems by auto
  qed
qed auto

lemma hook_loop_none: "length ss \<le> i + fuel \<Longrightarrow> hook_loop fuel [] i ss = Some ss"
  by (induction fuel "[] :: hook list" i ss rule: hook_loop.induct) (auto simp: executeHooks_def)

lemma hook_loop_raw: "hook_loop fuel [] i ss = None \<or> hook_loop fuel [] i ss = Some ss"
  by (induction fuel "[] :: hook list" i ss rule: hook_loop.induct) (auto simp: executeHooks_def)

lemma second_passes_total:
  "list_all processed ss \<Longrightarrow> \<exists>e'. second_passes fmt ss e = Some e'"
proof (induction ss arbitrary: e)
  case (Cons s ss)
  then have "second_pass fmt s e \<noteq> None"
    by (auto simp: second_pass_def processed_def Let_def split: prod.split)
  then obtain e1 where "second_pass fmt s e = Some e1" by blast
  then show ?case using Cons by simp
qed simp

lemma processData_no_hooks:
  assumes "length ss \<le> fuel"
  shows "\<exists>e' u. processData fuel [] [] ss xs ys
    = Some (fst (first_passes (map reset ss) ((\<lambda>_. no_extent, \<lambda>_. no_extent), [])),
            map (map_option (finish_axis e' u)) xs, map (map_option (finish_axis e' u)) ys)"
proof -
  let ?eu = "((\<lambda>_. no_extent, \<lambda>_. no_extent), []) :: extents \<times> marks"
  obtain ss2 e u where fp: "first_passes (map reset ss) ?eu = (ss2, e, u)" by (metis surj_pair)
  have "list_all processed (fst (first_passes (map reset ss) ?eu))"
    by (rule first_passes_processed) (auto simp: reset_def)
  then have p: "list_all processed ss2" by (simp add: fp)
  have l: "length ss2 = length ss" using length_first_passes [of "map reset ss" ?eu] by (simp add: fp)
  obtain e' where "second_passes (last_format ss2) ss2 e = Some e'" using second_passes_total [OF p] by blast
  then show ?thesis using assms l
    by (intro exI [of _ e'] exI [of _ u]) (simp add: processData_def fp hook_loop_none)
qed


section \<open>The extents cover the data\<close>

definition covers :: "extent \<Rightarrow> real \<Rightarrow> bool" where
  "covers e v \<longleftrightarrow> jle (bnum (fst e)) (Fin v) \<and> jle (Fin v) (bnum (snd e))"

text \<open>An extent whose bounds are numbers or the sentries they start with.\<close>

definition proper :: "extent \<Rightarrow> bool" where
  "proper e \<longleftrightarrow> bnum (fst e) \<notin> {NaN, NInf} \<and> bnum (snd e) \<notin> {NaN, PInf}"

lemma jle_total: "x \<noteq> NaN \<Longrightarrow> y \<noteq> NaN \<Longrightarrow> \<not> jlt x y \<Longrightarrow> jle y x"
  by (cases x; cases y) (auto simp: jle_def jeq_def)

lemma jlt_jle_trans: "jlt x y \<Longrightarrow> jle y z \<Longrightarrow> jle x z"
  by (cases x; cases y; cases z) (auto simp: jle_def jeq_def)

lemma jle_jlt_trans: "jle x y \<Longrightarrow> jlt y z \<Longrightarrow> jle x z"
  by (cases x; cases y; cases z) (auto simp: jle_def jeq_def)

lemma jle_trans: "jle x y \<Longrightarrow> jle y z \<Longrightarrow> jle x z"
  by (cases x; cases y; cases z) (auto simp: jle_def jeq_def)

lemma proper_no_extent [simp]: "proper no_extent"
  by (simp add: proper_def no_extent_def bnum_def)

lemma proper_updateAxis: "proper e \<Longrightarrow> proper (mn, mx) \<Longrightarrow> proper (updateAxis mn mx e)"
  by (simp add: proper_def updateAxis_def)

lemma covers_updateAxis_mono: "covers e v \<Longrightarrow> covers (updateAxis mn mx e) v"
  by (auto simp: covers_def updateAxis_def intro: jlt_jle_trans jle_jlt_trans)

lemma covers_updateAxis:
  assumes "covers (mn, mx) v" "proper e" "proper (mn, mx)"
    and "mn \<noteq> Some (Fin (- fakeInfinity))" "mx \<noteq> Some (Fin fakeInfinity)"
  shows "covers (updateAxis mn mx e) v"
  using assms jle_total [of "bnum mn" "bnum (fst e)"] jle_total [of "bnum (snd e)" "bnum mx"]
  by (auto simp: covers_def updateAxis_def proper_def intro: jle_trans)

definition proper_extents :: "extents \<Rightarrow> bool" where
  "proper_extents e \<longleftrightarrow> (\<forall>k. proper (fst e k) \<and> proper (snd e k))"

lemma proper_extents_update:
  "proper_extents e \<Longrightarrow> proper (mn, mx) \<Longrightarrow> proper_extents (update_x k mn mx e)"
  "proper_extents e \<Longrightarrow> proper (mn, mx) \<Longrightarrow> proper_extents (update_y k mn mx e)"
  by (simp_all add: proper_extents_def update_x_def update_y_def proper_updateAxis)

lemma proper_Fin [simp]: "proper (Some (Fin v), Some (Fin w))"
  by (simp add: proper_def bnum_def)

lemma proper_count_value: "proper_extents e \<Longrightarrow> proper_extents (count_value kx ky fc e)"
  by (simp add: count_value_def Let_def proper_extents_update split: option.split)

lemma proper_fold_count: "proper_extents e \<Longrightarrow> proper_extents (fold (count_value kx ky) fcs e)"
  by (induction fcs arbitrary: e) (simp_all add: proper_count_value)

lemma proper_copy_point: "proper_extents (snd st) \<Longrightarrow> proper_extents (snd (copy_point fmt steps kx ky p st))"
  by (auto simp: copy_point_def Let_def proper_fold_count split: prod.split)

lemma proper_fold_copy: "proper_extents (snd st) \<Longrightarrow> proper_extents (snd (fold (copy_point fmt steps kx ky) data st))"
  by (induction data arbitrary: st) (simp_all add: proper_copy_point)

lemma proper_first_pass:
  assumes "proper_extents (fst eu)"
  shows "proper_extents (fst (snd (first_pass s eu)))"
  using proper_fold_copy [of "([], fst eu)"] assms
  by (auto simp: first_pass_def Let_def split: prod.split) (metis snd_conv)

lemma proper_first_passes:
  "proper_extents (fst eu) \<Longrightarrow> proper_extents (fst (snd (first_passes ss eu)))"
  by (induction ss arbitrary: eu) (auto simp: Let_def split: prod.split, metis proper_first_pass fst_conv snd_conv)

text \<open>Widening keeps what is covered and covers the new value.\<close>

lemma proper_widen: "proper e \<Longrightarrow> proper (widen (map_option Fin v) e)"
  by (cases v) (simp_all add: proper_def widen_def bnum_def)

lemma covers_widen_mono: "covers e v \<Longrightarrow> covers (widen w e) v"
  by (auto simp: covers_def widen_def intro: jlt_jle_trans jle_jlt_trans)

lemma covers_widen: "proper e \<Longrightarrow> covers (widen (Some (Fin v)) e) v"
  using jle_total [of "Fin v" "bnum (fst e)"] jle_total [of "bnum (snd e)" "Fin v"]
  by (auto simp: covers_def widen_def proper_def bnum_def [of "Some (Fin v)"])

text \<open>
  The state of the scan of one series: proper extents, and bounds that are \<open>null\<close>, sentries or
  values with the property \<open>Q\<close> of the ordinary values.
\<close>

definition ranging :: "(real \<Rightarrow> bool) \<Rightarrow> extent \<Rightarrow> bool" where
  "ranging Q e \<longleftrightarrow> proper e \<and> (\<forall>x. fst e = Some (Fin x) \<longrightarrow> Q x) \<and> (\<forall>x. snd e = Some (Fin x) \<longrightarrow> Q x)"

definition scan_ok :: "(real \<Rightarrow> bool) \<Rightarrow> extent \<times> extent \<Rightarrow> bool" where
  "scan_ok Q e \<longleftrightarrow> ranging Q (fst e) \<and> ranging Q (snd e)"

definition ordinary :: "(real \<Rightarrow> bool) \<Rightarrow> cell \<Rightarrow> bool" where
  "ordinary Q c \<longleftrightarrow> (\<forall>v. c = Some v \<longrightarrow> v = fakeInfinity \<or> v = - fakeInfinity \<or> Q v)"

lemma ranging_widen: "ranging Q e \<Longrightarrow> (\<And>x. v = Some x \<Longrightarrow> Q x) \<Longrightarrow> ranging Q (widen (map_option Fin v) e)"
  using proper_widen [of e v] by (auto simp: ranging_def widen_def)

lemma scan_cell_ok: "scan_ok Q e \<Longrightarrow> ordinary Q v \<Longrightarrow> scan_ok Q (scan_cell f v e)"
  by (auto simp: scan_ok_def scan_cell_def ordinary_def intro!: ranging_widen)

lemma scan_cell_mono:
  "covers (fst e) x \<Longrightarrow> covers (fst (scan_cell f v e)) x" "covers (snd e) y \<Longrightarrow> covers (snd (scan_cell f v e)) y"
  by (simp_all add: scan_cell_def covers_widen_mono)

lemma scan_cell_covers:
  assumes "scan_ok Q e" "v \<noteq> fakeInfinity" "v \<noteq> - fakeInfinity"
  shows "col_x f \<Longrightarrow> covers (fst (scan_cell f (Some v) e)) v" "col_y f \<Longrightarrow> covers (snd (scan_cell f (Some v) e)) v"
  using assms by (simp_all add: scan_cell_def covers_widen scan_ok_def ranging_def)


lemma rd_set: "rd xs i = Some v \<Longrightarrow> Some v \<in> set xs"
  by (auto simp: rd_def in_set_conv_nth split: if_splits intro!: exI [of _ "nat i"])

lemma ordinary_rd: "list_all (ordinary Q) points \<Longrightarrow> ordinary Q (rd points i)"
  by (cases "rd points i") (auto simp: list_all_iff dest: rd_set, simp add: ordinary_def)

lemma scan_point_ok:
  assumes "list_all (ordinary Q) points" "scan_ok Q e"
  shows "scan_ok Q (scan_point fmt ps points j e)"
proof -
  have "scan_ok Q (fold (\<lambda>m e. if m < length fmt then scan_cell (fmt ! m) (rd points (int (j + m))) e else e) ms e)"
    for ms using assms(2) by (induction ms arbitrary: e) (simp_all add: scan_cell_ok ordinary_rd [OF assms(1)])
  then show ?thesis using assms(2) by (simp add: scan_point_def)
qed

lemma scan_point_mono:
  assumes "covers (fst e) x \<or> A" "covers (snd e) y \<or> B"
  shows "(covers (fst (scan_point fmt ps points j e)) x \<or> A) \<and> (covers (snd (scan_point fmt ps points j e)) y \<or> B)"
  unfolding scan_point_def using assms
  by (auto intro!: fold_keeps [where P = "\<lambda>e. covers (fst e) x"] fold_keeps [where P = "\<lambda>e. covers (snd e) y"]
      simp: scan_cell_mono)

text \<open>The point at \<open>j\<close> is covered in both directions by what the scan has seen of it.\<close>

lemma scan_point_covers:
  assumes "list_all (ordinary Q) points" "scan_ok Q e" "2 \<le> ps" "xy_format fmt"
    and "rd points (int j) = Some x" "x \<noteq> fakeInfinity" "x \<noteq> - fakeInfinity"
    and "rd points (int (j + 1)) = Some y" "y \<noteq> fakeInfinity" "y \<noteq> - fakeInfinity"
  shows "covers (fst (scan_point fmt ps points j e)) x" "covers (snd (scan_point fmt ps points j e)) y"
proof -
  let ?f = "\<lambda>m e. if m < length fmt then scan_cell (fmt ! m) (rd points (int (j + m))) e else e"
  have fmt: "2 \<le> length fmt" "col_x (fmt ! 0)" "col_y (fmt ! 1)" using assms(4) by (simp_all add: xy_format_def)
  have r: "scan_point fmt ps points j e = fold ?f [0..<ps] e" using assms(5) by (simp add: scan_point_def)
  have inv: "scan_ok Q (?f m e)" if "scan_ok Q e" for m e
    using that by (simp add: scan_cell_ok ordinary_rd [OF assms(1)])
  show "covers (fst (scan_point fmt ps points j e)) x" unfolding r
  proof (rule fold_reaches [where x = 0 and Inv = "scan_ok Q"])
    show "covers (fst (?f 0 s)) x" if "scan_ok Q s" for s
      using that fmt assms(5-7) scan_cell_covers(1) [of Q s x "fmt ! 0"] by auto
  qed (use assms(2,3) inv in \<open>auto simp: scan_cell_mono\<close>)
  show "covers (snd (scan_point fmt ps points j e)) y" unfolding r
  proof (rule fold_reaches [where x = 1 and Inv = "scan_ok Q"])
    show "covers (snd (?f 1 s)) y" if "scan_ok Q s" for s
      using that fmt assms(8-10) scan_cell_covers(2) [of Q s y "fmt ! 1"] by auto
  qed (use assms(2,3) inv in \<open>auto simp: scan_cell_mono\<close>)
qed

lemma starts_mem:
  assumes "0 < ps" "ps dvd j" "j < n"
  shows "j \<in> set (starts n ps)"
proof -
  have "j div ps * ps = j" using assms(2) by simp
  moreover have "j div ps < (n + ps - 1) div ps"
  proof -
    have "(j + ps) div ps \<le> (n + ps - 1) div ps" using assms(1,3) by (intro div_le_mono) linarith
    then show ?thesis using assms(1) by simp
  qed
  ultimately show ?thesis unfolding starts_def by force
qed

text \<open>The whole scan of one series.\<close>

definition scan :: "column list \<Rightarrow> nat \<Rightarrow> cell list \<Rightarrow> extent \<times> extent" where
  "scan fmt ps points = fold (scan_point fmt ps points) (starts (length points) ps) (no_extent, no_extent)"

lemma scan_start: "scan_ok Q (no_extent, no_extent)"
  by (simp add: scan_ok_def ranging_def no_extent_def proper_def bnum_def)

lemma scan_scan_ok: "list_all (ordinary Q) points \<Longrightarrow> scan_ok Q (scan fmt ps points)"
  unfolding scan_def by (rule fold_keeps [where P = "scan_ok Q"]) (simp_all add: scan_point_ok scan_start)

text \<open>A point of a series: two ordinary coordinates at a block start.\<close>

definition point_at :: "series \<Rightarrow> nat \<Rightarrow> real \<Rightarrow> real \<Rightarrow> bool" where
  "point_at s j x y \<longleftrightarrow>
     (\<exists>ps. dp_pointsize s = Some ps \<and> 2 \<le> ps \<and> ps dvd j)
     \<and> rd (dp_points s) (int j) = Some x \<and> rd (dp_points s) (int (j + 1)) = Some y
     \<and> x \<notin> {fakeInfinity, - fakeInfinity} \<and> y \<notin> {fakeInfinity, - fakeInfinity}"

lemma scan_covers:
  assumes "point_at s j x y" "dp_pointsize s = Some ps" "xy_format fmt" "list_all (ordinary Q) (dp_points s)"
  shows "covers (fst (scan fmt ps (dp_points s))) x \<and> covers (snd (scan fmt ps (dp_points s))) y"
proof -
  have p: "2 \<le> ps" "ps dvd j" "rd (dp_points s) (int j) = Some x" "rd (dp_points s) (int (j + 1)) = Some y"
    using assms(1,2) by (auto simp: point_at_def)
  have j: "j \<in> set (starts (length (dp_points s)) ps)"
    using p by (intro starts_mem) (auto simp: rd_nat split: if_splits)
  have n: "x \<noteq> fakeInfinity" "x \<noteq> - fakeInfinity" "y \<noteq> fakeInfinity" "y \<noteq> - fakeInfinity"
    using assms(1) by (auto simp: point_at_def)
  show ?thesis unfolding scan_def
  proof (rule fold_reaches [OF j, where Inv = "scan_ok Q" and P = "\<lambda>e. covers (fst e) x \<and> covers (snd e) y"])
    show "scan_ok Q (no_extent, no_extent)" by (rule scan_start)
    show "covers (fst (scan_point fmt ps (dp_points s) j e)) x \<and> covers (snd (scan_point fmt ps (dp_points s) j e)) y"
      if "scan_ok Q e" for e
      using scan_point_covers [OF assms(4) that p(1) assms(3) p(3) n(1,2) p(4) n(3,4)] by blast
  qed (use scan_point_ok [OF assms(4)] scan_point_mono [where A = False and B = False] in auto)
qed


lemma second_pass_scan:
  "second_pass fmt s e = Some e' \<Longrightarrow> dp_pointsize s = Some ps \<Longrightarrow>
   (\<exists>xe ye. bar_room (sr_bars s) (scan fmt ps (dp_points s)) = (xe, ye) \<and>
     e' = update_y (axisNumber (sr_yaxis s)) (fst ye) (snd ye) (update_x (axisNumber (sr_xaxis s)) (fst xe) (snd xe) e))"
  by (auto simp: second_pass_def Let_def scan_def split: if_splits prod.splits)

text \<open>
  Bars of a series: a width that is not negative, and no bar that reaches the largest double.
\<close>

definition bars_ok :: "series \<Rightarrow> bool" where
  "bars_ok s \<longleftrightarrow> br_show (sr_bars s) \<longrightarrow>
     0 \<le> br_barWidth (sr_bars s) \<and>
     (\<forall>v. Some v \<in> set (dp_points s) \<longrightarrow>
        v = fakeInfinity \<or> v = - fakeInfinity \<or> \<bar>v\<bar> + br_barWidth (sr_bars s) < fakeInfinity)"

definition bar_value :: "series \<Rightarrow> real \<Rightarrow> bool" where
  "bar_value s v \<longleftrightarrow>
     (if br_show (sr_bars s) then \<bar>v\<bar> + br_barWidth (sr_bars s) < fakeInfinity
      else v \<noteq> fakeInfinity \<and> v \<noteq> - fakeInfinity)"

lemma bars_ok_ordinary: "bars_ok s \<Longrightarrow> list_all (ordinary (bar_value s)) (dp_points s)"
  by (auto simp: list_all_iff ordinary_def bars_ok_def bar_value_def)

lemma fakeInfinity_pos: "0 < fakeInfinity"
  by (simp add: fakeInfinity_def)

text \<open>An extent that updates an axis as it is.\<close>

definition usable :: "extent \<Rightarrow> bool" where
  "usable e \<longleftrightarrow> proper e \<and> fst e \<noteq> Some (Fin (- fakeInfinity)) \<and> snd e \<noteq> Some (Fin fakeInfinity)"

lemma usable_plain: "ranging (\<lambda>v. v \<noteq> fakeInfinity \<and> v \<noteq> - fakeInfinity) e \<Longrightarrow> usable e"
  by (auto simp: usable_def ranging_def)

lemma usable_room:
  assumes "ranging (\<lambda>v. \<bar>v\<bar> + w < fakeInfinity) e" "0 \<le> w" "w < fakeInfinity" "delta \<in> {0, - w / 2}"
  shows "usable (Some (jadd (bnum (fst e)) (Fin delta)), Some (jadd (bnum (snd e)) (Fin (delta + w))))"
proof -
  obtain lo hi where e: "e = (lo, hi)" by (cases e)
  have lo: "case bnum lo of PInf \<Rightarrow> True | Fin v \<Rightarrow> \<bar>v\<bar> + w < fakeInfinity | _ \<Rightarrow> False"
    and hi: "case bnum hi of NInf \<Rightarrow> True | Fin v \<Rightarrow> \<bar>v\<bar> + w < fakeInfinity | _ \<Rightarrow> False"
    using assms(1,3) by (auto simp: e ranging_def proper_def bnum_def split: option.splits jsnum.splits)
  show ?thesis
    using lo hi assms(2,4) by (auto simp: e usable_def proper_def bnum_def split: jsnum.splits option.splits)
qed

lemma room_covers:
  assumes "covers e v" "0 \<le> w" "delta \<in> {0, - w / 2}"
  shows "covers (Some (jadd (bnum (fst e)) (Fin delta)), Some (jadd (bnum (snd e)) (Fin (delta + w)))) v"
proof -
  have 1: "jle (jadd x (Fin d)) (Fin v)" if "jle x (Fin v)" "d \<le> 0" for x d
    using that by (cases x) (auto simp: jle_def jeq_def)
  have 2: "jle (Fin v) (jadd x (Fin d))" if "jle (Fin v) x" "0 \<le> d" for x d
    using that by (cases x) (auto simp: jle_def jeq_def)
  show ?thesis using assms 1 2 unfolding covers_def bnum_def [of "Some _"] by auto
qed

lemma bar_room_covers:
  assumes "bar_room (sr_bars s) e = (xe, ye)" "scan_ok (bar_value s) e" "bars_ok s"
    and "covers (fst e) x" "covers (snd e) y" "br_show (sr_bars s) \<Longrightarrow> br_barWidth (sr_bars s) < fakeInfinity"
  shows "covers xe x \<and> covers ye y \<and> usable xe \<and> usable ye"
proof (cases "br_show (sr_bars s)")
  case False
  then have "bar_value s = (\<lambda>v. v \<noteq> fakeInfinity \<and> v \<noteq> - fakeInfinity)" by (simp add: bar_value_def fun_eq_iff)
  then show ?thesis using False assms usable_plain by (auto simp: bar_room_def scan_ok_def)
next
  case True
  let ?w = "br_barWidth (sr_bars s)"
  define d where "d = (if br_left (sr_bars s) then 0 else - ?w / 2)"
  have d: "d \<in> {0, - ?w / 2}" "0 \<le> ?w" "?w < fakeInfinity"
    using True assms(3,6) by (simp_all add: d_def bars_ok_def)
  have v: "bar_value s = (\<lambda>v. \<bar>v\<bar> + ?w < fakeInfinity)" using True by (simp add: bar_value_def fun_eq_iff)
  have r: "ranging (\<lambda>v. \<bar>v\<bar> + ?w < fakeInfinity) (fst e)" "ranging (\<lambda>v. \<bar>v\<bar> + ?w < fakeInfinity) (snd e)"
    using assms(2) by (simp_all add: scan_ok_def v)
  have u: "usable (fst e)" "usable (snd e)"
    using r d(2) by (auto simp: usable_def ranging_def)
  show ?thesis
    using assms(1) True d_def [symmetric] u usable_room [OF r(1) d(2,3,1)] usable_room [OF r(2) d(2,3,1)]
      room_covers [OF assms(4) d(2,1)] room_covers [OF assms(5) d(2,1)] assms(4,5)
    by (cases "br_horizontal (sr_bars s)") (auto simp: bar_room_def Let_def)
qed


lemma room_proper:
  "proper e \<Longrightarrow> proper (Some (jadd (bnum (fst e)) (Fin d)), Some (jadd (bnum (snd e)) (Fin d')))"
  by (cases "bnum (fst e)"; cases "bnum (snd e)") (auto simp: proper_def)

lemma second_pass_proper:
  assumes "second_pass fmt s e = Some e'" "proper_extents e"
  shows "proper_extents e'"
proof -
  let ?ps = "case dp_pointsize s of None \<Rightarrow> 0 | Some n \<Rightarrow> n"
  have "scan_ok (\<lambda>_. True) (scan fmt ?ps (dp_points s))"
    by (rule scan_scan_ok) (simp add: list_all_iff ordinary_def)
  then have p: "proper (fst (scan fmt ?ps (dp_points s)))" "proper (snd (scan fmt ?ps (dp_points s)))"
    by (simp_all add: scan_ok_def ranging_def)
  obtain xe ye where b: "bar_room (sr_bars s) (scan fmt ?ps (dp_points s)) = (xe, ye)"
    by (meson surj_pair)
  then have "proper xe" "proper ye"
    using p room_proper [OF p(1)] room_proper [OF p(2)] by (auto simp: bar_room_def Let_def split: if_splits)
  then show ?thesis using assms b
    by (auto simp: second_pass_def Let_def scan_def [symmetric] split: if_splits intro!: proper_extents_update)
qed

definition covers_at :: "extents \<Rightarrow> series \<Rightarrow> real \<Rightarrow> real \<Rightarrow> bool" where
  "covers_at e s x y \<longleftrightarrow> covers (fst e (axisNumber (sr_xaxis s))) x \<and> covers (snd e (axisNumber (sr_yaxis s))) y"

lemma covers_at_update: "covers_at e s x y \<Longrightarrow> covers_at (update_y l mn' mx' (update_x k mn mx e)) s x y"
  by (auto simp: covers_at_def update_x_def update_y_def covers_updateAxis_mono)

lemma second_pass_mono: "second_pass fmt t e = Some e' \<Longrightarrow> covers_at e s x y \<Longrightarrow> covers_at e' s x y"
  by (auto simp: second_pass_def Let_def covers_at_update split: if_splits prod.splits)

lemma second_passes_mono: "second_passes fmt ts e = Some e' \<Longrightarrow> covers_at e s x y \<Longrightarrow> covers_at e' s x y"
  by (induction ts arbitrary: e) (auto split: option.splits dest: second_pass_mono)

lemma second_pass_covers:
  assumes "second_pass fmt s e = Some e'" "proper_extents e" "point_at s j x y" "bars_ok s" "xy_format fmt"
  shows "covers_at e' s x y"
proof -
  obtain ps where ps: "dp_pointsize s = Some ps" using assms(3) by (auto simp: point_at_def)
  obtain xe ye where r: "bar_room (sr_bars s) (scan fmt ps (dp_points s)) = (xe, ye)"
      "e' = update_y (axisNumber (sr_yaxis s)) (fst ye) (snd ye) (update_x (axisNumber (sr_xaxis s)) (fst xe) (snd xe) e)"
    using second_pass_scan [OF assms(1) ps] by blast
  note o = bars_ok_ordinary [OF assms(4)]
  have w: "br_show (sr_bars s) \<Longrightarrow> br_barWidth (sr_bars s) < fakeInfinity"
  proof -
    assume "br_show (sr_bars s)"
    moreover have "Some x \<in> set (dp_points s)" "x \<noteq> fakeInfinity" "x \<noteq> - fakeInfinity"
      using assms(3) by (auto simp: point_at_def dest: rd_set)
    ultimately have "\<bar>x\<bar> + br_barWidth (sr_bars s) < fakeInfinity"
      using assms(4) by (auto simp: bars_ok_def)
    then show ?thesis by linarith
  qed
  have c: "covers xe x \<and> covers ye y \<and> usable xe \<and> usable ye"
    using bar_room_covers [OF r(1) scan_scan_ok [OF o] assms(4) _ _ w] scan_covers [OF assms(3) ps assms(5) o] by blast
  show ?thesis using c assms(2) unfolding r(2) covers_at_def
    by (simp add: update_x_def update_y_def proper_extents_def usable_def covers_updateAxis)
qed

lemma second_passes_covers:
  assumes "second_passes fmt ts e = Some e'" "proper_extents e" "s \<in> set ts" "point_at s j x y" "bars_ok s" "xy_format fmt"
  shows "covers_at e' s x y"
  using assms(1-3)
proof (induction ts arbitrary: e)
  case (Cons t ts)
  then obtain e1 where e1: "second_pass fmt t e = Some e1" "second_passes fmt ts e1 = Some e'"
    by (auto split: option.splits)
  show ?case
  proof (cases "s = t")
    case True
    then show ?thesis
      using second_passes_mono [OF e1(2)] second_pass_covers [OF _ Cons.prems(2) assms(4-6)] e1(1) by blast
  next
    case False
    then show ?thesis
      using Cons.IH [OF e1(2) second_pass_proper [OF e1(1) Cons.prems(2)]] Cons.prems(3) by simp
  qed
qed simp

lemma proper_second_passes: "second_passes fmt ts e = Some e' \<Longrightarrow> proper_extents e \<Longrightarrow> proper_extents e'"
  by (induction ts arbitrary: e) (auto split: option.splits dest: second_pass_proper)

lemma covers_final:
  assumes "covers e v" "proper e"
  shows "num0 (final_bound (fst e)) \<le> v \<and> v \<le> num0 (final_bound (snd e))"
proof -
  obtain lo hi where e: "e = (lo, hi)" by (cases e)
  show ?thesis using assms unfolding e
    by (auto simp: covers_def proper_def final_bound_def bnum_def jle_def jeq_def split: option.splits jsnum.splits)
qed

lemma first_passes_last:
  assumes "\<forall>s \<in> set ss. dp_format s = None" "ss \<noteq> []"
  shows "xy_format (last_format (fst (first_passes ss eu)))"
  using assms
proof (induction ss arbitrary: eu)
  case (Cons s ss)
  obtain s' eu1 where 1: "first_pass s eu = (s', eu1)" by (meson surj_pair)
  obtain ss' eu2 where 2: "first_passes ss eu1 = (ss', eu2)" by (meson surj_pair)
  show ?case
  proof (cases "ss = []")
    case True
    have "dp_format s' = Some (default_format s)"
      using 1 Cons.prems(1) by (auto simp: first_pass_def Let_def split: if_splits prod.splits)
    then show ?thesis using True 1 default_format_xy by (simp add: last_format_def)
  next
    case False
    have "ss' \<noteq> []" using length_first_passes [of ss eu1] 2 False by (metis fst_conv length_0_conv)
    then show ?thesis using Cons.IH [of eu1] Cons.prems False 1 2 by (simp add: last_format_def)
  qed
qed simp

text \<open>
  C5. Whatever the plugins do to the stored points, the extents of the axes cover every finite
  point of every series, and with it the range \<open>setRange\<close> starts from: also for bars, whose width
  is added, and for any mixture of series on shared axes.
\<close>

theorem processData_covers:
  assumes "processData fuel [] hooks ss xs ys = Some (ss', xs', ys')" "axes_ok X xs" "axes_ok Y ys" "ss \<noteq> []"
    and "s \<in> set ss'" "point_at s j x y" "bars_ok s"
    and "axis_at xs' k = Some a" "axisNumber (sr_xaxis s) = Suc k"
    and "axis_at ys' l = Some b" "axisNumber (sr_yaxis s) = Suc l"
  shows "num0 (ax_datamin a) \<le> x \<and> x \<le> num0 (ax_datamax a) \<and> num0 (ax_datamin b) \<le> y \<and> y \<le> num0 (ax_datamax b)"
proof -
  let ?ss = "map reset ss"
  let ?e0 = "(\<lambda>_. no_extent, \<lambda>_. no_extent) :: extents"
  obtain ss2 e u where fp: "first_passes ?ss (?e0, []) = (ss2, e, u)" by (metis surj_pair)
  have raw: "hook_loop fuel [] 0 ?ss = None \<or> hook_loop fuel [] 0 ?ss = Some ?ss"
    using assms(1) hook_loop_raw by blast
  from assms(1) raw fp obtain e' where r: "second_passes (last_format ss2) ss' e = Some e'"
    "xs' = map (map_option (finish_axis e' u)) xs" "ys' = map (map_option (finish_axis e' u)) ys"
    by (auto simp: processData_def Let_def split: option.splits)
  have pe: "proper_extents e" using proper_first_passes [of "(?e0, [])" ?ss] by (simp add: fp proper_extents_def)
  have "xy_format (last_format ss2)"
    using first_passes_last [of ?ss "(?e0, [])"] assms(4) by (simp add: fp reset_def)
  then have c: "covers_at e' s x y" using second_passes_covers [OF r(1) pe assms(5-7)] by blast
  have pe': "proper_extents e'" using proper_second_passes [OF r(1) pe] .
  from assms(8) obtain a0 where "axis_at xs k = Some a0" "a = finish_axis e' u a0"
    by (auto simp: r(2) axis_at_def split: if_splits)
  then have "ax_datamin a = final_bound (fst (fst e' (Suc k)))" "ax_datamax a = final_bound (snd (fst e' (Suc k)))"
    using assms(2) by (auto simp: axes_okI finish_axis_def Let_def)
  moreover from assms(10) obtain b0 where "axis_at ys l = Some b0" "b = finish_axis e' u b0"
    by (auto simp: r(3) axis_at_def split: if_splits)
  then have "ax_datamin b = final_bound (fst (snd e' (Suc l)))" "ax_datamax b = final_bound (snd (snd e' (Suc l)))"
    using assms(3) by (auto simp: axes_okI finish_axis_def Let_def)
  ultimately show ?thesis
    using c pe' covers_final unfolding covers_at_def proper_extents_def assms(9,11) by metis
qed


definition demo_data :: series where
  "demo_data =
     demo_series\<lparr>sr_data := [Some [RNum (Fin 1), RNum (Fin 5)], None, Some [RNum (Fin 3), RNum (Fin 2)]]\<rparr>"

definition demo_columns :: "column list" where
  "demo_columns =
     [\<lparr>col_x = True, col_y = False, col_required = True, col_default = None\<rparr>,
      \<lparr>col_x = False, col_y = True, col_required = True, col_default = None\<rparr>]"

lemma demo_format: "default_format (reset demo_data) = demo_columns"
  by (simp add: demo_columns_def default_format_def demo_data_def demo_series_def shows_lines_def reset_def)

lemma demo_first_pass:
  "fst (first_pass (reset demo_data) eu)
    = demo_data\<lparr>dp_points := [Some 1, Some 5, None, None, Some 3, Some 2], dp_pointsize := Some 2,
        dp_format := Some demo_columns\<rparr>"
  by (simp add: first_pass_def Let_def demo_format case_prod_unfold)
    (simp add: demo_data_def demo_series_def shows_lines_def copy_point_def convert_point_def convert_def clean_def
      rd_def Let_def reset_def demo_columns_def)


lemma fakeInfinity_large: "1000 < fakeInfinity"
  by (simp add: fakeInfinity_def)

theorem processData_covers_witness:
  "\<exists>ss' xs' ys' a. processData 1 [] [] [demo_data] [Some (new_axis 1 X demo_options)] [Some (new_axis 1 Y demo_options)]
      = Some (ss', xs', ys') \<and> axis_at xs' 0 = Some a \<and> num0 (ax_datamin a) \<le> 1 \<and> 1 \<le> num0 (ax_datamax a)"
proof -
  let ?xs = "[Some (new_axis 1 X demo_options)]" let ?ys = "[Some (new_axis 1 Y demo_options)]"
  obtain e u where r: "processData 1 [] [] [demo_data] ?xs ?ys
    = Some ([fst (first_pass (reset demo_data) ((\<lambda>_. no_extent, \<lambda>_. no_extent), []))],
        map (map_option (finish_axis e u)) ?xs, map (map_option (finish_axis e u)) ?ys)"
    using processData_no_hooks [of "[demo_data]" 1 ?xs ?ys] by (auto simp: case_prod_unfold Let_def)
  let ?s = "fst (first_pass (reset demo_data) ((\<lambda>_. no_extent, \<lambda>_. no_extent), []))"
  have "point_at ?s 0 1 5" "bars_ok ?s" "axisNumber (sr_xaxis ?s) = Suc 0" "axisNumber (sr_yaxis ?s) = Suc 0"
    using fakeInfinity_large unfolding demo_first_pass
    by (simp_all add: point_at_def rd_def bars_ok_def demo_data_def demo_series_def axisNumber_def)
  then show ?thesis
    using processData_covers [OF r, of ?s 0 1 5 0 _ 0] r
    by (simp add: axes_ok_def new_axis_def axis_at_def)
qed


text \<open>
  The second pass reads every series with the format of the last one: a bar from 0 to 5 is counted
  with its foot when the last series has bars as well, and without it when it has plain lines.
\<close>

lemma last_format_decides:
  "scan (demo_columns @ [\<lparr>col_x = False, col_y = True, col_required = False, col_default = Some 0\<rparr>]) 3 [Some 1, Some 5, Some 0]
     = ((Some (Fin 1), Some (Fin 1)), (Some (Fin 0), Some (Fin 5)))"
  "scan demo_columns 3 [Some 1, Some 5, Some 0] = ((Some (Fin 1), Some (Fin 1)), (Some (Fin 5), Some (Fin 5)))"
proof -
  have ne: "1 \<noteq> fakeInfinity" "5 \<noteq> fakeInfinity" "0 \<noteq> fakeInfinity" "1 \<noteq> - fakeInfinity" "5 \<noteq> - fakeInfinity"
    "0 \<noteq> - fakeInfinity"
    using fakeInfinity_large by linarith+
  note [simp] = scan_def starts_def scan_point_def scan_cell_def rd_def demo_columns_def widen_def no_extent_def upt_rec
  show "scan (demo_columns @ [\<lparr>col_x = False, col_y = True, col_required = False, col_default = Some 0\<rparr>]) 3 [Some 1, Some 5, Some 0]
     = ((Some (Fin 1), Some (Fin 1)), (Some (Fin 0), Some (Fin 5)))" using ne by simp
  show "scan demo_columns 3 [Some 1, Some 5, Some 0] = ((Some (Fin 1), Some (Fin 1)), (Some (Fin 5), Some (Fin 5)))"
    using ne by simp
qed

text \<open>
  The first pass can leave an axis with one bound only: a point \<open>[null, -Infinity]\<close>, which is given up,
  sets the largest value and not the smallest one.
\<close>

lemma infinite_value_one_sided:
  "map_prod final_bound final_bound (updateAxis (Some (Fin (- fakeInfinity))) (Some (Fin (- fakeInfinity))) no_extent)
     = (None, Some (- fakeInfinity))"
  using fakeInfinity_pos by (simp add: updateAxis_def no_extent_def final_bound_def)

end
