(* ===== verification/Merge.thy ===== *)
theory Merge
  imports Datapoints
begin

text \<open>
  The loop that the plugins \<open>static/flot/jquery.flot.stack.js\<close> and
  \<open>static/flot/jquery.flot.fillbetween.js\<close> share: it runs along the points of a series and of a
  second series below it, keeps the points of the first, adds a point above every point of the
  second, and computes for each the value of the second series there.
\<close>

section \<open>The loop\<close>

text \<open>
  The variables that do not change in the loop. \<open>mg_key\<close> and \<open>mg_acc\<close> are the offsets of the
  abscissa and the ordinate in a point; \<open>mg_adds\<close> holds in the stack plugin, which adds the value
  below to the ordinate, and not in the other one, which leaves it alone.
\<close>

record merge =
  mg_ps :: nat
  mg_points :: "cell list"
  mg_otherps :: nat
  mg_other :: "cell list"
  mg_key :: nat
  mg_acc :: nat
  mg_lines :: bool
  mg_bottom :: bool
  mg_steps :: bool
  mg_adds :: bool

text \<open>The variables that do: the two positions, the new points, and \<open>fromgap\<close>.\<close>

record merging =
  at_i :: nat
  at_j :: nat
  newpoints :: "cell list"
  fromgap :: bool

definition own :: "merge \<Rightarrow> nat \<Rightarrow> cell" where
  "own g i = rd (mg_points g) (int i)"

definition oth :: "merge \<Rightarrow> nat \<Rightarrow> cell" where
  "oth g j = rd (mg_other g) (int j)"

text \<open>\<open>newpoints[k] += v\<close>.\<close>

definition add_at :: "nat \<Rightarrow> real \<Rightarrow> cell list \<Rightarrow> cell list" where
  "add_at k v np = np[k := Some (num0 (rd np (int k)) + v)]"

text \<open>
  The line through \<open>(x1, y1)\<close> and \<open>(x0, y0)\<close> at \<open>x\<close>, as the code writes it. \<open>None\<close> stands for the
  division by zero of two points with one abscissa, whose result is not a finite number.
\<close>

definition interpolate :: "cell \<Rightarrow> cell \<Rightarrow> cell \<Rightarrow> cell \<Rightarrow> cell \<Rightarrow> real option" where
  "interpolate x1 y1 x0 y0 x =
     (if num0 x0 - num0 x1 = 0 then None
      else Some (num0 y1 + (num0 y0 - num0 y1) * (num0 x - num0 x1) / (num0 x0 - num0 x1)))"

text \<open>The value below, into the third column; \<open>l\<close> is the length before the round.\<close>

definition put_bottom :: "merge \<Rightarrow> nat \<Rightarrow> real \<Rightarrow> cell list \<Rightarrow> cell list" where
  "put_bottom g l bottom np =
     (if l \<noteq> length np \<and> mg_bottom g
      then (if mg_adds g then add_at (l + 2) bottom np else np[l + 2 := Some bottom]) else np)"

definition lift_point :: "merge \<Rightarrow> nat \<Rightarrow> real \<Rightarrow> cell list \<Rightarrow> cell list" where
  "lift_point g l v np = (if mg_adds g then add_at (l + mg_acc g) v np else np)"

text \<open>The case of two points: the series has one at \<open>i\<close>, the other series one at \<open>j\<close>.\<close>

definition merge_points :: "merge \<Rightarrow> merging \<Rightarrow> merging option" where
  "merge_points g st =
     (let i = at_i st; j = at_j st; np = newpoints st; l = length np; ps = mg_ps g; otherps = mg_otherps g;
          px = own g (i + mg_key g); py = own g (i + mg_acc g);
          qx = oth g (j + mg_key g); qy = oth g (j + mg_acc g)
      in if px = qx then
           Some \<lparr>at_i = i + ps, at_j = j + otherps,
                 newpoints = put_bottom g l (num0 qy) (lift_point g l (num0 qy) (np @ slice (mg_points g) i ps)),
                 fromgap = False\<rparr>
         else if num0 px > num0 qx then
           if mg_lines g \<and> i > 0 \<and> rd (mg_points g) (int i - int ps) \<noteq> None then
             (case interpolate px py (rd (mg_points g) (int i - int ps + int (mg_key g)))
                     (rd (mg_points g) (int i - int ps + int (mg_acc g))) qx of
                None \<Rightarrow> None
              | Some intery \<Rightarrow>
                  Some \<lparr>at_i = i, at_j = j + otherps,
                        newpoints = put_bottom g l (num0 qy)
                          (np @ [qx, Some (if mg_adds g then intery + num0 qy else intery)]
                              @ slice (mg_points g) (i + 2) (ps - 2)),
                        fromgap = False\<rparr>)
           else Some \<lparr>at_i = i, at_j = j + otherps, newpoints = np, fromgap = False\<rparr>
         else if fromgap st \<and> mg_lines g then Some (st\<lparr>at_i := i + ps\<rparr>)
         else if mg_lines g \<and> j > 0 \<and> rd (mg_other g) (int j - int otherps) \<noteq> None then
           map_option (\<lambda>bottom.
               \<lparr>at_i = i + ps, at_j = j,
                newpoints = put_bottom g l bottom (lift_point g l bottom (np @ slice (mg_points g) i ps)), fromgap = False\<rparr>)
             (interpolate qx qy (rd (mg_other g) (int j - int otherps + int (mg_key g)))
                (rd (mg_other g) (int j - int otherps + int (mg_acc g))) px)
         else
           Some \<lparr>at_i = i + ps, at_j = j,
                 newpoints = put_bottom g l 0 (lift_point g l 0 (np @ slice (mg_points g) i ps)), fromgap = False\<rparr>)"

text \<open>The extra point of a step line, after every round that has added a point.\<close>

definition keep_steps :: "merge \<Rightarrow> nat \<Rightarrow> cell list \<Rightarrow> cell list" where
  "keep_steps g l np =
     (let ps = mg_ps g
      in if mg_steps g \<and> l \<noteq> length np \<and> l > 0 \<and> rd np (int l) \<noteq> None
           \<and> rd np (int l) \<noteq> rd np (int l - int ps) \<and> rd np (int l + 1) \<noteq> rd np (int l - int ps + 1)
         then (np @ slice np l ps)[l + 1 := rd np (int l - int ps + 1)]
         else np)"

definition merge_round :: "merge \<Rightarrow> merging \<Rightarrow> merging option" where
  "merge_round g st =
     (let i = at_i st; j = at_j st; np = newpoints st; ps = mg_ps g
      in map_option (\<lambda>st'. st'\<lparr>newpoints := keep_steps g (length np) (newpoints st')\<rparr>)
           (if own g i = None then
              Some (st\<lparr>at_i := i + ps, newpoints := np @ slice (mg_points g) i ps\<rparr>)
            else if j \<ge> length (mg_other g) then
              Some (st\<lparr>at_i := i + ps, newpoints := (if mg_lines g then np else np @ slice (mg_points g) i ps)\<rparr>)
            else if oth g j = None then
              Some (st\<lparr>at_j := j + mg_otherps g, newpoints := np @ replicate ps None, fromgap := True\<rparr>)
            else merge_points g st))"

text \<open>
  The loop. Every round moves one of the positions on, so that as many rounds as the arrays have
  cells are enough; when a point size is 0 the code's loop runs forever, and the fuel runs out.
\<close>

fun merge_loop :: "nat \<Rightarrow> merge \<Rightarrow> merging \<Rightarrow> cell list option" where
  "merge_loop 0 g st = (if at_i st \<ge> length (mg_points g) then Some (newpoints st) else None)"
| "merge_loop (Suc fuel) g st =
     (if at_i st \<ge> length (mg_points g) then Some (newpoints st)
      else Option.bind (merge_round g st) (merge_loop fuel g))"

definition merged :: "merge \<Rightarrow> cell list option" where
  "merged g = merge_loop (length (mg_points g) + length (mg_other g)) g
     \<lparr>at_i = 0, at_j = 0, newpoints = [], fromgap = True\<rparr>"

section \<open>The loop ends\<close>

text \<open>
  The arrays of a merge: points of two or more columns, two neighbouring points with different
  abscissae wherever the code divides by the distance.
\<close>

definition spread :: "nat \<Rightarrow> nat \<Rightarrow> cell list \<Rightarrow> bool" where
  "spread ps key points \<longleftrightarrow>
     (\<forall>i < length points. ps dvd i \<and> rd points (int i) \<noteq> None \<and> rd points (int (i + ps)) \<noteq> None \<longrightarrow>
        num0 (rd points (int (i + key))) \<noteq> num0 (rd points (int (i + ps + key))))"

definition mergeable :: "merge \<Rightarrow> bool" where
  "mergeable g \<longleftrightarrow> 2 \<le> mg_ps g \<and> 2 \<le> mg_otherps g
     \<and> mg_ps g dvd length (mg_points g) \<and> mg_otherps g dvd length (mg_other g)
     \<and> {mg_key g, mg_acc g} = {0, 1} \<and> (mg_bottom g \<longrightarrow> 2 < mg_ps g)
     \<and> (mg_lines g \<longrightarrow> spread (mg_ps g) (mg_key g) (mg_points g) \<and> spread (mg_otherps g) (mg_key g) (mg_other g))"

text \<open>What the positions and the new points keep.\<close>

definition merging_ok :: "merge \<Rightarrow> merging \<Rightarrow> bool" where
  "merging_ok g st \<longleftrightarrow> mg_ps g dvd at_i st \<and> mg_otherps g dvd at_j st \<and> mg_ps g dvd length (newpoints st)"

definition rounds_left :: "merge \<Rightarrow> merging \<Rightarrow> nat" where
  "rounds_left g st = (length (mg_points g) - at_i st) + (length (mg_other g) - at_j st)"

lemma length_put_bottom [simp]: "length (put_bottom g l b np) = length np"
  by (simp add: put_bottom_def add_at_def)

lemma length_lift_point [simp]: "length (lift_point g l v np) = length np"
  by (simp add: lift_point_def add_at_def)

lemma length_keep_steps: "length (keep_steps g l np) \<in> {length np, length np + mg_ps g}"
  by (simp add: keep_steps_def Let_def)

text \<open>The point before a position that is not the first.\<close>

lemma previous:
  assumes "(ps :: nat) dvd i" "0 < i"
  obtains m where "i = m + ps" "ps dvd m"
proof
  have "ps \<le> i" using assms by (simp add: dvd_imp_le)
  then show "i = i - ps + ps" "ps dvd i - ps" using assms(1) by (simp_all add: dvd_diff_nat)
qed

lemma interpolate_defined:
  assumes "spread ps key points" "ps dvd i" "0 < i" "0 < ps" "i < length points"
    and "rd points (int i) \<noteq> None" "rd points (int i - int ps) \<noteq> None"
  shows "interpolate (rd points (int (i + key))) y (rd points (int i - int ps + int key)) y' x \<noteq> None"
proof -
  obtain m where m: "i = m + ps" "ps dvd m" by (rule previous [OF assms(2,3)])
  have "num0 (rd points (int (m + key))) \<noteq> num0 (rd points (int (m + ps + key)))"
    using assms(1) [unfolded spread_def, rule_format, of m] assms(4-7) m by simp
  then show ?thesis by (simp add: interpolate_def m(1))
qed

text \<open>A round on two points, when the other series has the smaller abscissa, and when this one has.\<close>

lemma points_above_ok:
  assumes "mergeable g" "merging_ok g st" "at_i st < length (mg_points g)" "at_j st < length (mg_other g)"
    and "own g (at_i st) \<noteq> None"
    and "own g (at_i st + mg_key g) \<noteq> oth g (at_j st + mg_key g)" "num0 (own g (at_i st + mg_key g)) > num0 (oth g (at_j st + mg_key g))"
  shows "\<exists>st'. merge_points g st = Some st' \<and> merging_ok g st' \<and> rounds_left g st' < rounds_left g st"
proof -
  have pos: "0 < mg_ps g" "0 < mg_otherps g" using assms(1) by (auto simp: mergeable_def)
  have len: "Suc (Suc (mg_ps g - 2)) = mg_ps g" using assms(1) unfolding mergeable_def by linarith
  let ?px = "own g (at_i st + mg_key g)" let ?prev = "rd (mg_points g) (int (at_i st) - int (mg_ps g))"
  let ?st' = "\<lambda>np. \<lparr>at_i = at_i st, at_j = at_j st + mg_otherps g, newpoints = np, fromgap = False\<rparr>"
  have st': "merging_ok g (?st' np) \<and> rounds_left g (?st' np) < rounds_left g st" if "mg_ps g dvd length np" for np
    using that assms(2-4) pos by (auto simp: merging_ok_def rounds_left_def)
  have dvd: "mg_ps g dvd length (newpoints st)" using assms(2) by (simp add: merging_ok_def)
  show ?thesis
  proof (cases "mg_lines g \<and> at_i st > 0 \<and> ?prev \<noteq> None")
    case True
    then have "interpolate ?px y (rd (mg_points g) (int (at_i st) - int (mg_ps g) + int (mg_key g))) y' x \<noteq> None" for y y' x
      unfolding own_def
      by (intro interpolate_defined) (use assms(1-5) pos in \<open>auto simp: mergeable_def merging_ok_def own_def\<close>)
    then obtain v where "interpolate ?px (own g (at_i st + mg_acc g))
        (rd (mg_points g) (int (at_i st) - int (mg_ps g) + int (mg_key g)))
        (rd (mg_points g) (int (at_i st) - int (mg_ps g) + int (mg_acc g))) (oth g (at_j st + mg_key g)) = Some v"
      by blast
    then show ?thesis using assms(6,7) True st' dvd by (simp add: merge_points_def Let_def len)
  next
    case False
    then show ?thesis using assms(6,7) st' [OF dvd] by (auto simp: merge_points_def Let_def)
  qed
qed

lemma points_below_ok:
  assumes "mergeable g" "merging_ok g st" "at_i st < length (mg_points g)" "at_j st < length (mg_other g)"
    and "oth g (at_j st) \<noteq> None"
    and "own g (at_i st + mg_key g) \<noteq> oth g (at_j st + mg_key g)" "\<not> num0 (own g (at_i st + mg_key g)) > num0 (oth g (at_j st + mg_key g))"
  shows "\<exists>st'. merge_points g st = Some st' \<and> merging_ok g st' \<and> rounds_left g st' < rounds_left g st"
proof -
  have pos: "0 < mg_ps g" "0 < mg_otherps g" using assms(1) by (auto simp: mergeable_def)
  let ?qx = "oth g (at_j st + mg_key g)" let ?prev = "rd (mg_other g) (int (at_j st) - int (mg_otherps g))"
  let ?st' = "\<lambda>np b. \<lparr>at_i = at_i st + mg_ps g, at_j = at_j st, newpoints = np, fromgap = b\<rparr>"
  have st': "merging_ok g (?st' np b) \<and> rounds_left g (?st' np b) < rounds_left g st" if "mg_ps g dvd length np" for np b
    using that assms(2-4) pos by (auto simp: merging_ok_def rounds_left_def)
  have dvd: "mg_ps g dvd length (newpoints st)" using assms(2) by (simp add: merging_ok_def)
  have skip: "merging_ok g (st\<lparr>at_i := at_i st + mg_ps g\<rparr>) \<and> rounds_left g (st\<lparr>at_i := at_i st + mg_ps g\<rparr>) < rounds_left g st"
    using assms(2-4) pos by (auto simp: merging_ok_def rounds_left_def)
  show ?thesis
  proof (cases "mg_lines g \<and> at_j st > 0 \<and> ?prev \<noteq> None")
    case True
    then have "interpolate ?qx y (rd (mg_other g) (int (at_j st) - int (mg_otherps g) + int (mg_key g))) y' x \<noteq> None" for y y' x
      unfolding oth_def
      by (intro interpolate_defined) (use assms(1-5) pos in \<open>auto simp: mergeable_def merging_ok_def oth_def\<close>)
    then obtain v where "interpolate ?qx (oth g (at_j st + mg_acc g))
        (rd (mg_other g) (int (at_j st) - int (mg_otherps g) + int (mg_key g)))
        (rd (mg_other g) (int (at_j st) - int (mg_otherps g) + int (mg_acc g))) (own g (at_i st + mg_key g)) = Some v"
      by blast
    then show ?thesis using assms(6,7) True st' dvd skip
      by (cases "fromgap st") (simp_all add: merge_points_def Let_def)
  next
    case False
    then show ?thesis using assms(6,7) st' dvd skip
      by (cases "fromgap st \<and> mg_lines g") (auto simp: merge_points_def Let_def)
  qed
qed

lemma merge_points_ok:
  assumes "mergeable g" "merging_ok g st" "at_i st < length (mg_points g)" "at_j st < length (mg_other g)"
    and "own g (at_i st) \<noteq> None" "oth g (at_j st) \<noteq> None"
  shows "\<exists>st'. merge_points g st = Some st' \<and> merging_ok g st' \<and> rounds_left g st' < rounds_left g st"
proof (cases "own g (at_i st + mg_key g) = oth g (at_j st + mg_key g)")
  case True
  moreover have "0 < mg_ps g" "0 < mg_otherps g" using assms(1) by (auto simp: mergeable_def)
  ultimately show ?thesis using assms(2-4)
    by (simp add: merge_points_def Let_def merging_ok_def rounds_left_def)
next
  case False
  then show ?thesis using points_above_ok [OF assms(1-5)] points_below_ok [OF assms(1-4,6)] by blast
qed

lemma keep_steps_dvd: "mg_ps g dvd length np \<Longrightarrow> mg_ps g dvd length (keep_steps g l np)"
  using length_keep_steps [of g l np] by auto

lemma merging_ok_steps: "merging_ok g st \<Longrightarrow> merging_ok g (st\<lparr>newpoints := keep_steps g l (newpoints st)\<rparr>)"
  by (simp add: merging_ok_def keep_steps_dvd)

lemma rounds_left_steps [simp]: "rounds_left g (st\<lparr>newpoints := np\<rparr>) = rounds_left g st"
  by (simp add: rounds_left_def)

lemma merge_round_ok:
  assumes "mergeable g" "merging_ok g st" "at_i st < length (mg_points g)"
  shows "\<exists>st'. merge_round g st = Some st' \<and> merging_ok g st' \<and> rounds_left g st' < rounds_left g st"
proof -
  have pos: "0 < mg_ps g" "0 < mg_otherps g" using assms(1) by (auto simp: mergeable_def)
  let ?r = "if own g (at_i st) = None then
              Some (st\<lparr>at_i := at_i st + mg_ps g, newpoints := newpoints st @ slice (mg_points g) (at_i st) (mg_ps g)\<rparr>)
            else if at_j st \<ge> length (mg_other g) then
              Some (st\<lparr>at_i := at_i st + mg_ps g,
                newpoints := (if mg_lines g then newpoints st else newpoints st @ slice (mg_points g) (at_i st) (mg_ps g))\<rparr>)
            else if oth g (at_j st) = None then
              Some (st\<lparr>at_j := at_j st + mg_otherps g, newpoints := newpoints st @ replicate (mg_ps g) None, fromgap := True\<rparr>)
            else merge_points g st"
  have "\<exists>st'. ?r = Some st' \<and> merging_ok g st' \<and> rounds_left g st' < rounds_left g st"
  proof (cases "own g (at_i st) \<noteq> None \<and> at_j st < length (mg_other g) \<and> oth g (at_j st) \<noteq> None")
    case True
    then show ?thesis using merge_points_ok [OF assms] by auto
  next
    case False
    then show ?thesis using assms(2,3) pos by (auto simp: merging_ok_def rounds_left_def)
  qed
  then obtain st' where "?r = Some st'" "merging_ok g st'" "rounds_left g st' < rounds_left g st" by blast
  then show ?thesis using merging_ok_steps
    by (simp only: merge_round_def Let_def option.map rounds_left_steps) auto
qed

lemma merge_loop_ok:
  assumes "mergeable g" "merging_ok g st" "rounds_left g st \<le> fuel"
  shows "\<exists>np. merge_loop fuel g st = Some np \<and> mg_ps g dvd length np"
  using assms(2,3)
proof (induction fuel arbitrary: st)
  case 0
  then show ?case by (auto simp: rounds_left_def merging_ok_def)
next
  case (Suc fuel)
  show ?case
  proof (cases "at_i st < length (mg_points g)")
    case True
    obtain st' where "merge_round g st = Some st'" "merging_ok g st'" "rounds_left g st' < rounds_left g st"
      using merge_round_ok [OF assms(1) Suc.prems(1) True] by blast
    then show ?thesis using Suc.IH [of st'] Suc.prems(2) True by auto
  next
    case False
    then show ?thesis using Suc.prems by (simp add: merging_ok_def)
  qed
qed

lemma merged_total: "mergeable g \<Longrightarrow> \<exists>np. merged g = Some np \<and> mg_ps g dvd length np"
  unfolding merged_def by (rule merge_loop_ok) (simp_all add: merging_ok_def rounds_left_def)


section \<open>The curves of the result\<close>

text \<open>The points of an array come in order, and each has its ordinate.\<close>

definition ascending :: "nat \<Rightarrow> cell list \<Rightarrow> bool" where
  "ascending ps points \<longleftrightarrow>
     (\<forall>j < length points. \<forall>i < j. ps dvd i \<and> ps dvd j \<and> rd points (int i) \<noteq> None \<and> rd points (int j) \<noteq> None \<longrightarrow>
        num0 (rd points (int i)) < num0 (rd points (int j)))"

definition plotted :: "nat \<Rightarrow> cell list \<Rightarrow> bool" where
  "plotted ps points \<longleftrightarrow> ps dvd length points
     \<and> (\<forall>i < length points. ps dvd i \<and> rd points (int i) \<noteq> None \<longrightarrow> rd points (int (i + 1)) \<noteq> None)"

text \<open>
  A position on the polyline of an array: one of its points, or between two neighbouring points on
  the line that joins them.
\<close>

definition on_curve :: "nat \<Rightarrow> cell list \<Rightarrow> real \<Rightarrow> real \<Rightarrow> bool" where
  "on_curve ps points x v \<longleftrightarrow>
     (\<exists>i < length points. ps dvd i \<and>
        ((rd points (int i) = Some x \<and> rd points (int (i + 1)) = Some v)
         \<or> (\<exists>x0 y0 x1 y1. rd points (int i) = Some x0 \<and> rd points (int (i + 1)) = Some y0
              \<and> rd points (int (i + ps)) = Some x1 \<and> rd points (int (i + ps + 1)) = Some y1
              \<and> x0 < x \<and> x < x1 \<and> v = y1 + (y0 - y1) * (x - x1) / (x0 - x1))))"

text \<open>What a point of the result is: \<open>c\<close> is its third column.\<close>

definition lifted :: "merge \<Rightarrow> real \<Rightarrow> real \<Rightarrow> cell \<Rightarrow> bool" where
  "lifted g x y c \<longleftrightarrow>
     (\<exists>f b. on_curve (mg_ps g) (mg_points g) x f \<and> on_curve (mg_otherps g) (mg_other g) x b
        \<and> y = (if mg_adds g then f + b else f) \<and> (mg_bottom g \<longrightarrow> c = Some b))"

definition lifted_block :: "merge \<Rightarrow> cell list \<Rightarrow> bool" where
  "lifted_block g b \<longleftrightarrow> rd b 0 = None \<or> (\<exists>x y. rd b 0 = Some x \<and> rd b 1 = Some y \<and> lifted g x y (rd b 2))"

definition lifted_points :: "merge \<Rightarrow> cell list \<Rightarrow> bool" where
  "lifted_points g np \<longleftrightarrow> mg_ps g dvd length np
     \<and> (\<forall>i < length np. mg_ps g dvd i \<longrightarrow> lifted_block g (take (mg_ps g) (drop i np)))"

lemma lifted_points_append:
  assumes "lifted_points g np" "length b = mg_ps g" "lifted_block g b" "0 < mg_ps g"
  shows "lifted_points g (np @ b)"
proof -
  have d: "mg_ps g dvd length np" using assms(1) by (simp add: lifted_points_def)
  have "lifted_block g (take (mg_ps g) (drop i (np @ b)))" if i: "i < length (np @ b)" "mg_ps g dvd i" for i
  proof -
    consider "i + mg_ps g \<le> length np" | "i = length np" using block_position [OF d i(2)] i(1) assms(2) by auto
    then show ?thesis
    proof cases
      case 1
      then have "i < length np" using assms(4) by linarith
      then show ?thesis using 1 assms(1) i(2) by (simp add: lifted_points_def)
    qed (use assms(2,3) in simp)
  qed
  then show ?thesis using d assms(2) by (simp add: lifted_points_def)
qed

text \<open>The merges the result is stated for: lines without steps, the abscissa first, feet at 0.\<close>

definition line_merge :: "merge \<Rightarrow> bool" where
  "line_merge g \<longleftrightarrow> mg_lines g \<and> \<not> mg_steps g \<and> mg_key g = 0 \<and> mg_acc g = 1 \<and> 2 \<le> mg_ps g \<and> 2 \<le> mg_otherps g
     \<and> (mg_bottom g \<longrightarrow> 2 < mg_ps g)
     \<and> ascending (mg_ps g) (mg_points g) \<and> plotted (mg_ps g) (mg_points g)
     \<and> ascending (mg_otherps g) (mg_other g) \<and> plotted (mg_otherps g) (mg_other g)
     \<and> (mg_bottom g \<and> mg_adds g \<longrightarrow>
          (\<forall>i < length (mg_points g). mg_ps g dvd i \<and> own g i \<noteq> None \<longrightarrow> own g (i + 2) = Some 0))"

lemma rd_in_range: "rd xs (int i) \<noteq> None \<Longrightarrow> i < length xs"
  by (auto simp: rd_nat split: if_splits)

lemma ascending_spread: "ascending ps points \<Longrightarrow> 0 < ps \<Longrightarrow> spread ps 0 points"
  unfolding spread_def
proof (intro allI impI)
  fix i
  assume a: "ascending ps points" "0 < ps" "i < length points"
    "ps dvd i \<and> rd points (int i) \<noteq> None \<and> rd points (int (i + ps)) \<noteq> None"
  then have "i + ps < length points" using rd_in_range by blast
  then have "num0 (rd points (int i)) < num0 (rd points (int (i + ps)))"
    using a unfolding ascending_def by (metis dvd_add dvd_refl less_add_same_cancel1)
  then show "num0 (rd points (int (i + 0))) \<noteq> num0 (rd points (int (i + ps + 0)))" by simp
qed

lemma line_merge_mergeable: "line_merge g \<Longrightarrow> mergeable g"
  by (auto simp: line_merge_def mergeable_def plotted_def intro!: ascending_spread)

text \<open>What the loop keeps about the places of its two positions.\<close>

definition behind :: "merge \<Rightarrow> merging \<Rightarrow> bool" where
  "behind g st \<longleftrightarrow>
     (\<not> fromgap st \<longrightarrow> (\<exists>m. at_j st = m + mg_otherps g \<and> mg_otherps g dvd m \<and> m < length (mg_other g)
          \<and> oth g m \<noteq> None \<and> (\<forall>i < length (mg_points g). at_i st \<le> i \<and> mg_ps g dvd i \<and> own g i \<noteq> None
               \<longrightarrow> num0 (oth g m) < num0 (own g i))))
     \<and> (\<forall>m j. at_i st = m + mg_ps g \<and> mg_ps g dvd m \<and> own g m \<noteq> None
          \<and> at_j st \<le> j \<and> j < length (mg_other g) \<and> mg_otherps g dvd j \<and> oth g j \<noteq> None
               \<longrightarrow> num0 (own g m) < num0 (oth g j))"

lemma ascending_le:
  "ascending ps points \<Longrightarrow> i \<le> j \<Longrightarrow> j < length points \<Longrightarrow> ps dvd i \<Longrightarrow> ps dvd j \<Longrightarrow>
   rd points (int i) \<noteq> None \<Longrightarrow> rd points (int j) \<noteq> None \<Longrightarrow> num0 (rd points (int i)) \<le> num0 (rd points (int j))"
  unfolding ascending_def by (metis le_neq_implies_less less_eq_real_def order_refl)


lemma ascending_less:
  "ascending ps points \<Longrightarrow> i < j \<Longrightarrow> j < length points \<Longrightarrow> ps dvd i \<Longrightarrow> ps dvd j \<Longrightarrow>
   rd points (int i) \<noteq> None \<Longrightarrow> rd points (int j) \<noteq> None \<Longrightarrow> num0 (rd points (int i)) < num0 (rd points (int j))"
  unfolding ascending_def by blast

text \<open>The invariant of the loop on such a merge.\<close>

definition merge_inv :: "merge \<Rightarrow> merging \<Rightarrow> bool" where
  "merge_inv g st \<longleftrightarrow> merging_ok g st \<and> behind g st \<and> lifted_points g (newpoints st)"

lemma line_mergeD:
  assumes "line_merge g"
  shows "mg_lines g" "\<not> mg_steps g" "mg_key g = 0" "mg_acc g = 1" "0 < mg_ps g" "0 < mg_otherps g" "2 \<le> mg_ps g"
    "ascending (mg_ps g) (mg_points g)" "ascending (mg_otherps g) (mg_other g)"
  using assms by (auto simp: line_merge_def)

lemma plotted_point:
  assumes "plotted ps points" "ps dvd i" "rd points (int i) \<noteq> None"
  obtains x y where "rd points (int i) = Some x" "rd points (int (i + 1)) = Some y"
proof -
  have "i < length points" by (rule rd_in_range [OF assms(3)])
  then have "rd points (int (i + 1)) \<noteq> None" using assms unfolding plotted_def by blast
  then show thesis using that assms(3) by blast
qed

lemma own_point:
  assumes "line_merge g" "mg_ps g dvd i" "own g i \<noteq> None"
  obtains x y where "own g i = Some x" "own g (i + 1) = Some y"
  using assms plotted_point [of "mg_ps g" "mg_points g" i] unfolding line_merge_def own_def by metis

lemma oth_point:
  assumes "line_merge g" "mg_otherps g dvd j" "oth g j \<noteq> None"
  obtains x y where "oth g j = Some x" "oth g (j + 1) = Some y"
  using assms plotted_point [of "mg_otherps g" "mg_other g" j] unfolding line_merge_def oth_def by metis

lemma lifted_gap: "rd b 0 = None \<Longrightarrow> lifted_block g b"
  by (simp add: lifted_block_def)

text \<open>The block the three pushing branches add.\<close>

lemma slice_heads:
  "0 < ps \<Longrightarrow> rd (slice xs i ps) 0 = rd xs (int i)"
  "1 < ps \<Longrightarrow> rd (slice xs i ps) 1 = rd xs (int (i + 1))"
  "2 < ps \<Longrightarrow> rd (slice xs i ps) 2 = rd xs (int (i + 2))"
  by (simp_all add: rd_def [of "slice xs i ps"])

lemma raised_block:
  assumes "line_merge g" "own g i = Some x" "own g (i + 1) = Some y" "mg_ps g dvd i"
    and "on_curve (mg_ps g) (mg_points g) x y" "on_curve (mg_otherps g) (mg_other g) x b"
  shows "\<exists>bl. put_bottom g (length np) b (lift_point g (length np) b (np @ slice (mg_points g) i (mg_ps g))) = np @ bl
    \<and> length bl = mg_ps g \<and> lifted_block g bl"
proof -
  let ?ps = "mg_ps g" let ?s = "slice (mg_points g) i ?ps"
  have ps: "1 < ?ps" "mg_bottom g \<Longrightarrow> 2 < ?ps" "mg_acc g = 1" using assms(1) by (auto simp: line_merge_def)
  have foot: "mg_bottom g \<Longrightarrow> mg_adds g \<Longrightarrow> own g (i + 2) = Some 0"
    using assms(1,2,4) rd_in_range [of "mg_points g" i] by (auto simp: line_merge_def own_def)
  define b1 where "b1 = (if mg_adds g then ?s[1 := Some (y + b)] else ?s)"
  define b2 where "b2 = (if mg_bottom g then b1[2 := Some b] else b1)"
  have h: "rd ?s 0 = Some x" "rd ?s 1 = Some y" "mg_bottom g \<Longrightarrow> mg_adds g \<Longrightarrow> rd ?s 2 = Some 0"
    using ps slice_heads [of ?ps "mg_points g" i] assms(2,3) foot by (simp_all add: own_def)
  have l: "length b1 = ?ps" "length b2 = ?ps" by (simp_all add: b1_def b2_def)
  have b1: "lift_point g (length np) b (np @ ?s) = np @ b1"
    using h(2) ps(1,3) rd_append [of np ?s "length np + 1"]
    by (simp add: lift_point_def add_at_def b1_def list_update_append)
  have r1: "rd b1 0 = Some x" "rd b1 1 = Some (if mg_adds g then y + b else y)"
      "mg_bottom g \<Longrightarrow> mg_adds g \<Longrightarrow> rd b1 2 = Some 0"
    using h ps(1) by (simp_all add: b1_def rd_update)
  have b2: "put_bottom g (length np) b (np @ b1) = np @ b2"
    using r1(3) ps(1,2) l(1) rd_append [of np b1 "length np + 2"]
    by (auto simp: put_bottom_def add_at_def b2_def list_update_append)
  have r2: "rd b2 0 = Some x" "rd b2 1 = Some (if mg_adds g then y + b else y)" "mg_bottom g \<Longrightarrow> rd b2 2 = Some b"
    using r1 ps(2) l(1) by (simp_all add: b2_def rd_update)
  have "lifted_block g b2" unfolding lifted_block_def lifted_def using r2 assms(5,6) by auto
  then show ?thesis using b1 b2 l(2) by metis
qed

lemma inserted_block:
  assumes "line_merge g" "own g i \<noteq> None" "mg_ps g dvd i"
    and "on_curve (mg_ps g) (mg_points g) q f" "on_curve (mg_otherps g) (mg_other g) q b"
  shows "\<exists>bl. put_bottom g (length np) b
      (np @ [Some q, Some (if mg_adds g then f + b else f)] @ slice (mg_points g) (i + 2) (mg_ps g - 2)) = np @ bl
    \<and> length bl = mg_ps g \<and> lifted_block g bl"
proof -
  let ?ps = "mg_ps g"
  have ps: "2 \<le> ?ps" "mg_bottom g \<Longrightarrow> 2 < ?ps" using assms(1) by (auto simp: line_merge_def)
  have foot: "mg_bottom g \<Longrightarrow> mg_adds g \<Longrightarrow> own g (i + 2) = Some 0"
    using assms(1-3) rd_in_range [of "mg_points g" i] by (auto simp: line_merge_def own_def)
  define b1 where "b1 = [Some q, Some (if mg_adds g then f + b else f)] @ slice (mg_points g) (i + 2) (?ps - 2)"
  define b2 where "b2 = (if mg_bottom g then b1[2 := Some b] else b1)"
  have l: "length b1 = ?ps" "length b2 = ?ps" using ps(1) by (simp_all add: b1_def b2_def)
  have r1: "rd b1 0 = Some q" "rd b1 1 = Some (if mg_adds g then f + b else f)" by (simp_all add: b1_def rd_def)
  have r3: "rd b1 2 = Some 0" if "mg_bottom g" "mg_adds g"
  proof -
    have "rd b1 2 = rd (mg_points g) (int (i + 2))"
      using ps(2) [OF that(1)] rd_append [of "[Some q, Some (if mg_adds g then f + b else f)]" _ 2]
        slice_heads(1) [of "?ps - 2" "mg_points g" "i + 2"] by (simp add: b1_def)
    then show ?thesis using foot [OF that] by (simp add: own_def)
  qed
  have b2: "put_bottom g (length np) b (np @ b1) = np @ b2"
    using r3 ps l(1) rd_append [of np b1 "length np + 2"]
    by (auto simp: put_bottom_def add_at_def b2_def list_update_append)
  have r2: "rd b2 0 = Some q" "rd b2 1 = Some (if mg_adds g then f + b else f)" "mg_bottom g \<Longrightarrow> rd b2 2 = Some b"
    using r1 ps(2) l(1) by (simp_all add: b2_def rd_update)
  have "lifted_block g b2" unfolding lifted_block_def lifted_def using r2 assms(4,5) by auto
  then show ?thesis using b2 l(2) unfolding b1_def by blast
qed


lemma on_curve_point:
  "ps dvd i \<Longrightarrow> rd points (int i) = Some x \<Longrightarrow> rd points (int (i + 1)) = Some v \<Longrightarrow> on_curve ps points x v"
  unfolding on_curve_def using rd_in_range by blast

lemma on_curve_segment:
  assumes "ps dvd i" "rd points (int i) = Some x0" "rd points (int (i + 1)) = Some y0"
    and "rd points (int (i + ps)) = Some x1" "rd points (int (i + ps + 1)) = Some y1" "x0 < x" "x < x1"
    and "interpolate (Some x1) (Some y1) (Some x0) (Some y0) (Some x) = Some v"
  shows "on_curve ps points x v"
proof -
  have "i < length points" using assms(2) rd_in_range [of points i] by simp
  moreover have "v = y1 + (y0 - y1) * (x - x1) / (x0 - x1)"
    using assms(8) by (simp add: interpolate_def split: if_splits)
  ultimately show ?thesis unfolding on_curve_def using assms(1-7) by blast
qed

lemma lifted_append_ex:
  assumes "lifted_points g np" "0 < mg_ps g" "\<exists>bl. np' = np @ bl \<and> length bl = mg_ps g \<and> lifted_block g bl"
  shows "lifted_points g np'"
  using assms lifted_points_append by blast

text \<open>Both points have the same abscissa.\<close>

lemma merge_equal:
  assumes "line_merge g" "merge_inv g st" "own g (at_i st) = Some x" "oth g (at_j st) = Some x"
  shows "\<exists>st'. merge_points g st = Some st' \<and> behind g st' \<and> lifted_points g (newpoints st')"
proof -
  note D = line_mergeD [OF assms(1)]
  let ?i = "at_i st" let ?j = "at_j st"
  have dvd: "mg_ps g dvd ?i" "mg_otherps g dvd ?j" using assms(2) by (simp_all add: merge_inv_def merging_ok_def)
  obtain y where y: "own g (?i + 1) = Some y" using own_point [OF assms(1) dvd(1)] assms(3) by force
  obtain b where b: "oth g (?j + 1) = Some b" using oth_point [OF assms(1) dvd(2)] assms(4) by force
  have "on_curve (mg_ps g) (mg_points g) x y" "on_curve (mg_otherps g) (mg_other g) x b"
    using on_curve_point [OF dvd(1)] on_curve_point [OF dvd(2)] assms(3,4) y b by (simp_all add: own_def oth_def)
  note bl = raised_block [OF assms(1,3) y dvd(1) this]
  let ?np = "put_bottom g (length (newpoints st)) b
      (lift_point g (length (newpoints st)) b (newpoints st @ slice (mg_points g) ?i (mg_ps g)))"
  let ?st = "\<lparr>at_i = ?i + mg_ps g, at_j = ?j + mg_otherps g, newpoints = ?np, fromgap = False\<rparr>"
  have "merge_points g st = Some ?st" using D assms(3,4) b by (simp add: merge_points_def Let_def)
  moreover have "lifted_points g (newpoints ?st)"
    using lifted_append_ex [OF _ D(5) bl [of "newpoints st"]] assms(2) by (simp add: merge_inv_def)
  moreover have "behind g ?st"
  proof -
    have "x < num0 (own g i)" if "i < length (mg_points g)" "?i + mg_ps g \<le> i" "mg_ps g dvd i" "own g i \<noteq> None" for i
      using ascending_less [OF D(8), of ?i i] that dvd assms(3) D(5) by (simp add: own_def)
    moreover have "x < num0 (oth g j)" if "j < length (mg_other g)" "?j + mg_otherps g \<le> j" "mg_otherps g dvd j" "oth g j \<noteq> None" for j
      using ascending_less [OF D(9), of ?j j] that dvd assms(4) D(6) by (simp add: oth_def)
    moreover have "?j < length (mg_other g)" using assms(4) rd_in_range [of "mg_other g" ?j] by (simp add: oth_def)
    ultimately show ?thesis using dvd assms(3,4) unfolding behind_def by auto
  qed
  ultimately show ?thesis by blast
qed

text \<open>What is kept when the other series moves on past a point, and when this one does.\<close>

lemma behind_other:
  assumes "line_merge g" "merge_inv g st" "own g (at_i st) = Some x" "oth g (at_j st) = Some q" "q < x"
  shows "behind g \<lparr>at_i = at_i st, at_j = at_j st + mg_otherps g, newpoints = np, fromgap = False\<rparr>"
proof -
  note D = line_mergeD [OF assms(1)]
  let ?i = "at_i st" let ?j = "at_j st"
  have dvd: "mg_ps g dvd ?i" "mg_otherps g dvd ?j" using assms(2) by (simp_all add: merge_inv_def merging_ok_def)
  have len: "?j < length (mg_other g)" using assms(4) rd_in_range [of "mg_other g" ?j] by (simp add: oth_def)
  have "q < num0 (own g i)" if "i < length (mg_points g)" "?i \<le> i" "mg_ps g dvd i" "own g i \<noteq> None" for i
    using ascending_le [OF D(8), of ?i i] that dvd assms(3,5) by (simp add: own_def)
  moreover have "num0 (own g m) < num0 (oth g j)"
    if "?i = m + mg_ps g" "mg_ps g dvd m" "own g m \<noteq> None" "?j + mg_otherps g \<le> j" "j < length (mg_other g)"
      "mg_otherps g dvd j" "oth g j \<noteq> None" for m j
  proof -
    have "?j \<le> j" using that(4) by linarith
    then show ?thesis using assms(2) that unfolding merge_inv_def behind_def by blast
  qed
  ultimately show ?thesis using dvd len assms(4) unfolding behind_def by auto
qed

lemma behind_own:
  assumes "line_merge g" "merge_inv g st" "own g (at_i st) = Some x" "oth g (at_j st) = Some q" "x < q"
  shows "behind g (st\<lparr>at_i := at_i st + mg_ps g, newpoints := np\<rparr>)"
proof -
  note D = line_mergeD [OF assms(1)]
  let ?i = "at_i st" let ?j = "at_j st"
  have dvd: "mg_ps g dvd ?i" "mg_otherps g dvd ?j" using assms(2) by (simp_all add: merge_inv_def merging_ok_def)
  have bh: "behind g st" using assms(2) by (simp add: merge_inv_def)
  have 1: "num0 (own g ?i) < num0 (oth g j)" if "?j \<le> j" "j < length (mg_other g)" "mg_otherps g dvd j" "oth g j \<noteq> None" for j
    using ascending_le [OF D(9), of ?j j] that dvd assms(3-5) by (simp add: oth_def)
  have 2: "?i \<le> i" if "?i + mg_ps g \<le> i" for i using that by linarith
  show ?thesis
  proof (cases "fromgap st")
    case True
    then show ?thesis using 1 unfolding behind_def by auto
  next
    case False
    obtain m where "?j = m + mg_otherps g" "mg_otherps g dvd m" "m < length (mg_other g)" "oth g m \<noteq> None"
      "\<forall>i < length (mg_points g). ?i \<le> i \<and> mg_ps g dvd i \<and> own g i \<noteq> None \<longrightarrow> num0 (oth g m) < num0 (own g i)"
      using bh [unfolded behind_def, THEN conjunct1, THEN mp, OF False] by blast
    then have m: "\<exists>m. ?j = m + mg_otherps g \<and> mg_otherps g dvd m \<and> m < length (mg_other g) \<and> oth g m \<noteq> None
        \<and> (\<forall>i < length (mg_points g). ?i + mg_ps g \<le> i \<and> mg_ps g dvd i \<and> own g i \<noteq> None \<longrightarrow> num0 (oth g m) < num0 (own g i))"
      using 2 by blast
    show ?thesis unfolding behind_def
    proof (intro conjI impI)
      show "\<forall>m j. at_i (st\<lparr>at_i := ?i + mg_ps g, newpoints := np\<rparr>) = m + mg_ps g \<and> mg_ps g dvd m \<and> own g m \<noteq> None
          \<and> at_j (st\<lparr>at_i := ?i + mg_ps g, newpoints := np\<rparr>) \<le> j \<and> j < length (mg_other g) \<and> mg_otherps g dvd j
          \<and> oth g j \<noteq> None \<longrightarrow> num0 (own g m) < num0 (oth g j)"
        using 1 by simp
    qed (use m in simp)
  qed
qed

text \<open>The other series has a point before the next of this one: a point is interpolated.\<close>

lemma merge_above:
  assumes "line_merge g" "merge_inv g st" "own g (at_i st) = Some x" "oth g (at_j st) = Some q" "q < x"
  shows "\<exists>st'. merge_points g st = Some st' \<and> behind g st' \<and> lifted_points g (newpoints st')"
proof -
  note D = line_mergeD [OF assms(1)]
  let ?i = "at_i st" let ?j = "at_j st"
  have dvd: "mg_ps g dvd ?i" "mg_otherps g dvd ?j" using assms(2) by (simp_all add: merge_inv_def merging_ok_def)
  have len: "?j < length (mg_other g)" "?i < length (mg_points g)"
    using assms(3,4) rd_in_range [of "mg_other g" ?j] rd_in_range [of "mg_points g" ?i] by (simp_all add: oth_def own_def)
  obtain y where y: "own g (?i + 1) = Some y" using own_point [OF assms(1) dvd(1)] assms(3) by force
  obtain b where b: "oth g (?j + 1) = Some b" using oth_point [OF assms(1) dvd(2)] assms(4) by force
  note later = behind_other [OF assms]
  show ?thesis
  proof (cases "?i > 0 \<and> rd (mg_points g) (int ?i - int (mg_ps g)) \<noteq> None")
    case False
    then show ?thesis using D assms(2-5) later by (auto simp: merge_points_def Let_def merge_inv_def)
  next
    case True
    then obtain m where m: "?i = m + mg_ps g" "mg_ps g dvd m" using previous [OF dvd(1)] by blast
    have im: "int ?i - int (mg_ps g) = int m" using m(1) by simp
    then have "own g m \<noteq> None" using True by (simp add: own_def)
    then obtain x0 y0 where p: "own g m = Some x0" "own g (m + 1) = Some y0" using own_point [OF assms(1) m(2)] by blast
    have x0: "x0 < q"
      using assms(2) m p dvd(2) len(1) assms(4) unfolding merge_inv_def behind_def by fastforce
    define f where "f = y + (y0 - y) * (q - x) / (x0 - x)"
    have f: "interpolate (Some x) (Some y) (Some x0) (Some y0) (Some q) = Some f"
      using x0 assms(5) by (simp add: interpolate_def f_def)
    have "on_curve (mg_ps g) (mg_points g) q f"
      using on_curve_segment [OF m(2) _ _ _ _ x0 assms(5) f] p m(1) assms(3) y by (simp add: own_def)
    moreover have "on_curve (mg_otherps g) (mg_other g) q b"
      using on_curve_point [OF dvd(2)] assms(4) b by (simp add: oth_def)
    moreover have "own g ?i \<noteq> None" using assms(3) by simp
    ultimately have bl: "\<exists>bl. put_bottom g (length (newpoints st)) b
      (newpoints st @ [Some q, Some (if mg_adds g then f + b else f)] @ slice (mg_points g) (?i + 2) (mg_ps g - 2)) = newpoints st @ bl
      \<and> length bl = mg_ps g \<and> lifted_block g bl"
      using inserted_block [OF assms(1) _ dvd(1)] by blast
    have pi: "rd (mg_points g) (int ?i - int (mg_ps g)) = Some x0" "rd (mg_points g) (int ?i - int (mg_ps g) + 1) = Some y0"
      using p by (simp_all add: im own_def add.commute)
    have "merge_points g st = Some \<lparr>at_i = ?i, at_j = ?j + mg_otherps g, newpoints = put_bottom g (length (newpoints st)) b
      (newpoints st @ [Some q, Some (if mg_adds g then f + b else f)] @ slice (mg_points g) (?i + 2) (mg_ps g - 2)), fromgap = False\<rparr>"
      using D(1,3,4) True assms(3-5) y b pi f by (simp add: merge_points_def Let_def)
    then show ?thesis using later lifted_append_ex [OF _ D(5) bl] assms(2) by (auto simp: merge_inv_def)
  qed
qed


text \<open>This series has a point before the next of the other one.\<close>

lemma merge_below:
  assumes "line_merge g" "merge_inv g st" "own g (at_i st) = Some x" "oth g (at_j st) = Some q" "x < q"
  shows "\<exists>st'. merge_points g st = Some st' \<and> behind g st' \<and> lifted_points g (newpoints st')"
proof -
  note D = line_mergeD [OF assms(1)]
  let ?i = "at_i st" let ?j = "at_j st"
  have dvd: "mg_ps g dvd ?i" "mg_otherps g dvd ?j" using assms(2) by (simp_all add: merge_inv_def merging_ok_def)
  have bh: "behind g st" and lp: "lifted_points g (newpoints st)" using assms(2) by (simp_all add: merge_inv_def)
  note later = behind_own [OF assms]
  show ?thesis
  proof (cases "fromgap st")
    case True
    have "st\<lparr>at_i := ?i + mg_ps g\<rparr> = st\<lparr>at_i := ?i + mg_ps g, newpoints := newpoints st\<rparr>" by simp
    then show ?thesis using True D assms(3-5) later [of "newpoints st"] lp by (simp add: merge_points_def Let_def)
  next
    case False
    obtain y where y: "own g (?i + 1) = Some y" using own_point [OF assms(1) dvd(1)] assms(3) by force
    obtain b1 where b1: "oth g (?j + 1) = Some b1" using oth_point [OF assms(1) dvd(2)] assms(4) by force
    have "?i < length (mg_points g)" using assms(3) rd_in_range [of "mg_points g" ?i] by (simp add: own_def)
    then obtain m where m: "?j = m + mg_otherps g" "mg_otherps g dvd m" "oth g m \<noteq> None" "num0 (oth g m) < x"
      using bh False dvd(1) assms(3) unfolding behind_def by fastforce
    obtain q0 b0 where p: "oth g m = Some q0" "oth g (m + 1) = Some b0" using oth_point [OF assms(1) m(2,3)] by blast
    define b where "b = b1 + (b0 - b1) * (x - q) / (q0 - q)"
    have q0: "q0 < x" using m(4) p by simp
    have f: "interpolate (Some q) (Some b1) (Some q0) (Some b0) (Some x) = Some b"
      using q0 assms(5) by (simp add: interpolate_def b_def)
    have jm: "int ?j - int (mg_otherps g) = int m" using m(1) by simp
    have "on_curve (mg_otherps g) (mg_other g) x b"
      using on_curve_segment [OF m(2) _ _ _ _ q0 assms(5) f] p m(1) assms(4) b1 by (simp add: oth_def)
    moreover have "on_curve (mg_ps g) (mg_points g) x y"
      using on_curve_point [OF dvd(1)] assms(3) y by (simp add: own_def)
    ultimately have bl: "\<exists>bl. put_bottom g (length (newpoints st)) b
        (lift_point g (length (newpoints st)) b (newpoints st @ slice (mg_points g) ?i (mg_ps g))) = newpoints st @ bl
      \<and> length bl = mg_ps g \<and> lifted_block g bl"
      using raised_block [OF assms(1,3) y dvd(1)] by blast
    have pj: "rd (mg_other g) (int ?j - int (mg_otherps g)) = Some q0" "rd (mg_other g) (int ?j - int (mg_otherps g) + 1) = Some b0"
      using p by (simp_all add: jm oth_def add.commute)
    have j0: "0 < ?j" using m(1) D(6) by simp
    let ?np = "put_bottom g (length (newpoints st)) b
        (lift_point g (length (newpoints st)) b (newpoints st @ slice (mg_points g) ?i (mg_ps g)))"
    have "merge_points g st = Some \<lparr>at_i = ?i + mg_ps g, at_j = ?j, newpoints = ?np, fromgap = False\<rparr>"
      using D(1,3,4) False assms(3-5) y b1 pj f j0 by (simp add: merge_points_def Let_def)
    moreover have "\<lparr>at_i = ?i + mg_ps g, at_j = ?j, newpoints = ?np, fromgap = False\<rparr> = st\<lparr>at_i := ?i + mg_ps g, newpoints := ?np\<rparr>"
      using False by simp
    ultimately show ?thesis using later lifted_append_ex [OF lp D(5) bl] by auto
  qed
qed

text \<open>A round at a gap of this series, at a gap of the other one, or after its end.\<close>

lemma merge_round_gap:
  assumes "line_merge g" "merge_inv g st" "merge_round g st = Some st'"
    and "own g (at_i st) = None \<or> at_j st \<ge> length (mg_other g) \<or> oth g (at_j st) = None"
  shows "behind g st' \<and> lifted_points g (newpoints st')"
proof -
  note D = line_mergeD [OF assms(1)]
  let ?i = "at_i st" let ?j = "at_j st"
  have bh: "behind g st" and lp: "lifted_points g (newpoints st)" using assms(2) by (simp_all add: merge_inv_def)
  have keep: "keep_steps g l np = np" for l np using D(2) by (simp add: keep_steps_def)
  consider (own) "own g ?i = None" | (finished) "own g ?i \<noteq> None" "?j \<ge> length (mg_other g)"
    | (other) "own g ?i \<noteq> None" "?j < length (mg_other g)" "oth g ?j = None"
    using assms(4) by linarith
  then show ?thesis
  proof cases
    case own
    then have "st' = st\<lparr>at_i := ?i + mg_ps g, newpoints := newpoints st @ slice (mg_points g) ?i (mg_ps g)\<rparr>"
      using assms(3) by (simp add: merge_round_def Let_def keep)
    moreover have "lifted_points g (newpoints st @ slice (mg_points g) ?i (mg_ps g))"
      using own D(5,7) slice_heads(1) [of "mg_ps g" "mg_points g" ?i] lp
      by (intro lifted_points_append lifted_gap) (simp_all add: own_def)
    moreover have "behind g (st\<lparr>at_i := ?i + mg_ps g, newpoints := np\<rparr>)" for np
      using bh own D(5) unfolding behind_def by fastforce
    ultimately show ?thesis by simp
  next
    case finished
    then obtain x where "own g ?i = Some x" by blast
    then have "st' = st\<lparr>at_i := ?i + mg_ps g\<rparr>" using finished(2) assms(3) D(1) by (simp add: merge_round_def Let_def keep)
    moreover have "behind g (st\<lparr>at_i := ?i + mg_ps g\<rparr>)" using bh finished(2) unfolding behind_def by fastforce
    ultimately show ?thesis using lp by simp
  next
    case other
    then obtain x where "own g ?i = Some x" by blast
    then have s: "st' = st\<lparr>at_j := ?j + mg_otherps g, newpoints := newpoints st @ replicate (mg_ps g) None, fromgap := True\<rparr>"
      using other(2,3) assms(3) by (simp add: merge_round_def Let_def keep)
    have "?j \<le> j" if "?j + mg_otherps g \<le> j" for j using that by linarith
    then have "behind g (st\<lparr>at_j := ?j + mg_otherps g, newpoints := np, fromgap := True\<rparr>)" for np
      using bh unfolding behind_def by simp
    moreover have "lifted_points g (newpoints st @ replicate (mg_ps g) None)"
      using D(5,7) lp by (intro lifted_points_append lifted_gap) (simp_all add: rd_def)
    ultimately show ?thesis using s by simp
  qed
qed

lemma merge_round_inv:
  assumes "line_merge g" "merge_inv g st" "at_i st < length (mg_points g)"
  shows "\<exists>st'. merge_round g st = Some st' \<and> merge_inv g st' \<and> rounds_left g st' < rounds_left g st"
proof -
  let ?i = "at_i st" let ?j = "at_j st"
  obtain st' where st': "merge_round g st = Some st'" "merging_ok g st'" "rounds_left g st' < rounds_left g st"
    using merge_round_ok [OF line_merge_mergeable [OF assms(1)] _ assms(3)] assms(2) by (auto simp: merge_inv_def)
  have "behind g st' \<and> lifted_points g (newpoints st')"
  proof (cases "own g ?i = None \<or> ?j \<ge> length (mg_other g) \<or> oth g ?j = None")
    case True
    then show ?thesis by (rule merge_round_gap [OF assms(1,2) st'(1)])
  next
    case False
    then have "own g ?i \<noteq> None" "oth g ?j \<noteq> None" by simp_all
    then obtain x q where x: "own g ?i = Some x" and q: "oth g ?j = Some q" by blast
    have "\<exists>st'. merge_points g st = Some st' \<and> behind g st' \<and> lifted_points g (newpoints st')"
      using merge_equal [OF assms(1,2) x] merge_above [OF assms(1,2) x q] merge_below [OF assms(1,2) x q] q
      by (cases "x < q"; cases "q < x") auto
    moreover have "keep_steps g l np = np" for l np using line_mergeD(2) [OF assms(1)] by (simp add: keep_steps_def)
    moreover have "st''\<lparr>newpoints := newpoints st''\<rparr> = st''" for st'' :: merging by simp
    ultimately show ?thesis using st'(1) x q False by (auto simp: merge_round_def Let_def)
  qed
  then show ?thesis using st' by (simp add: merge_inv_def)
qed

lemma merge_loop_lifted:
  assumes "line_merge g" "merge_inv g st" "rounds_left g st \<le> fuel"
  shows "\<exists>np. merge_loop fuel g st = Some np \<and> lifted_points g np"
  using assms(2,3)
proof (induction fuel arbitrary: st)
  case 0
  then show ?case by (auto simp: rounds_left_def merge_inv_def)
next
  case (Suc fuel)
  show ?case
  proof (cases "at_i st < length (mg_points g)")
    case True
    obtain st' where "merge_round g st = Some st'" "merge_inv g st'" "rounds_left g st' < rounds_left g st"
      using merge_round_inv [OF assms(1) Suc.prems(1) True] by blast
    then show ?thesis using Suc.IH [of st'] Suc.prems(2) True by auto
  next
    case False
    then show ?thesis using Suc.prems by (simp add: merge_inv_def)
  qed
qed

lemma merged_lifted:
  assumes "line_merge g"
  shows "\<exists>np. merged g = Some np \<and> lifted_points g np"
  unfolding merged_def
proof (rule merge_loop_lifted [OF assms])
  have "behind g \<lparr>at_i = 0, at_j = 0, newpoints = [], fromgap = True\<rparr>"
    using line_mergeD(5) [OF assms] by (simp add: behind_def)
  then show "merge_inv g \<lparr>at_i = 0, at_j = 0, newpoints = [], fromgap = True\<rparr>"
    by (simp add: merge_inv_def merging_ok_def lifted_points_def)
qed (simp add: rounds_left_def)


text \<open>The points of such a result, spelt out.\<close>

lemma lifted_pointsD:
  assumes "lifted_points g np" "2 \<le> mg_ps g" "mg_bottom g \<Longrightarrow> 2 < mg_ps g"
    and "i < length np" "mg_ps g dvd i" "rd np (int i) \<noteq> None"
  shows "\<exists>x f b. rd np (int i) = Some x
    \<and> on_curve (mg_ps g) (mg_points g) x f \<and> on_curve (mg_otherps g) (mg_other g) x b
    \<and> rd np (int (i + 1)) = Some (if mg_adds g then f + b else f) \<and> (mg_bottom g \<longrightarrow> rd np (int (i + 2)) = Some b)"
proof -
  let ?b = "take (mg_ps g) (drop i np)"
  have len: "i + mg_ps g \<le> length np"
  proof -
    obtain a c where "length np = mg_ps g * a" "i = mg_ps g * c"
      using assms(1,5) by (auto simp: lifted_points_def elim!: dvdE)
    then have "mg_ps g * c < mg_ps g * a" using assms(4) by simp
    then have "mg_ps g * (c + 1) \<le> mg_ps g * a" using assms(2) by (intro mult_le_mono2) simp
    then show ?thesis using \<open>length np = mg_ps g * a\<close> \<open>i = mg_ps g * c\<close> by simp
  qed
  have r: "rd ?b (int k) = rd np (int (i + k))" if "k < mg_ps g" for k
    using that len unfolding rd_nat by simp
  have heads: "rd ?b 0 = rd np (int i)" "rd ?b 1 = rd np (int (i + 1))" "mg_bottom g \<Longrightarrow> rd ?b 2 = rd np (int (i + 2))"
    using r [of 0] r [of 1] r [of 2] assms(2,3) by simp_all
  have "lifted_block g ?b" using assms(1,4,5) by (simp add: lifted_points_def)
  then obtain x f b where "rd np (int i) = Some x" "on_curve (mg_ps g) (mg_points g) x f"
      "on_curve (mg_otherps g) (mg_other g) x b"
      "rd np (int (i + 1)) = Some (if mg_adds g then f + b else f)" "mg_bottom g \<longrightarrow> rd ?b 2 = Some b"
    using heads(1,2) assms(6) unfolding lifted_block_def lifted_def by auto
  then show ?thesis using heads(3) by (intro exI [of _ x] exI [of _ f] exI [of _ b]) simp
qed

section \<open>Series as the plugins see them\<close>

text \<open>
  The loose equality \<open>==\<close> on option values. Two objects are compared by identity; the options
  compared here are \<open>null\<close>, numbers and text, and an object equals nothing.
\<close>

definition loose_eq :: "raw \<Rightarrow> raw \<Rightarrow> bool" where
  "loose_eq a b =
     (case (a, b) of
        (RNull, RNull) \<Rightarrow> True
      | (RNull, _) \<Rightarrow> False
      | (_, RNull) \<Rightarrow> False
      | (RObject _, _) \<Rightarrow> False
      | (_, RObject _) \<Rightarrow> False
      | (RStr s, RStr t) \<Rightarrow> s = t
      | _ \<Rightarrow> jeq (to_number a) (to_number b))"

definition pointsize :: "series \<Rightarrow> nat" where
  "pointsize s = (case dp_pointsize s of None \<Rightarrow> 0 | Some n \<Rightarrow> n)"

text \<open>
  A column of the format of a series; \<open>None\<close> is the error of reading a property of a column
  that is not there.
\<close>

definition column_at :: "series \<Rightarrow> nat \<Rightarrow> column option" where
  "column_at s m = (case dp_format s of None \<Rightarrow> None | Some fmt \<Rightarrow> if m < length fmt then Some (fmt ! m) else None)"

text \<open>The state of a plot of bars and points before a data plugin runs.\<close>

definition aligned :: "series \<Rightarrow> bool" where
  "aligned s \<longleftrightarrow> 2 \<le> pointsize s \<and> pointsize s dvd length (dp_points s)
     \<and> (2 < pointsize s \<longrightarrow> column_at s 2 \<noteq> None)"

definition without_lines :: "series list \<Rightarrow> bool" where
  "without_lines ss \<longleftrightarrow> list_all (\<lambda>s. aligned s \<and> \<not> shows_lines s) ss"

lemma shows_lines_points [simp]: "shows_lines (s\<lparr>dp_points := np\<rparr>) = shows_lines s"
  by (simp add: shows_lines_def)

lemma aligned_points: "aligned s \<Longrightarrow> pointsize s dvd length np \<Longrightarrow> aligned (s\<lparr>dp_points := np\<rparr>)"
  by (simp add: aligned_def pointsize_def column_at_def)

lemma without_lines_update:
  assumes "without_lines ss" "i < length ss" "pointsize (ss ! i) dvd length np"
  shows "without_lines (ss[i := (ss ! i)\<lparr>dp_points := np\<rparr>])"
  using assms aligned_points [of "ss ! i" np]
  by (auto simp: without_lines_def list_all_length nth_list_update)

text \<open>Two points in two columns.\<close>

lemma two_points:
  "a < c \<Longrightarrow> ascending 2 [Some a, Some b, Some c, Some d]" "plotted 2 [Some a, Some b, Some c, Some d]"
proof -
  have four: "k = 0 \<or> k = 1 \<or> k = 2 \<or> k = 3" if "k < 4" for k :: nat using that by linarith
  have ij: "i = 0 \<and> j = 2" if "j < 4" "i < j" "even i" "even j" for i j :: nat
    using four [OF that(1)] four [of i] that by auto
  show "ascending 2 [Some a, Some b, Some c, Some d]" if ac: "a < c"
    unfolding ascending_def
  proof (intro allI impI)
    fix j i :: nat
    assume "j < length [Some a, Some b, Some c, Some d]" "i < j" and "2 dvd i \<and> 2 dvd j
      \<and> rd [Some a, Some b, Some c, Some d] (int i) \<noteq> None \<and> rd [Some a, Some b, Some c, Some d] (int j) \<noteq> None"
    then show "num0 (rd [Some a, Some b, Some c, Some d] (int i)) < num0 (rd [Some a, Some b, Some c, Some d] (int j))"
      using ij [of j i] ac by (simp add: rd_def)
  qed
  have "rd [Some a, Some b, Some c, Some d] (int (i + 1)) \<noteq> None" if "i < 4" "even i" for i
    using four [OF that(1)] that(2) by (auto simp: rd_def)
  then show "plotted 2 [Some a, Some b, Some c, Some d]" unfolding plotted_def by simp
qed

text \<open>
  What a plot relies on from a hook on the stored points: on series it is made for it returns, and
  leaves as many series, again of that form.
\<close>

locale datapoint_hook =
  fixes hook :: hook and fit :: "series list \<Rightarrow> bool"
  assumes hook_returns: "i < length ss \<Longrightarrow> fit ss \<Longrightarrow> \<exists>ss'. hook i ss = Some ss' \<and> length ss' = length ss \<and> fit ss'"
begin

lemma pass_returns:
  assumes "fit ss" "length ss \<le> fuel"
  shows "\<exists>ss'. hook_loop fuel [hook] 0 ss = Some ss' \<and> length ss' = length ss \<and> fit ss'"
proof (rule hook_loop_total [where P = fit])
  fix h i zs
  assume "h \<in> set [hook]" "i < length ss" "length zs = length ss \<and> fit zs"
  then show "\<exists>ss'. h i zs = Some ss' \<and> length ss' = length ss \<and> fit ss'" using hook_returns [of i zs] by simp
qed (use assms in auto)

end

end
