(* ===== verification/Stack_Plugin.thy ===== *)
theory Stack_Plugin
  imports Merge
begin

text \<open>
  The plugin \<open>static/flot/jquery.flot.stack.js\<close>: a series is put on top of the last series before it
  with the same \<open>stack\<close> key.
\<close>

section \<open>Stacking\<close>

fun findMatchingSeries :: "series \<Rightarrow> series list \<Rightarrow> series option \<Rightarrow> series option" where
  "findMatchingSeries s [] res = res"
| "findMatchingSeries s (t # ts) res =
     (if sr_ref s = sr_ref t then res
      else findMatchingSeries s ts (if loose_eq (sr_stack t) (sr_stack s) then Some t else res))"

text \<open>The variables of \<open>stackData\<close>; \<open>None\<close> when the format has no third column to look at.\<close>

definition stack_merge :: "series \<Rightarrow> series \<Rightarrow> merge option" where
  "stack_merge s other =
     (let ps = pointsize s; horizontal = br_horizontal (sr_bars s)
      in map_option (\<lambda>withbottom.
           \<lparr>mg_ps = ps, mg_points = dp_points s, mg_otherps = pointsize other, mg_other = dp_points other,
            mg_key = (if horizontal then 1 else 0), mg_acc = (if horizontal then 0 else 1),
            mg_lines = shows_lines s, mg_bottom = withbottom,
            mg_steps = (shows_lines s \<and> ln_steps (sr_lines s)), mg_adds = True\<rparr>)
         (if ps > 2 then map_option (\<lambda>c. if horizontal then col_x c else col_y c) (column_at s 2) else Some False))"

definition stackData :: hook where
  "stackData i ss =
     (let s = ss ! i
      in if sr_stack s = RNull then Some ss
         else case findMatchingSeries s ss None of
           None \<Rightarrow> Some ss
         | Some other \<Rightarrow>
             Option.bind (stack_merge s other) (\<lambda>g. map_option (\<lambda>np. ss[i := s\<lparr>dp_points := np\<rparr>]) (merged g)))"

section \<open>Correctness\<close>

lemma findMatchingSeries_set:
  "findMatchingSeries s ts res = Some t \<Longrightarrow> t \<in> set ts \<or> res = Some t"
  by (induction s ts res rule: findMatchingSeries.induct) (auto split: if_splits)

lemma stack_mergeable:
  assumes "aligned s" "aligned t" "\<not> shows_lines s"
  shows "\<exists>g. stack_merge s t = Some g \<and> mergeable g \<and> mg_ps g = pointsize s"
proof -
  let ?h = "br_horizontal (sr_bars s)"
  have keys: "{if ?h then 1 else 0, if ?h then 0 else 1} = {0, 1 :: nat}" by (cases ?h) auto
  obtain wb where wb: "(if pointsize s > 2 then map_option (\<lambda>c. if ?h then col_x c else col_y c) (column_at s 2) else Some False)
      = Some wb" "wb \<Longrightarrow> 2 < pointsize s"
    using assms(1) by (cases "2 < pointsize s") (auto simp: aligned_def)
  show ?thesis using assms wb keys by (simp add: stack_merge_def Let_def aligned_def mergeable_def)
qed

lemma stackData_returns:
  assumes "i < length ss" "without_lines ss"
  shows "\<exists>ss'. stackData i ss = Some ss' \<and> length ss' = length ss \<and> without_lines ss'"
proof (cases "sr_stack (ss ! i) = RNull \<or> findMatchingSeries (ss ! i) ss None = None")
  case True
  then show ?thesis using assms by (auto simp: stackData_def Let_def)
next
  case False
  then obtain t where t: "findMatchingSeries (ss ! i) ss None = Some t" by blast
  then have "t \<in> set ss" by (auto dest: findMatchingSeries_set)
  then have "aligned t" "aligned (ss ! i)" "\<not> shows_lines (ss ! i)"
    using assms by (auto simp: without_lines_def list_all_iff)
  then obtain g where g: "stack_merge (ss ! i) t = Some g" "mergeable g" "mg_ps g = pointsize (ss ! i)"
    using stack_mergeable by blast
  obtain np where "merged g = Some np" "mg_ps g dvd length np" using merged_total [OF g(2)] by blast
  then show ?thesis using False t g without_lines_update [OF assms(2,1)] by (auto simp: stackData_def Let_def)
qed

interpretation stack_hook: datapoint_hook stackData without_lines
  by unfold_locales (rule stackData_returns)

text \<open>
  C14. A line series in a stack ends as a curve that is the sum of its own polyline and the one it
  is put on, at every point of the result, whether the point is its own, one of the series below,
  or interpolated on either; the foot of a filled area is the curve below. The computation ends.
\<close>

theorem stack_adds_curves:
  assumes "i < length ss" "s = ss ! i" "sr_stack s \<noteq> RNull" "findMatchingSeries s ss None = Some other"
    and "stack_merge s other = Some g" "line_merge g"
  shows "\<exists>np. stackData i ss = Some (ss[i := s\<lparr>dp_points := np\<rparr>]) \<and> pointsize s dvd length np
    \<and> (\<forall>k < length np. pointsize s dvd k \<and> rd np (int k) \<noteq> None \<longrightarrow>
        (\<exists>x f b. rd np (int k) = Some x \<and> on_curve (pointsize s) (dp_points s) x f
           \<and> on_curve (pointsize other) (dp_points other) x b \<and> rd np (int (k + 1)) = Some (f + b)
           \<and> (mg_bottom g \<longrightarrow> rd np (int (k + 2)) = Some b)))"
proof -
  obtain np where np: "merged g = Some np" "lifted_points g np" using merged_lifted [OF assms(6)] by blast
  have g: "mg_ps g = pointsize s" "mg_points g = dp_points s" "mg_otherps g = pointsize other"
    "mg_other g = dp_points other" "mg_adds g"
    using assms(5) by (auto simp: stack_merge_def Let_def split: if_splits)
  have ps: "2 \<le> mg_ps g" "mg_bottom g \<Longrightarrow> 2 < mg_ps g" using assms(6) by (auto simp: line_merge_def)
  have "stackData i ss = Some (ss[i := s\<lparr>dp_points := np\<rparr>])"
    using assms(1-5) np(1) by (simp add: stackData_def Let_def)
  moreover have "pointsize s dvd length np" using np(2) g(1) by (simp add: lifted_points_def)
  ultimately show ?thesis using lifted_pointsD [OF np(2) ps, unfolded g] g(5) by (intro exI [of _ np]) simp
qed

text \<open>
  A plot of any number of bar or point series, stacked on one another under any keys, is
  always completed: no series is lost and every one keeps a whole number of points.
\<close>

lemma stacking_completes:
  assumes "without_lines ss" "length ss \<le> fuel"
  shows "\<exists>ss'. hook_loop fuel [stackData] 0 ss = Some ss' \<and> length ss' = length ss \<and> without_lines ss'"
  using assms by (rule stack_hook.pass_returns)


definition demo_stack :: "series list" where
  "demo_stack =
     [demo_series\<lparr>sr_stack := RNum (Fin 1), dp_points := [Some 1, Some 10, Some 4, Some 20], dp_pointsize := Some 2\<rparr>,
      demo_series\<lparr>sr_ref := 1, sr_stack := RNum (Fin 1), dp_points := [Some 2, Some 5, Some 3, Some 6], dp_pointsize := Some 2,
        sr_lines := (sr_lines demo_series)\<lparr>ln_show := Some True\<rparr>\<rparr>]"

theorem stack_adds_curves_witness:
  "\<exists>np. stackData 1 demo_stack = Some (demo_stack[1 := (demo_stack ! 1)\<lparr>dp_points := np\<rparr>]) \<and> 2 dvd length np"
proof -
  let ?s = "demo_stack ! 1" let ?t = "demo_stack ! 0"
  obtain g where g: "stack_merge ?s ?t = Some g" "line_merge g"
    by (simp add: stack_merge_def demo_stack_def demo_series_def pointsize_def shows_lines_def line_merge_def two_points)
  have "findMatchingSeries ?s demo_stack None = Some ?t"
    by (simp add: demo_stack_def demo_series_def loose_eq_def)
  then show ?thesis
    using stack_adds_curves [OF _ refl _ _ g] by (auto simp: demo_stack_def demo_series_def pointsize_def)
qed

end
