(* ===== verification/FillBetween_Plugin.thy ===== *)
theory FillBetween_Plugin
  imports Merge
begin

text \<open>
  The plugin \<open>static/flot/jquery.flot.fillbetween.js\<close>: the area of a series is filled down to another
  series, named by its identifier or its place.
\<close>

section \<open>Filling between series\<close>

definition findBottomSeries :: "series \<Rightarrow> series list \<Rightarrow> series option" where
  "findBottomSeries s ss =
     (case find (\<lambda>t. loose_eq (sr_userid t) (sr_fillBetween s)) ss of
        Some t \<Rightarrow> Some t
      | None \<Rightarrow>
          (case sr_fillBetween s of
             RNum (Fin x) \<Rightarrow>
               if x < 0 \<or> x \<ge> real (length ss) then None
               else if of_int \<lfloor>x\<rfloor> = x then Some (ss ! nat \<lfloor>x\<rfloor>) else None
           | _ \<Rightarrow> None))"

definition fill_merge :: "series \<Rightarrow> series \<Rightarrow> merge option" where
  "fill_merge s other =
     (let ps = pointsize s
      in map_option (\<lambda>withbottom.
           \<lparr>mg_ps = ps, mg_points = dp_points s, mg_otherps = pointsize other, mg_other = dp_points other,
            mg_key = 0, mg_acc = 1, mg_lines = shows_lines s, mg_bottom = withbottom,
            mg_steps = (shows_lines s \<and> ln_steps (sr_lines s)), mg_adds = False\<rparr>)
         (if ps > 2 then map_option col_y (column_at s 2) else Some False))"

definition computeFillBottoms :: hook where
  "computeFillBottoms i ss =
     (let s = ss ! i
      in if sr_fillBetween s = RNull then Some ss
         else case findBottomSeries s ss of
           None \<Rightarrow> Some ss
         | Some other \<Rightarrow>
             Option.bind (fill_merge s other) (\<lambda>g. map_option (\<lambda>np. ss[i := s\<lparr>dp_points := np\<rparr>]) (merged g)))"

section \<open>Correctness\<close>

lemma findBottomSeries_set: "findBottomSeries s ss = Some t \<Longrightarrow> t \<in> set ss"
proof (cases "find (\<lambda>t. loose_eq (sr_userid t) (sr_fillBetween s)) ss")
  case (Some u)
  then have "u \<in> set ss" by (metis find_Some_iff nth_mem)
  moreover assume "findBottomSeries s ss = Some t"
  ultimately show ?thesis using Some by (simp add: findBottomSeries_def)
next
  case None
  assume "findBottomSeries s ss = Some t"
  then obtain n where n: "0 \<le> n" "real_of_int n < real (length ss)" "t = ss ! nat n"
    using None by (auto simp: findBottomSeries_def not_le not_less split: raw.splits jsnum.splits if_splits)
  then have "nat n < length ss" by linarith
  then show ?thesis using n(3) by simp
qed

lemma fill_mergeable:
  assumes "aligned s" "aligned t" "\<not> shows_lines s"
  shows "\<exists>g. fill_merge s t = Some g \<and> mergeable g \<and> mg_ps g = pointsize s"
proof -
  obtain wb where wb: "(if pointsize s > 2 then map_option col_y (column_at s 2) else Some False) = Some wb"
      "wb \<Longrightarrow> 2 < pointsize s"
    using assms(1) by (cases "2 < pointsize s") (auto simp: aligned_def)
  then show ?thesis using assms by (simp add: fill_merge_def Let_def aligned_def mergeable_def)
qed

lemma computeFillBottoms_returns:
  assumes "i < length ss" "without_lines ss"
  shows "\<exists>ss'. computeFillBottoms i ss = Some ss' \<and> length ss' = length ss \<and> without_lines ss'"
proof (cases "sr_fillBetween (ss ! i) = RNull \<or> findBottomSeries (ss ! i) ss = None")
  case True
  then show ?thesis using assms by (auto simp: computeFillBottoms_def Let_def)
next
  case False
  then obtain t where t: "findBottomSeries (ss ! i) ss = Some t" by blast
  then have "t \<in> set ss" by (rule findBottomSeries_set)
  then have "aligned t" "aligned (ss ! i)" "\<not> shows_lines (ss ! i)"
    using assms by (auto simp: without_lines_def list_all_iff)
  then obtain g where g: "fill_merge (ss ! i) t = Some g" "mergeable g" "mg_ps g = pointsize (ss ! i)"
    using fill_mergeable by blast
  obtain np where "merged g = Some np" "mg_ps g dvd length np" using merged_total [OF g(2)] by blast
  then show ?thesis using False t g without_lines_update [OF assms(2,1)] by (auto simp: computeFillBottoms_def Let_def)
qed

interpretation fill_hook: datapoint_hook computeFillBottoms without_lines
  by unfold_locales (rule computeFillBottoms_returns)

text \<open>
  C28. A line series that is filled down to another one keeps its own curve: every point of the
  result lies on its polyline, and the foot stored with it lies on the polyline of the other
  series at the same abscissa. The computation ends.
\<close>

theorem fill_between_curves:
  assumes "i < length ss" "s = ss ! i" "sr_fillBetween s \<noteq> RNull" "findBottomSeries s ss = Some other"
    and "fill_merge s other = Some g" "line_merge g"
  shows "\<exists>np. computeFillBottoms i ss = Some (ss[i := s\<lparr>dp_points := np\<rparr>]) \<and> pointsize s dvd length np
    \<and> (\<forall>k < length np. pointsize s dvd k \<and> rd np (int k) \<noteq> None \<longrightarrow>
        (\<exists>x f b. rd np (int k) = Some x \<and> on_curve (pointsize s) (dp_points s) x f
           \<and> on_curve (pointsize other) (dp_points other) x b \<and> rd np (int (k + 1)) = Some f
           \<and> (mg_bottom g \<longrightarrow> rd np (int (k + 2)) = Some b)))"
proof -
  obtain np where np: "merged g = Some np" "lifted_points g np" using merged_lifted [OF assms(6)] by blast
  have g: "mg_ps g = pointsize s" "mg_points g = dp_points s" "mg_otherps g = pointsize other"
    "mg_other g = dp_points other" "\<not> mg_adds g"
    using assms(5) by (auto simp: fill_merge_def Let_def split: if_splits)
  have ps: "2 \<le> mg_ps g" "mg_bottom g \<Longrightarrow> 2 < mg_ps g" using assms(6) by (auto simp: line_merge_def)
  have "computeFillBottoms i ss = Some (ss[i := s\<lparr>dp_points := np\<rparr>])"
    using assms(1-5) np(1) by (simp add: computeFillBottoms_def Let_def)
  moreover have "pointsize s dvd length np" using np(2) g(1) by (simp add: lifted_points_def)
  ultimately show ?thesis using lifted_pointsD [OF np(2) ps, unfolded g] g(5) by (intro exI [of _ np]) simp
qed

definition demo_band :: "series list" where
  "demo_band =
     [demo_series\<lparr>dp_points := [Some 1, Some 10, Some 4, Some 20], dp_pointsize := Some 2\<rparr>,
      demo_series\<lparr>sr_ref := 1, sr_fillBetween := RNum (Fin 0), dp_points := [Some 2, Some 5, Some 3, Some 6],
        dp_pointsize := Some 2, sr_lines := (sr_lines demo_series)\<lparr>ln_show := Some True\<rparr>\<rparr>]"

theorem fill_between_curves_witness:
  "\<exists>np. computeFillBottoms 1 demo_band = Some (demo_band[1 := (demo_band ! 1)\<lparr>dp_points := np\<rparr>]) \<and> 2 dvd length np"
proof -
  let ?s = "demo_band ! 1" let ?t = "demo_band ! 0"
  obtain g where g: "fill_merge ?s ?t = Some g" "line_merge g"
    by (simp add: fill_merge_def demo_band_def demo_series_def pointsize_def shows_lines_def line_merge_def two_points)
  have "findBottomSeries ?s demo_band = Some ?t"
    by (simp add: demo_band_def demo_series_def loose_eq_def findBottomSeries_def)
  then show ?thesis
    using fill_between_curves [OF _ refl _ _ g] by (auto simp: demo_band_def demo_series_def pointsize_def)
qed

end
