(* ===== verification/Threshold_Plugin.thy ===== *)
theory Threshold_Plugin
  imports Merge
begin

text \<open>
  The plugin \<open>static/flot/jquery.flot.threshold.js\<close>: the part of a series below a value is moved to a
  second series with another colour, which is appended to the series of the plot.
\<close>

section \<open>Splitting a series\<close>

text \<open>
  The two arrays that are filled, and which of them \<open>p\<close> refers to: \<open>Some True\<close> for
  \<open>threspoints\<close>, \<open>Some False\<close> for \<open>newpoints\<close>, \<open>None\<close> before the first round.
\<close>

record splitting =
  threspoints :: "cell list"
  keptpoints :: "cell list"
  into :: "bool option"

definition push :: "bool \<Rightarrow> cell list \<Rightarrow> splitting \<Rightarrow> splitting" where
  "push b cs st =
     (if b then st\<lparr>threspoints := threspoints st @ cs\<rparr> else st\<lparr>keptpoints := keptpoints st @ cs\<rparr>)"

text \<open>
  One round of the loop. \<open>None\<close> stands for a crossing point that is not a finite number: the line
  to the last point is level.
\<close>

definition threshold_round :: "real \<Rightarrow> bool \<Rightarrow> nat \<Rightarrow> cell list \<Rightarrow> nat \<Rightarrow> splitting \<Rightarrow> splitting option" where
  "threshold_round below addCrossingPoints ps origpoints i st =
     (let x = rd origpoints (int i); y = rd origpoints (int (i + 1));
          x0 = rd origpoints (int i - int ps); y0 = rd origpoints (int i - int ps + 1);
          lo = (num0 y < below); rest = slice origpoints (i + 2) (ps - 2)
      in map_option (\<lambda>st'. push lo [x, y] (st'\<lparr>into := Some lo\<rparr>))
           (if addCrossingPoints \<and> into st \<noteq> Some lo \<and> x \<noteq> None \<and> i > 0 \<and> x0 \<noteq> None then
              (case into st of
                 None \<Rightarrow> None
               | Some prev \<Rightarrow>
                   if num0 y - num0 y0 = 0 then None
                   else
                     let interx = Some ((num0 x - num0 x0) / (num0 y - num0 y0) * (below - num0 y) + num0 x)
                     in Some (push lo ([None, None] @ rest @ [interx, Some below] @ rest)
                               (push prev ([interx, Some below] @ rest) st)))
            else Some st))"

fun threshold_loop :: "nat \<Rightarrow> real \<Rightarrow> bool \<Rightarrow> nat \<Rightarrow> cell list \<Rightarrow> nat \<Rightarrow> splitting \<Rightarrow> splitting option" where
  "threshold_loop 0 below crossings ps points i st = Some st"
| "threshold_loop (Suc n) below crossings ps points i st =
     Option.bind (threshold_round below crossings ps points i st) (threshold_loop n below crossings ps points (i + ps))"

text \<open>The whole of the loop; with a point size of 0 it does not end on a series with points.\<close>

definition split_points :: "real \<Rightarrow> bool \<Rightarrow> nat \<Rightarrow> cell list \<Rightarrow> splitting option" where
  "split_points below crossings ps points =
     (if ps = 0 \<and> points \<noteq> [] then None
      else threshold_loop ((length points + ps - 1) div ps) below crossings ps points 0
             \<lparr>threspoints = [], keptpoints = [], into = None\<rparr>)"

text \<open>The identity of a new object.\<close>

definition fresh_ref :: "series list \<Rightarrow> nat" where
  "fresh_ref ss = Suc (fold (\<lambda>s n. max n (sr_ref s)) ss 0)"

definition thresholdData :: hook where
  "thresholdData i ss =
     (let s = ss ! i
      in case sr_threshold s of
           None \<Rightarrow> Some ss
         | Some (below, color) \<Rightarrow>
             map_option (\<lambda>st.
               let thresholded = s\<lparr>sr_ref := fresh_ref ss, sr_label := None,
                     sr_color := (case color of None \<Rightarrow> NoColor | Some t \<Rightarrow> ColorText t),
                     sr_threshold := None, sr_data := [], dp_points := threspoints st, dp_format := None\<rparr>
               in ss[i := s\<lparr>dp_points := keptpoints st\<rparr>] @ (if threspoints st = [] then [] else [thresholded]))
             (split_points below (shows_lines s) (pointsize s) (dp_points s)))"

section \<open>Correctness\<close>

text \<open>The points of an array of two columns, gaps left aside.\<close>

fun all_pairs :: "(real \<Rightarrow> real \<Rightarrow> bool) \<Rightarrow> cell list \<Rightarrow> bool" where
  "all_pairs P [] \<longleftrightarrow> True"
| "all_pairs P [x] \<longleftrightarrow> False"
| "all_pairs P (x # y # r) \<longleftrightarrow> (\<forall>v. x = Some v \<longrightarrow> P v (num0 y)) \<and> all_pairs P r"

lemma all_pairs_append: "all_pairs P a \<Longrightarrow> all_pairs P (a @ b) = all_pairs P b"
  by (induction P a rule: all_pairs.induct) auto

lemma all_pairs_even: "all_pairs P a \<Longrightarrow> even (length a)"
  by (induction P a rule: all_pairs.induct) auto

text \<open>What the two arrays hold.\<close>

definition split_ok :: "real \<Rightarrow> cell list \<Rightarrow> splitting \<Rightarrow> bool" where
  "split_ok below points st \<longleftrightarrow>
     all_pairs (\<lambda>x y. y \<ge> below \<and> on_curve 2 points x y) (keptpoints st)
     \<and> all_pairs (\<lambda>x y. y \<le> below \<and> on_curve 2 points x y) (threspoints st)"

lemma push_ok:
  assumes "split_ok below points st"
    and "b \<Longrightarrow> all_pairs (\<lambda>x y. y \<le> below \<and> on_curve 2 points x y) cs"
    and "\<not> b \<Longrightarrow> all_pairs (\<lambda>x y. y \<ge> below \<and> on_curve 2 points x y) cs"
  shows "split_ok below points (push b cs st)"
  using assms by (auto simp: split_ok_def push_def all_pairs_append)

text \<open>Where a line meets a level between its ends.\<close>

lemma crossing:
  fixes x0 y0 x y below :: real
  assumes "x0 < x" "(y < below) \<noteq> (y0 < below)"
  defines "c \<equiv> (x - x0) / (y - y0) * (below - y) + x"
  shows "(c = x0 \<and> below = y0) \<or> (c = x \<and> below = y)
    \<or> (x0 < c \<and> c < x \<and> below = y + (y0 - y) * (c - x) / (x0 - x))"
proof -
  have d: "y - y0 \<noteq> 0" using assms(2) by auto
  define t where "t = (below - y) / (y - y0)"
  have c: "c = x + (x - x0) * t" by (simp add: c_def t_def field_simps)
  have eq: "below = y + (y0 - y) * (c - x) / (x0 - x)"
  proof -
    have "(y0 - y) * (c - x) / (x0 - x) = (y - y0) * t"
      using assms(1) by (simp add: c field_simps)
    then show ?thesis using d by (simp add: t_def)
  qed
  have t: "- 1 \<le> t \<and> t \<le> 0"
    using assms(2) by (auto simp: t_def field_simps divide_simps)
  consider "t = - 1" | "t = 0" | "- 1 < t" "t < 0" using t by linarith
  then show ?thesis
  proof cases
    case 1
    then have "below - y = - (y - y0)" using d by (simp add: t_def field_simps)
    then show ?thesis using 1 by (simp add: c)
  next
    case 2
    then have "below = y" using d by (simp add: t_def)
    then show ?thesis using 2 by (simp add: c)
  next
    case 3
    have "(x - x0) * t < 0" using 3 assms(1) by (simp add: mult_pos_neg)
    moreover have "(x - x0) * (- 1) < (x - x0) * t" using 3 assms(1) by (intro mult_strict_left_mono) auto
    ultimately show ?thesis using eq by (simp add: c)
  qed
qed


text \<open>The state before the round at \<open>i\<close>.\<close>

definition at_round :: "real \<Rightarrow> cell list \<Rightarrow> nat \<Rightarrow> splitting \<Rightarrow> bool" where
  "at_round below points i st \<longleftrightarrow> split_ok below points st \<and>
     into st = (if i = 0 then None else Some (num0 (rd points (int i - 1)) < below))"

lemma split_ok_into [simp]: "split_ok below points (st\<lparr>into := b\<rparr>) = split_ok below points st"
  by (simp add: split_ok_def)

lemma into_push [simp]: "into (push b cs st) = into st"
  by (simp add: push_def)

lemma crossing_on_curve:
  assumes "ascending 2 points" "plotted 2 points" "even i" "0 < i" "rd points (int i) = Some x" "rd points (int i - 2) = Some x0"
    and "(num0 (rd points (int i + 1)) < below) \<noteq> (num0 (rd points (int i - 1)) < below)"
  shows "on_curve 2 points
    ((x - x0) / (num0 (rd points (int i + 1)) - num0 (rd points (int i - 1))) * (below - num0 (rd points (int i + 1))) + x) below"
proof -
  obtain m where m: "i = m + 2" "2 dvd m" using previous [of 2 i] assms(3,4) by blast
  have im: "int i - 2 = int m" "int i - 1 = int (m + 1)" "int i + 1 = int (m + 2 + 1)" using m(1) by simp_all
  obtain y where y: "rd points (int (m + 2 + 1)) = Some y"
    using plotted_point [OF assms(2), of "m + 2"] m assms(5) by auto
  obtain y0 where y0: "rd points (int (m + 1)) = Some y0"
    using plotted_point [OF assms(2), of m] m(2) assms(6) unfolding im by auto
  have "m + 2 < length points" using rd_in_range [of points "m + 2"] assms(5) m(1) by simp
  then have lt: "x0 < x"
    using ascending_less [OF assms(1), of m "m + 2"] m assms(5,6) unfolding im by simp
  let ?c = "(x - x0) / (y - y0) * (below - y) + x"
  have ne: "(y < below) \<noteq> (y0 < below)" using assms(7) unfolding im y y0 by simp
  consider "?c = x0" "below = y0" | "?c = x" "below = y" | "x0 < ?c" "?c < x" "below = y + (y0 - y) * (?c - x) / (x0 - x)"
    using crossing [OF lt ne] by blast
  then have "on_curve 2 points ?c below"
  proof cases
    case 1
    have "on_curve 2 points x0 y0"
      using on_curve_point [OF m(2)] assms(6) y0 unfolding im by blast
    then show ?thesis using 1 by metis
  next
    case 2
    have "on_curve 2 points x y"
      using on_curve_point [of 2 "m + 2" points x y] m y assms(5) by simp
    then show ?thesis using 2 by metis
  next
    case 3
    have "interpolate (Some x) (Some y) (Some x0) (Some y0) (Some ?c) = Some below"
      using lt 3(3) by (simp add: interpolate_def)
    then show ?thesis
      using on_curve_segment [OF m(2) _ y0 _ y 3(1,2)] assms(5,6) m(1) unfolding im by simp
  qed
  then show ?thesis unfolding im y y0 by simp
qed

lemma threshold_round_ok:
  assumes "ascending 2 points" "plotted 2 points" "even i" "i < length points" "at_round below points i st"
  shows "\<exists>st'. threshold_round below crossings 2 points i st = Some st' \<and> at_round below points (i + 2) st'"
proof -
  let ?x = "rd points (int i)" let ?y = "rd points (int i + 1)"
  let ?lo = "num0 ?y < below"
  have ok: "split_ok below points st" and into: "into st = (if i = 0 then None else Some (num0 (rd points (int i - 1)) < below))"
    using assms(5) by (simp_all add: at_round_def)
  have pt: "all_pairs (\<lambda>x y. (?lo \<longrightarrow> y \<le> below) \<and> (\<not> ?lo \<longrightarrow> below \<le> y) \<and> on_curve 2 points x y) [?x, ?y]"
  proof (cases ?x)
    case (Some x)
    then obtain y where "rd points (int (i + 1)) = Some y" using plotted_point [OF assms(2,3)] by auto
    then show ?thesis using Some on_curve_point [OF assms(3), of points x y] by (simp add: add.commute)
  qed simp
  have last: "split_ok below points (push ?lo [?x, ?y] (st'\<lparr>into := Some ?lo\<rparr>))" if "split_ok below points st'" for st'
    using that pt by (intro push_ok) auto
  have next_into: "int (i + 2) - 1 = int i + 1" by simp
  show ?thesis
  proof (cases "crossings \<and> into st \<noteq> Some ?lo \<and> ?x \<noteq> None \<and> i > 0 \<and> rd points (int i - 2) \<noteq> None")
    case False
    then have "threshold_round below crossings 2 points i st = Some (push ?lo [?x, ?y] (st\<lparr>into := Some ?lo\<rparr>))"
      by (auto simp: threshold_round_def Let_def add.commute)
    then show ?thesis using last [OF ok] by (simp add: at_round_def next_into add.commute)
  next
    case True
    then obtain x x0 where x: "?x = Some x" "rd points (int i - 2) = Some x0" by blast
    let ?prior = "rd points (int i - 1)"
    have prev: "into st = Some (\<not> ?lo)" "(num0 ?prior < below) \<noteq> ?lo" using True into by auto
    have "num0 ?prior < below \<and> \<not> ?lo \<or> \<not> num0 ?prior < below \<and> ?lo" using prev(2) by blast
    then have ne: "num0 ?y - num0 ?prior \<noteq> 0" by linarith
    define c where "c = (x - x0) / (num0 ?y - num0 ?prior) * (below - num0 ?y) + x"
    have on: "on_curve 2 points c below"
      unfolding c_def using True x prev(2) by (intro crossing_on_curve [OF assms(1-3)]) auto
    let ?st = "push ?lo [None, None, Some c, Some below] (push (\<not> ?lo) [Some c, Some below] st)"
    have "split_ok below points ?st" using ok on by (intro push_ok) auto
    moreover have "threshold_round below crossings 2 points i st = Some (push ?lo [?x, ?y] (?st\<lparr>into := Some ?lo\<rparr>))"
      using True prev(1) ne x unfolding c_def by (simp add: threshold_round_def Let_def add.commute)
    ultimately show ?thesis using last by (simp add: at_round_def next_into add.commute)
  qed
qed

lemma threshold_loop_ok:
  assumes "ascending 2 points" "plotted 2 points" "even i" "i + 2 * n = length points" "at_round below points i st"
  shows "\<exists>st'. threshold_loop n below crossings 2 points i st = Some st' \<and> split_ok below points st'"
  using assms(3-5)
proof (induction n arbitrary: i st)
  case 0
  then show ?case by (simp add: at_round_def)
next
  case (Suc n)
  then obtain st' where "threshold_round below crossings 2 points i st = Some st'" "at_round below points (i + 2) st'"
    using threshold_round_ok [OF assms(1,2), of i below st crossings] by auto
  then show ?case using Suc.IH [of "i + 2" st'] Suc.prems by simp
qed



text \<open>
  With a third column the last two cells of a round are pushed without it, and the arrays no longer
  hold whole points.
\<close>

lemma threshold_misaligned:
  "split_points 7 False 3 [Some 1, Some 5, Some 0] = Some \<lparr>threspoints = [Some 1, Some 5], keptpoints = [], into = Some True\<rparr>"
  by (simp add: split_points_def threshold_round_def push_def rd_def Let_def)

end
