(* ===== verification/Lines.thy ===== *)
theory Lines
  imports Datapoints
begin

text \<open>
  The line of a series, \<open>plotLine\<close> of \<open>static/flot/jquery.flot.js\<close>: every segment is clipped against
  the four sides of the plot area and what is left is added to the path.
\<close>

section \<open>Clipping a segment\<close>

type_synonym point = "real \<times> real"

text \<open>The four variables of a segment: \<open>x1, y1, x2, y2\<close>.\<close>

record segment =
  x1 :: real
  y1 :: real
  x2 :: real
  y2 :: real

definition clip_ymin :: "real \<Rightarrow> segment \<Rightarrow> segment option" where
  "clip_ymin ymin s =
     (if y1 s \<le> y2 s \<and> y1 s < ymin then
        (if y2 s < ymin then None
         else Some (s\<lparr>x1 := (ymin - y1 s) / (y2 s - y1 s) * (x2 s - x1 s) + x1 s, y1 := ymin\<rparr>))
      else if y2 s \<le> y1 s \<and> y2 s < ymin then
        (if y1 s < ymin then None
         else Some (s\<lparr>x2 := (ymin - y1 s) / (y2 s - y1 s) * (x2 s - x1 s) + x1 s, y2 := ymin\<rparr>))
      else Some s)"

definition clip_ymax :: "real \<Rightarrow> segment \<Rightarrow> segment option" where
  "clip_ymax ymax s =
     (if y1 s \<ge> y2 s \<and> y1 s > ymax then
        (if y2 s > ymax then None
         else Some (s\<lparr>x1 := (ymax - y1 s) / (y2 s - y1 s) * (x2 s - x1 s) + x1 s, y1 := ymax\<rparr>))
      else if y2 s \<ge> y1 s \<and> y2 s > ymax then
        (if y1 s > ymax then None
         else Some (s\<lparr>x2 := (ymax - y1 s) / (y2 s - y1 s) * (x2 s - x1 s) + x1 s, y2 := ymax\<rparr>))
      else Some s)"

definition clip_xmin :: "real \<Rightarrow> segment \<Rightarrow> segment option" where
  "clip_xmin xmin s =
     (if x1 s \<le> x2 s \<and> x1 s < xmin then
        (if x2 s < xmin then None
         else Some (s\<lparr>y1 := (xmin - x1 s) / (x2 s - x1 s) * (y2 s - y1 s) + y1 s, x1 := xmin\<rparr>))
      else if x2 s \<le> x1 s \<and> x2 s < xmin then
        (if x1 s < xmin then None
         else Some (s\<lparr>y2 := (xmin - x1 s) / (x2 s - x1 s) * (y2 s - y1 s) + y1 s, x2 := xmin\<rparr>))
      else Some s)"

definition clip_xmax :: "real \<Rightarrow> segment \<Rightarrow> segment option" where
  "clip_xmax xmax s =
     (if x1 s \<ge> x2 s \<and> x1 s > xmax then
        (if x2 s > xmax then None
         else Some (s\<lparr>y1 := (xmax - x1 s) / (x2 s - x1 s) * (y2 s - y1 s) + y1 s, x1 := xmax\<rparr>))
      else if x2 s \<ge> x1 s \<and> x2 s > xmax then
        (if x1 s > xmax then None
         else Some (s\<lparr>y2 := (xmax - x1 s) / (x2 s - x1 s) * (y2 s - y1 s) + y1 s, x2 := xmax\<rparr>))
      else Some s)"

definition clip_segment :: "axis \<Rightarrow> axis \<Rightarrow> segment \<Rightarrow> segment option" where
  "clip_segment axisx axisy s =
     Option.bind (clip_ymin (ax_min axisy) s) (\<lambda>s.
     Option.bind (clip_ymax (ax_max axisy) s) (\<lambda>s.
     Option.bind (clip_xmin (ax_min axisx) s) (clip_xmax (ax_max axisx))))"

section \<open>The line\<close>

text \<open>The segment from the point before \<open>i\<close> to the one at \<open>i\<close>; none at a gap.\<close>

definition segment_at :: "nat \<Rightarrow> cell list \<Rightarrow> nat \<Rightarrow> segment option" where
  "segment_at ps points i =
     (if rd points (int i - int ps) = None \<or> rd points (int i) = None then None
      else Some \<lparr>x1 = num0 (rd points (int i - int ps)), y1 = num0 (rd points (int i - int ps + 1)),
                 x2 = num0 (rd points (int i)), y2 = num0 (rd points (int i + 1))\<rparr>)"

text \<open>One round of the loop: the state is \<open>prevx, prevy\<close> and the calls made so far.\<close>

definition line_round ::
  "nat \<Rightarrow> cell list \<Rightarrow> real \<Rightarrow> real \<Rightarrow> axis \<Rightarrow> axis \<Rightarrow> nat \<Rightarrow> point option \<times> drawing \<Rightarrow> point option \<times> drawing" where
  "line_round ps points xoffset yoffset axisx axisy i st =
     (case Option.bind (segment_at ps points i) (clip_segment axisx axisy) of
        None \<Rightarrow> st
      | Some s \<Rightarrow>
          (Some (x2 s, y2 s),
           snd st
           @ (if fst st \<noteq> Some (x1 s, y1 s) then [MoveTo (ax_p2c axisx (x1 s) + xoffset) (ax_p2c axisy (y1 s) + yoffset)] else [])
           @ [LineTo (ax_p2c axisx (x2 s) + xoffset) (ax_p2c axisy (y2 s) + yoffset)]))"

text \<open>A point size of 0 makes the loop of a series with points run forever.\<close>

definition plotLine :: "nat \<Rightarrow> cell list \<Rightarrow> real \<Rightarrow> real \<Rightarrow> axis \<Rightarrow> axis \<Rightarrow> drawing option" where
  "plotLine ps points xoffset yoffset axisx axisy =
     (if ps = 0 \<and> points \<noteq> [] then None
      else Some ([BeginPath]
        @ snd (fold (line_round ps points xoffset yoffset axisx axisy) (tl (starts (length points) ps)) (None, []))
        @ [Stroke]))"

section \<open>Clipping is exact\<close>

text \<open>The point of a segment at a parameter between 0 and 1, and the two parts it is cut into there.\<close>

definition along :: "segment \<Rightarrow> real \<Rightarrow> point" where
  "along s t = (x1 s + t * (x2 s - x1 s), y1 s + t * (y2 s - y1 s))"

definition on_segment :: "segment \<Rightarrow> point \<Rightarrow> bool" where
  "on_segment s p \<longleftrightarrow> (\<exists>t. 0 \<le> t \<and> t \<le> 1 \<and> p = along s t)"

definition part_after :: "real \<Rightarrow> segment \<Rightarrow> segment" where
  "part_after c s = s\<lparr>x1 := fst (along s c), y1 := snd (along s c)\<rparr>"

definition part_before :: "real \<Rightarrow> segment \<Rightarrow> segment" where
  "part_before c s = s\<lparr>x2 := fst (along s c), y2 := snd (along s c)\<rparr>"

lemma along_after: "along (part_after c s) u = along s (c + u * (1 - c))"
  by (simp add: along_def part_after_def algebra_simps)

lemma along_before: "along (part_before c s) u = along s (u * c)"
  by (simp add: along_def part_before_def algebra_simps)

lemma on_part_after:
  assumes "0 \<le> c" "c \<le> 1"
  shows "on_segment (part_after c s) p \<longleftrightarrow> (\<exists>t. c \<le> t \<and> t \<le> 1 \<and> p = along s t)"
proof
  assume "on_segment (part_after c s) p"
  then obtain u where u: "0 \<le> u" "u \<le> 1" "p = along s (c + u * (1 - c))"
    by (auto simp: on_segment_def along_after)
  moreover have "0 \<le> u * (1 - c)" "u * (1 - c) \<le> 1 - c" using u(1,2) assms by (simp_all add: mult_left_le_one_le)
  ultimately show "\<exists>t. c \<le> t \<and> t \<le> 1 \<and> p = along s t" by (intro exI [of _ "c + u * (1 - c)"]) auto
next
  assume "\<exists>t. c \<le> t \<and> t \<le> 1 \<and> p = along s t"
  then obtain t where t: "c \<le> t" "t \<le> 1" "p = along s t" by blast
  define u where "u = (t - c) / (1 - c)"
  have "0 \<le> u" "u \<le> 1" "c + u * (1 - c) = t" using t(1,2) assms by (simp_all add: u_def divide_le_eq)
  then show "on_segment (part_after c s) p" unfolding on_segment_def along_after t(3) by (intro exI [of _ u]) simp
qed

lemma on_part_before:
  assumes "0 \<le> c" "c \<le> 1"
  shows "on_segment (part_before c s) p \<longleftrightarrow> (\<exists>t. 0 \<le> t \<and> t \<le> c \<and> p = along s t)"
proof
  assume "on_segment (part_before c s) p"
  then obtain u where "0 \<le> u" "u \<le> 1" "p = along s (u * c)" by (auto simp: on_segment_def along_before)
  then show "\<exists>t. 0 \<le> t \<and> t \<le> c \<and> p = along s t"
    using assms by (intro exI [of _ "u * c"]) (simp add: mult_left_le_one_le)
next
  assume "\<exists>t. 0 \<le> t \<and> t \<le> c \<and> p = along s t"
  then obtain t where t: "0 \<le> t" "t \<le> c" "p = along s t" by blast
  have "0 \<le> t / c" "t / c \<le> 1" "t / c * c = t" using t(1,2) assms by (cases "c = 0"; simp)+
  then show "on_segment (part_before c s) p"
    unfolding on_segment_def along_before t(3) by (intro exI [of _ "t / c"]) simp
qed

text \<open>A clip: what is left of a segment is its points with a property.\<close>

definition clips :: "(point \<Rightarrow> bool) \<Rightarrow> (segment \<Rightarrow> segment option) \<Rightarrow> bool" where
  "clips P clip \<longleftrightarrow>
     (\<forall>s p. (case clip s of None \<Rightarrow> \<not> (on_segment s p \<and> P p) | Some s' \<Rightarrow> on_segment s' p \<longleftrightarrow> on_segment s p \<and> P p))"

lemma clips_bind: "clips P f \<Longrightarrow> clips Q g \<Longrightarrow> clips (\<lambda>p. P p \<and> Q p) (\<lambda>s. Option.bind (f s) g)"
  unfolding clips_def
proof (intro allI)
  fix s p
  assume f: "\<forall>s p. case f s of None \<Rightarrow> \<not> (on_segment s p \<and> P p) | Some s' \<Rightarrow> on_segment s' p \<longleftrightarrow> on_segment s p \<and> P p"
    and g: "\<forall>s p. case g s of None \<Rightarrow> \<not> (on_segment s p \<and> Q p) | Some s' \<Rightarrow> on_segment s' p \<longleftrightarrow> on_segment s p \<and> Q p"
  show "case Option.bind (f s) g of None \<Rightarrow> \<not> (on_segment s p \<and> P p \<and> Q p)
    | Some s' \<Rightarrow> on_segment s' p \<longleftrightarrow> on_segment s p \<and> P p \<and> Q p"
    using f [rule_format, of s p] g [rule_format, of "the (f s)" p]
    by (cases "f s"; cases "g (the (f s))") auto
qed

text \<open>
  The four clips are instances of one: \<open>h\<close> is the signed distance from a side of the plot area,
  which changes linearly along a segment.
\<close>

locale half_plane =
  fixes h :: "point \<Rightarrow> real"
  assumes linear: "h (along s t) = h (along s 0) + t * (h (along s 1) - h (along s 0))"
begin

lemma level:
  assumes "h (along s 0) < 0" "0 \<le> h (along s 1)"
  shows "0 < - h (along s 0) / (h (along s 1) - h (along s 0))" "- h (along s 0) / (h (along s 1) - h (along s 0)) \<le> 1"
    and "0 \<le> h (along s t) \<longleftrightarrow> - h (along s 0) / (h (along s 1) - h (along s 0)) \<le> t"
  using assms unfolding linear [of s t] by (auto simp: field_simps)

lemma level':
  assumes "0 \<le> h (along s 0)" "h (along s 1) < 0"
  shows "0 \<le> - h (along s 0) / (h (along s 1) - h (along s 0))" "- h (along s 0) / (h (along s 1) - h (along s 0)) < 1"
    and "0 \<le> h (along s t) \<longleftrightarrow> t \<le> - h (along s 0) / (h (along s 1) - h (along s 0))"
  using assms unfolding linear [of s t] by (auto simp: field_simps)

lemma kept_inside: "0 \<le> h (along s 0) \<Longrightarrow> 0 \<le> h (along s 1) \<Longrightarrow> 0 \<le> t \<Longrightarrow> t \<le> 1 \<Longrightarrow> 0 \<le> h (along s t)"
proof -
  assume a: "0 \<le> h (along s 0)" "0 \<le> h (along s 1)" "0 \<le> t" "t \<le> 1"
  have "h (along s t) = (1 - t) * h (along s 0) + t * h (along s 1)" unfolding linear [of s t] by (simp add: algebra_simps)
  then show ?thesis using a by simp
qed

lemma dropped_outside: "h (along s 0) < 0 \<Longrightarrow> h (along s 1) < 0 \<Longrightarrow> 0 \<le> t \<Longrightarrow> t \<le> 1 \<Longrightarrow> h (along s t) < 0"
proof -
  assume a: "h (along s 0) < 0" "h (along s 1) < 0" "0 \<le> t" "t \<le> 1"
  have "h (along s t) = (1 - t) * h (along s 0) + t * h (along s 1)" unfolding linear [of s t] by (simp add: algebra_simps)
  also have "\<dots> \<le> max (h (along s 0)) (h (along s 1))" using a by (intro convex_bound_le) auto
  finally show ?thesis using a by simp
qed

lemma clips_side:
  assumes "\<And>s. h (along s 0) < 0 \<Longrightarrow> h (along s 1) < 0 \<Longrightarrow> clip s = None"
    and "\<And>s. h (along s 0) < 0 \<Longrightarrow> 0 \<le> h (along s 1) \<Longrightarrow>
      clip s = Some (part_after (- h (along s 0) / (h (along s 1) - h (along s 0))) s)"
    and "\<And>s. 0 \<le> h (along s 0) \<Longrightarrow> h (along s 1) < 0 \<Longrightarrow>
      clip s = Some (part_before (- h (along s 0) / (h (along s 1) - h (along s 0))) s)"
    and "\<And>s. 0 \<le> h (along s 0) \<Longrightarrow> 0 \<le> h (along s 1) \<Longrightarrow> clip s = Some s"
  shows "clips (\<lambda>p. 0 \<le> h p) clip"
  unfolding clips_def
proof (intro allI)
  fix s p
  let ?c = "- h (along s 0) / (h (along s 1) - h (along s 0))"
  consider (none) "h (along s 0) < 0" "h (along s 1) < 0" | (after) "h (along s 0) < 0" "0 \<le> h (along s 1)"
    | (before) "0 \<le> h (along s 0)" "h (along s 1) < 0" | (all) "0 \<le> h (along s 0)" "0 \<le> h (along s 1)" by linarith
  then show "case clip s of None \<Rightarrow> \<not> (on_segment s p \<and> 0 \<le> h p) | Some s' \<Rightarrow> on_segment s' p \<longleftrightarrow> on_segment s p \<and> 0 \<le> h p"
  proof cases
    case none
    then show ?thesis using assms(1) [OF none] dropped_outside [OF none] by (auto simp: on_segment_def not_le)
  next
    case after
    define c where "c = ?c"
    have l: "0 \<le> c" "c \<le> 1" "\<And>t. 0 \<le> h (along s t) \<longleftrightarrow> c \<le> t" using level [OF after] by (simp_all add: c_def)
    have "on_segment (part_after c s) p \<longleftrightarrow> on_segment s p \<and> 0 \<le> h p"
      unfolding on_part_after [OF l(1,2)] unfolding on_segment_def using l(1,3) by (metis order_trans)
    then show ?thesis using assms(2) [OF after] by (simp add: c_def)
  next
    case before
    define c where "c = ?c"
    have l: "0 \<le> c" "c \<le> 1" "\<And>t. 0 \<le> h (along s t) \<longleftrightarrow> t \<le> c" using level' [OF before] by (simp_all add: c_def)
    have "on_segment (part_before c s) p \<longleftrightarrow> on_segment s p \<and> 0 \<le> h p"
      unfolding on_part_before [OF l(1,2)] unfolding on_segment_def using l(2,3) by (metis order_trans)
    then show ?thesis using assms(3) [OF before] by (simp add: c_def)
  next
    case all
    then show ?thesis using assms(4) [OF all] kept_inside [OF all] by (auto simp: on_segment_def)
  qed
qed

end

interpretation ymin: half_plane "\<lambda>p. snd p - m" for m
  by unfold_locales (simp add: along_def algebra_simps)

interpretation ymax: half_plane "\<lambda>p. m - snd p" for m
  by unfold_locales (simp add: along_def algebra_simps)

interpretation xmin: half_plane "\<lambda>p. fst p - m" for m
  by unfold_locales (simp add: along_def algebra_simps)

interpretation xmax: half_plane "\<lambda>p. m - fst p" for m
  by unfold_locales (simp add: along_def algebra_simps)

lemma div_flip: "(b - a) * w / (b - c) = (a - b) * w / (c - (b :: real))"
proof -
  have "(b - a) * w = - ((a - b) * w)" "b - c = - (c - b)" by (simp_all add: algebra_simps)
  then show ?thesis by (simp only: minus_divide_divide)
qed

lemma clips_ymin: "clips (\<lambda>p. 0 \<le> snd p - m) (clip_ymin m)"
  by (rule ymin.clips_side) (auto simp: clip_ymin_def along_def part_after_def part_before_def)

lemma clips_ymax: "clips (\<lambda>p. 0 \<le> m - snd p) (clip_ymax m)"
  by (rule ymax.clips_side)
    (auto simp: clip_ymax_def along_def part_after_def part_before_def div_flip [where b = "y1 _" and a = m])

lemma clips_xmin: "clips (\<lambda>p. 0 \<le> fst p - m) (clip_xmin m)"
  by (rule xmin.clips_side) (auto simp: clip_xmin_def along_def part_after_def part_before_def)

lemma clips_xmax: "clips (\<lambda>p. 0 \<le> m - fst p) (clip_xmax m)"
  by (rule xmax.clips_side)
    (auto simp: clip_xmax_def along_def part_after_def part_before_def div_flip [where b = "x1 _" and a = m])

definition in_range :: "axis \<Rightarrow> axis \<Rightarrow> point \<Rightarrow> bool" where
  "in_range axisx axisy p \<longleftrightarrow>
     ax_min axisx \<le> fst p \<and> fst p \<le> ax_max axisx \<and> ax_min axisy \<le> snd p \<and> snd p \<le> ax_max axisy"

lemma clips_segment: "clips (in_range axisx axisy) (clip_segment axisx axisy)"
proof -
  have "clip_segment axisx axisy =
      (\<lambda>s. Option.bind (clip_ymin (ax_min axisy) s) (\<lambda>s. Option.bind (clip_ymax (ax_max axisy) s)
        (\<lambda>s. Option.bind (clip_xmin (ax_min axisx) s) (clip_xmax (ax_max axisx)))))"
    by (rule ext) (simp only: clip_segment_def)
  moreover have "in_range axisx axisy = (\<lambda>p. 0 \<le> snd p - ax_min axisy \<and> 0 \<le> ax_max axisy - snd p
      \<and> 0 \<le> fst p - ax_min axisx \<and> 0 \<le> ax_max axisx - fst p)"
    by (auto simp: in_range_def fun_eq_iff)
  ultimately show ?thesis by (simp only:) (intro clips_bind clips_ymin clips_ymax clips_xmin clips_xmax)
qed


section \<open>The path that is drawn\<close>

text \<open>The straight pieces of a path; \<open>cur\<close> is the current point, if there is one.\<close>

fun pieces :: "point option \<Rightarrow> drawing \<Rightarrow> (point \<times> point) list" where
  "pieces cur [] = []"
| "pieces cur (BeginPath # cs) = pieces None cs"
| "pieces cur (MoveTo x y # cs) = pieces (Some (x, y)) cs"
| "pieces cur (LineTo x y # cs) =
     (case cur of None \<Rightarrow> [] | Some p \<Rightarrow> [(p, (x, y))]) @ pieces (Some (x, y)) cs"
| "pieces cur (_ # cs) = pieces cur cs"

text \<open>The segments the line consists of after clipping, and their ends on the canvas.\<close>

definition visible :: "nat \<Rightarrow> cell list \<Rightarrow> axis \<Rightarrow> axis \<Rightarrow> nat list \<Rightarrow> segment list" where
  "visible ps points axisx axisy ks =
     List.map_filter (\<lambda>i. Option.bind (segment_at ps points i) (clip_segment axisx axisy)) ks"

definition canvas_point :: "real \<Rightarrow> real \<Rightarrow> axis \<Rightarrow> axis \<Rightarrow> point \<Rightarrow> point" where
  "canvas_point xoffset yoffset axisx axisy p = (ax_p2c axisx (fst p) + xoffset, ax_p2c axisy (snd p) + yoffset)"

definition canvas_segment :: "real \<Rightarrow> real \<Rightarrow> axis \<Rightarrow> axis \<Rightarrow> segment \<Rightarrow> point \<times> point" where
  "canvas_segment xoffset yoffset axisx axisy s =
     (canvas_point xoffset yoffset axisx axisy (x1 s, y1 s), canvas_point xoffset yoffset axisx axisy (x2 s, y2 s))"

lemma map_filter_simps2:
  "List.map_filter f (i # ks) = (case f i of None \<Rightarrow> List.map_filter f ks | Some y \<Rightarrow> y # List.map_filter f ks)"
  "List.map_filter f [] = []"
  by (simp_all add: List.map_filter_def split: option.split)

lemma fold_line_round_append:
  "snd (fold (line_round ps points xo yo ax ay) ks (prev, d)) = d @ snd (fold (line_round ps points xo yo ax ay) ks (prev, []))"
proof (induction ks arbitrary: prev d)
  case (Cons i ks)
  show ?case
  proof (cases "Option.bind (segment_at ps points i) (clip_segment ax ay)")
    case None
    then show ?thesis using Cons.IH [of prev d] by (simp add: line_round_def)
  next
    case (Some s)
    define e where "e = (if prev \<noteq> Some (x1 s, y1 s) then [MoveTo (ax_p2c ax (x1 s) + xo) (ax_p2c ay (y1 s) + yo)] else [])
      @ [LineTo (ax_p2c ax (x2 s) + xo) (ax_p2c ay (y2 s) + yo)]"
    have r: "line_round ps points xo yo ax ay i (prev, d') = (Some (x2 s, y2 s), d' @ e)" for d'
      using Some by (simp add: line_round_def e_def)
    show ?thesis using Cons.IH [of "Some (x2 s, y2 s)" "d @ e"] Cons.IH [of "Some (x2 s, y2 s)" e] by (simp add: r)
  qed
qed simp

lemma pieces_rounds:
  "pieces (map_option (canvas_point xo yo ax ay) prev) (snd (fold (line_round ps points xo yo ax ay) ks (prev, [])) @ [Stroke])
    = map (canvas_segment xo yo ax ay) (visible ps points ax ay ks)"
proof (induction ks arbitrary: prev)
  case (Cons i ks)
  show ?case
  proof (cases "Option.bind (segment_at ps points i) (clip_segment ax ay)")
    case None
    then show ?thesis using Cons.IH [of prev] by (simp add: line_round_def visible_def map_filter_simps2)
  next
    case (Some s)
    have v: "visible ps points ax ay (i # ks) = s # visible ps points ax ay ks"
      using Some by (simp add: visible_def map_filter_simps2)
    define e where "e = (if prev \<noteq> Some (x1 s, y1 s) then [MoveTo (ax_p2c ax (x1 s) + xo) (ax_p2c ay (y1 s) + yo)] else [])
      @ [LineTo (ax_p2c ax (x2 s) + xo) (ax_p2c ay (y2 s) + yo)]"
    have r: "line_round ps points xo yo ax ay i (prev, []) = (Some (x2 s, y2 s), e)"
      using Some by (simp add: line_round_def e_def)
    have "pieces (map_option (canvas_point xo yo ax ay) prev) (e @ cs)
        = canvas_segment xo yo ax ay s # pieces (Some (canvas_point xo yo ax ay (x2 s, y2 s))) cs" for cs
      by (simp add: e_def canvas_segment_def canvas_point_def)
    then show ?thesis
      using Cons.IH [of "Some (x2 s, y2 s)"] fold_line_round_append [of ps points xo yo ax ay ks "Some (x2 s, y2 s)" e]
      by (simp add: r v)
  qed
qed (simp add: visible_def map_filter_simps2)

text \<open>A point of the data plane on the line through the points of a series, gaps left open.\<close>

definition on_polyline :: "nat \<Rightarrow> cell list \<Rightarrow> point \<Rightarrow> bool" where
  "on_polyline ps points p \<longleftrightarrow>
     (\<exists>i \<in> set (tl (starts (length points) ps)). \<exists>s. segment_at ps points i = Some s \<and> on_segment s p)"

lemma visible_exact:
  "(\<exists>s \<in> set (visible ps points ax ay ks). on_segment s p)
    \<longleftrightarrow> (\<exists>i \<in> set ks. \<exists>s. segment_at ps points i = Some s \<and> on_segment s p) \<and> in_range ax ay p"
proof (induction ks)
  case (Cons i ks)
  show ?case
  proof (cases "segment_at ps points i")
    case None
    then show ?thesis using Cons by (auto simp: visible_def map_filter_simps2)
  next
    case (Some s)
    then show ?thesis using Cons clips_segment [of ax ay, unfolded clips_def, rule_format, of s p]
      by (cases "clip_segment ax ay s") (auto simp: visible_def map_filter_simps2)
  qed
qed (simp add: visible_def map_filter_simps2)

text \<open>
  C13. The path of a line is exactly the visible part of the data: its straight pieces are the images
  of segments that together hold the points of the polyline through the data that lie in the
  ranges of both axes, no more and no less, gaps included.
\<close>

theorem plotLine_exact:
  assumes "0 < ps"
  shows "\<exists>d segs. plotLine ps points xoffset yoffset axisx axisy = Some d
    \<and> pieces None d = map (canvas_segment xoffset yoffset axisx axisy) segs
    \<and> (\<forall>p. (\<exists>s \<in> set segs. on_segment s p) \<longleftrightarrow> on_polyline ps points p \<and> in_range axisx axisy p)"
proof -
  let ?ks = "tl (starts (length points) ps)" let ?r = "line_round ps points xoffset yoffset axisx axisy"
  let ?d = "[BeginPath] @ snd (fold ?r ?ks (None, [])) @ [Stroke]"
  have "plotLine ps points xoffset yoffset axisx axisy = Some ?d" using assms by (simp add: plotLine_def)
  moreover have "pieces None ?d = map (canvas_segment xoffset yoffset axisx axisy) (visible ps points axisx axisy ?ks)"
    using pieces_rounds [of xoffset yoffset axisx axisy None] by simp
  ultimately show ?thesis using visible_exact [of ps points axisx axisy ?ks] unfolding on_polyline_def by blast
qed

theorem plotLine_exact_witness:
  "\<exists>d. plotLine 2 [Some 1, Some 5, Some 3, Some 2] 0 0 (demo_axis X) (demo_axis Y) = Some d"
  using plotLine_exact [of 2 "[Some 1, Some 5, Some 3, Some 2]" 0 0 "demo_axis X" "demo_axis Y"] by auto

end
