(* ===== verification/Areas.thy ===== *)
theory Areas
  imports Lines
begin

text \<open>
  The filled area of a line, \<open>plotLineArea\<close> of \<open>static/flot/jquery.flot.js\<close>: each run of points
  without a gap is swept forward along its top, then backward along its bottom, and filled.
\<close>

section \<open>One piece of the outline\<close>

text \<open>Clipping of the ordinates, which keeps a segment that is outside.\<close>

definition cut_ymin :: "real \<Rightarrow> segment \<Rightarrow> segment" where
  "cut_ymin ymin s =
     (if y1 s \<le> y2 s \<and> y1 s < ymin \<and> y2 s \<ge> ymin then
        s\<lparr>x1 := (ymin - y1 s) / (y2 s - y1 s) * (x2 s - x1 s) + x1 s, y1 := ymin\<rparr>
      else if y2 s \<le> y1 s \<and> y2 s < ymin \<and> y1 s \<ge> ymin then
        s\<lparr>x2 := (ymin - y1 s) / (y2 s - y1 s) * (x2 s - x1 s) + x1 s, y2 := ymin\<rparr>
      else s)"

definition cut_ymax :: "real \<Rightarrow> segment \<Rightarrow> segment" where
  "cut_ymax ymax s =
     (if y1 s \<ge> y2 s \<and> y1 s > ymax \<and> y2 s \<le> ymax then
        s\<lparr>x1 := (ymax - y1 s) / (y2 s - y1 s) * (x2 s - x1 s) + x1 s, y1 := ymax\<rparr>
      else if y2 s \<ge> y1 s \<and> y2 s > ymax \<and> y1 s \<le> ymax then
        s\<lparr>x2 := (ymax - y1 s) / (y2 s - y1 s) * (x2 s - x1 s) + x1 s, y2 := ymax\<rparr>
      else s)"

text \<open>The vertices of the outline, in data coordinates, for a segment between the sides.\<close>

definition outline :: "axis \<Rightarrow> segment \<Rightarrow> point list" where
  "outline axisy s =
     (if y1 s \<ge> ax_max axisy \<and> y2 s \<ge> ax_max axisy then [(x1 s, ax_max axisy), (x2 s, ax_max axisy)]
      else if y1 s \<le> ax_min axisy \<and> y2 s \<le> ax_min axisy then [(x1 s, ax_min axisy), (x2 s, ax_min axisy)]
      else
        let s' = cut_ymax (ax_max axisy) (cut_ymin (ax_min axisy) s)
        in (if x1 s' \<noteq> x1 s then [(x1 s, y1 s')] else [])
           @ [(x1 s', y1 s'), (x2 s', y2 s')]
           @ (if x2 s' \<noteq> x2 s then [(x2 s', y2 s'), (x2 s, y2 s')] else []))"

section \<open>The two sweeps\<close>

text \<open>The variables of the loop; \<open>ar_ps\<close> is negative on the way back.\<close>

record sweep =
  ar_i :: int
  ar_ps :: int
  ar_open :: bool
  ar_ypos :: int
  segmentStart :: int
  segmentEnd :: int
  ar_cmds :: drawing

definition line_to :: "axis \<Rightarrow> axis \<Rightarrow> point \<Rightarrow> cmd" where
  "line_to axisx axisy p = LineTo (ax_p2c axisx (fst p)) (ax_p2c axisy (snd p))"

definition area_bottom :: "axis \<Rightarrow> real" where
  "area_bottom axisy = min (max 0 (ax_min axisy)) (ax_max axisy)"

definition area_round :: "cell list \<Rightarrow> axis \<Rightarrow> axis \<Rightarrow> sweep \<Rightarrow> sweep" where
  "area_round points axisx axisy st =
     (let ps = ar_ps st; i = ar_i st + ps;
          c1 = rd points (i - ps); c2 = rd points i
      in if ar_open st \<and> ps > 0 \<and> c1 \<noteq> None \<and> c2 = None then
           st\<lparr>ar_i := i, segmentEnd := i, ar_ps := - ps, ar_ypos := 2\<rparr>
         else if ar_open st \<and> ps < 0 \<and> i = segmentStart st + ps then
           st\<lparr>ar_i := segmentEnd st - ps, ar_cmds := ar_cmds st @ [Fill], ar_open := False, ar_ps := - ps, ar_ypos := 1,
              segmentStart := segmentEnd st - ps\<rparr>
         else if c1 = None \<or> c2 = None then st\<lparr>ar_i := i\<rparr>
         else
           case Option.bind (clip_xmin (ax_min axisx)
                   \<lparr>x1 = num0 c1, y1 = num0 (rd points (i - ps + ar_ypos st)), x2 = num0 c2, y2 = num0 (rd points (i + ar_ypos st))\<rparr>)
                 (clip_xmax (ax_max axisx)) of
             None \<Rightarrow> st\<lparr>ar_i := i\<rparr>
           | Some s \<Rightarrow>
               st\<lparr>ar_i := i, ar_open := True,
                  ar_cmds := ar_cmds st
                    @ (if ar_open st then []
                       else [BeginPath, MoveTo (ax_p2c axisx (x1 s)) (ax_p2c axisy (area_bottom axisy))])
                    @ map (line_to axisx axisy) (outline axisy s)\<rparr>)"

fun area_loop :: "nat \<Rightarrow> cell list \<Rightarrow> axis \<Rightarrow> axis \<Rightarrow> sweep \<Rightarrow> drawing option" where
  "area_loop 0 points axisx axisy st = None"
| "area_loop (Suc fuel) points axisx axisy st =
     (if ar_ps st > 0 \<and> ar_i st > int (length points) + ar_ps st then Some (ar_cmds st)
      else area_loop fuel points axisx axisy (area_round points axisx axisy st))"

text \<open>
  The number of rounds: every cell is passed at most once forward and once backward, with a few
  rounds past the end. A point size of 0 never ends.
\<close>

definition plotLineArea :: "nat \<Rightarrow> cell list \<Rightarrow> axis \<Rightarrow> axis \<Rightarrow> drawing option" where
  "plotLineArea ps points axisx axisy =
     area_loop (4 * length points + 20) points axisx axisy
       \<lparr>ar_i = 0, ar_ps = int ps, ar_open = False, ar_ypos = 1, segmentStart = 0, segmentEnd = 0, ar_cmds = []\<rparr>"

section \<open>Correctness of a piece\<close>

text \<open>A point of a segment whose ordinate is a level between those of its ends.\<close>

lemma crossing_between:
  fixes a b m u v lo hi :: real
  assumes "min a b \<le> m" "m \<le> max a b" "a \<noteq> b" "lo \<le> u" "u \<le> hi" "lo \<le> v" "v \<le> hi"
  shows "lo \<le> (m - a) / (b - a) * (v - u) + u" "(m - a) / (b - a) * (v - u) + u \<le> hi"
proof -
  define k where "k = (m - a) / (b - a)"
  have "0 \<le> k" "k \<le> 1" using assms(1-3) by (auto simp: k_def field_simps min_def max_def split: if_splits)
  then have "k * (v - u) + u = (1 - k) * u + k * v" "0 \<le> 1 - k" by (simp_all add: algebra_simps)
  moreover have "(1 - k) * u + k * v \<le> hi" using assms \<open>0 \<le> k\<close> \<open>k \<le> 1\<close> by (intro convex_bound_le) auto
  moreover have "- ((1 - k) * u + k * v) \<le> - lo"
    using convex_bound_le [of "- u" "- lo" "- v" "1 - k" k] assms \<open>0 \<le> k\<close> \<open>k \<le> 1\<close> by simp
  ultimately show "lo \<le> (m - a) / (b - a) * (v - u) + u" "(m - a) / (b - a) * (v - u) + u \<le> hi"
    by (simp_all add: k_def)
qed

definition x_between :: "real \<Rightarrow> real \<Rightarrow> segment \<Rightarrow> bool" where
  "x_between lo hi s \<longleftrightarrow> lo \<le> x1 s \<and> x1 s \<le> hi \<and> lo \<le> x2 s \<and> x2 s \<le> hi"

lemma cut_x_between: "x_between lo hi s \<Longrightarrow> x_between lo hi (cut_ymin m s)" "x_between lo hi s \<Longrightarrow> x_between lo hi (cut_ymax m s)"
  using crossing_between [of "y1 s" "y2 s" m lo "x1 s" hi "x2 s"]
  by (auto simp: x_between_def cut_ymin_def cut_ymax_def)

text \<open>After both cuts a segment that is not outside on one side is between the bounds.\<close>

lemma cut_y_between:
  assumes "lo \<le> hi" "\<not> (y1 s \<ge> hi \<and> y2 s \<ge> hi)" "\<not> (y1 s \<le> lo \<and> y2 s \<le> lo)" "s' = cut_ymax hi (cut_ymin lo s)"
  shows "lo \<le> y1 s' \<and> y1 s' \<le> hi \<and> lo \<le> y2 s' \<and> y2 s' \<le> hi"
proof -
  let ?t = "cut_ymin lo s"
  have t: "lo \<le> y1 ?t" "lo \<le> y2 ?t" "y1 ?t = y1 s \<or> y1 ?t = lo" "y2 ?t = y2 s \<or> y2 ?t = lo"
    using assms(3) by (auto simp: cut_ymin_def)
  then have "y1 ?t \<le> hi \<or> y2 ?t \<le> hi" using assms(1,2) by linarith
  then have "y1 s' \<le> hi" "y2 s' \<le> hi" "y1 s' = y1 ?t \<or> y1 s' = hi" "y2 s' = y2 ?t \<or> y2 s' = hi"
    by (auto simp: assms(4) cut_ymax_def)
  then show ?thesis using t(1,2) assms(1) by linarith
qed

lemma outline_in_range:
  assumes "x_between (ax_min axisx) (ax_max axisx) s" "ax_min axisy \<le> ax_max axisy" "p \<in> set (outline axisy s)"
  shows "in_range axisx axisy p"
proof -
  define s' where "s' = cut_ymax (ax_max axisy) (cut_ymin (ax_min axisy) s)"
  have "x_between (ax_min axisx) (ax_max axisx) s'" unfolding s'_def by (intro cut_x_between assms(1))
  then show ?thesis
    using assms cut_y_between [OF assms(2) _ _ s'_def]
    by (auto simp: outline_def Let_def s'_def [symmetric] in_range_def x_between_def split: if_splits)
qed

lemma clip_x_between:
  assumes "Option.bind (clip_xmin lo s) (clip_xmax hi) = Some s'" "lo \<le> hi"
  shows "x_between lo hi s'"
proof -
  obtain t where t: "clip_xmin lo s = Some t" "clip_xmax hi t = Some s'" using assms(1) by (auto simp: bind_eq_Some_conv)
  have "lo \<le> x1 t" "lo \<le> x2 t" using t(1) by (auto simp: clip_xmin_def split: if_splits)
  moreover have "x1 s' \<in> {x1 t, hi}" "x2 s' \<in> {x2 t, hi}" "x1 s' \<le> hi" "x2 s' \<le> hi"
    using t(2) by (auto simp: clip_xmax_def split: if_splits)
  ultimately show ?thesis using assms(2) by (auto simp: x_between_def)
qed


section \<open>The sweeps end, and every area is closed\<close>

text \<open>Images of positions in the ranges of both axes.\<close>

definition inside :: "axis \<Rightarrow> axis \<Rightarrow> drawing \<Rightarrow> bool" where
  "inside axisx axisy cs \<longleftrightarrow>
     (\<forall>v \<in> set (vertices cs). \<exists>q. in_range axisx axisy q \<and> v = (ax_p2c axisx (fst q), ax_p2c axisy (snd q)))"

definition begun :: "drawing \<Rightarrow> nat" where
  "begun cs = length (filter (\<lambda>c. c = BeginPath) cs)"

definition filled_areas :: "drawing \<Rightarrow> nat" where
  "filled_areas cs = length (filter (\<lambda>c. c = Fill) cs)"

lemma vertices_line_to [simp]:
  "vertices (map (line_to axisx axisy) qs) = map (\<lambda>q. (ax_p2c axisx (fst q), ax_p2c axisy (snd q))) qs"
  by (induction qs) (simp_all add: line_to_def)

lemma counts_line_to [simp]:
  "filter (\<lambda>c. c = BeginPath) (map (line_to axisx axisy) qs) = []" "filter (\<lambda>c. c = Fill) (map (line_to axisx axisy) qs) = []"
  by (induction qs) (simp_all add: line_to_def)

lemma inside_Nil [simp]: "inside axisx axisy []"
  by (simp add: inside_def)

lemma inside_append: "inside axisx axisy (cs @ ds) \<longleftrightarrow> inside axisx axisy cs \<and> inside axisx axisy ds"
  by (auto simp: inside_def)

lemma inside_outline: "\<forall>q \<in> set qs. in_range axisx axisy q \<Longrightarrow> inside axisx axisy (map (line_to axisx axisy) qs)"
  unfolding inside_def vertices_line_to set_map by blast

lemma inside_begin:
  assumes "in_range axisx axisy (a, b)"
  shows "inside axisx axisy [BeginPath, MoveTo (ax_p2c axisx a) (ax_p2c axisy b)]"
  using assms unfolding inside_def by (simp del: split_paired_Ex) (rule exI [of _ "(a, b)"], simp)

text \<open>What the loop keeps: \<open>p\<close> is the point size, \<open>n\<close> the length of the array.\<close>

definition sweep_ok :: "cell list \<Rightarrow> int \<Rightarrow> sweep \<Rightarrow> bool" where
  "sweep_ok points p st \<longleftrightarrow> p dvd ar_i st \<and> p dvd segmentStart st \<and>
     ((ar_ps st = p \<and> segmentStart st \<le> ar_i st \<and> ar_i st \<le> int (length points) + 2 * p
         \<and> (ar_open st \<longrightarrow> rd points (ar_i st) \<noteq> None))
      \<or> (ar_ps st = - p \<and> ar_open st \<and> p dvd segmentEnd st \<and> segmentStart st \<le> ar_i st \<and> ar_i st \<le> segmentEnd st
         \<and> segmentEnd st \<le> int (length points) + p))"

text \<open>A bound on the cells that are still to be passed.\<close>

definition ahead :: "cell list \<Rightarrow> int \<Rightarrow> sweep \<Rightarrow> int" where
  "ahead points p st =
     3 * (int (length points) + 3 * p - (if ar_ps st > 0 then ar_i st else segmentEnd st)) + (ar_i st - segmentStart st)"

lemma ahead_nonneg: "0 < p \<Longrightarrow> sweep_ok points p st \<Longrightarrow> 0 \<le> ahead points p st"
  by (auto simp: sweep_ok_def ahead_def)

lemma dvd_step: "(p :: int) dvd a \<Longrightarrow> p dvd b \<Longrightarrow> 0 < p \<Longrightarrow> a \<le> b \<Longrightarrow> b - p \<noteq> a - p \<Longrightarrow> a \<le> b - p"
proof -
  assume "p dvd a" "p dvd b" "0 < p" "a \<le> b" "b - p \<noteq> a - p"
  then have "p dvd b - a" "0 < b - a" by auto
  then have "p \<le> b - a" by (simp add: zdvd_imp_le)
  then show ?thesis by simp
qed

lemma rd_range: "rd xs i \<noteq> None \<Longrightarrow> 0 \<le> i \<and> i < int (length xs)"
  by (auto simp: rd_def split: if_splits)

text \<open>One round: the position advances whatever the branch.\<close>

lemma area_round_ok:
  assumes "0 < p" "sweep_ok points p st" "\<not> (ar_ps st > 0 \<and> ar_i st > int (length points) + ar_ps st)"
  shows "sweep_ok points p (area_round points axisx axisy st)
    \<and> ahead points p (area_round points axisx axisy st) \<le> ahead points p st - p"
proof -
  let ?st = "area_round points axisx axisy st"
  let ?i = "ar_i st + ar_ps st"
  have d: "p dvd ar_i st" "p dvd segmentStart st" using assms(2) by (simp_all add: sweep_ok_def)
  consider (fwd) "ar_ps st = p" "segmentStart st \<le> ar_i st" "ar_i st \<le> int (length points) + p"
      "ar_open st \<longrightarrow> rd points (ar_i st) \<noteq> None"
    | (bwd) "ar_ps st = - p" "ar_open st" "p dvd segmentEnd st" "segmentStart st \<le> ar_i st" "ar_i st \<le> segmentEnd st"
      "segmentEnd st \<le> int (length points) + p"
    using assms by (auto simp: sweep_ok_def)
  then show ?thesis
  proof cases
    case fwd
    show ?thesis
    proof (cases "ar_open st \<and> rd points ?i = None")
      case True
      then have r: "?st = st\<lparr>ar_i := ?i, segmentEnd := ?i, ar_ps := - p, ar_ypos := 2\<rparr>"
        using fwd(1,4) assms(1) by (simp add: area_round_def Let_def)
      have "ar_i st < int (length points)" using True fwd(4) rd_range by blast
      then show ?thesis unfolding r using fwd(1,2) True d assms(1) by (simp add: sweep_ok_def ahead_def)
    next
      case False
      have "ar_ps ?st = p" "ar_i ?st = ?i" "segmentStart ?st = segmentStart st" "ar_open ?st \<longrightarrow> rd points ?i \<noteq> None"
        using False fwd(1,4) assms(1) by (auto simp: area_round_def Let_def split: option.split)
      then show ?thesis using fwd(1-3) d assms(1) by (simp add: sweep_ok_def ahead_def)
    qed
  next
    case bwd
    show ?thesis
    proof (cases "?i = segmentStart st - p")
      case True
      then have r: "?st = st\<lparr>ar_i := segmentEnd st + p, ar_cmds := ar_cmds st @ [Fill], ar_open := False, ar_ps := p, ar_ypos := 1,
          segmentStart := segmentEnd st + p\<rparr>"
        using bwd(1,2) assms(1) by (simp add: area_round_def Let_def)
      show ?thesis unfolding r using bwd True d assms(1) by (simp add: sweep_ok_def ahead_def)
    next
      case False
      have "ar_ps ?st = - p" "ar_i ?st = ?i" "segmentStart ?st = segmentStart st" "segmentEnd ?st = segmentEnd st" "ar_open ?st"
        using False bwd(1,2) assms(1) by (auto simp: area_round_def Let_def split: option.split)
      moreover have "segmentStart st \<le> ?i" using dvd_step [OF d(2,1) assms(1) bwd(4)] False bwd(1) by simp
      ultimately show ?thesis using bwd d assms(1) by (simp add: sweep_ok_def ahead_def)
    qed
  qed
qed

lemma area_round_cases:
  assumes "ax_min axisx \<le> ax_max axisx" "st' = area_round points axisx axisy st"
  obtains (same) "ar_cmds st' = ar_cmds st" "ar_open st' = ar_open st"
    | (closed) "ar_cmds st' = ar_cmds st @ [Fill]" "ar_open st" "\<not> ar_open st'"
    | (drawn) s where "x_between (ax_min axisx) (ax_max axisx) s" "ar_open st'"
        "ar_cmds st' = ar_cmds st @ (if ar_open st then []
            else [BeginPath, MoveTo (ax_p2c axisx (x1 s)) (ax_p2c axisy (area_bottom axisy))])
          @ map (line_to axisx axisy) (outline axisy s)"
proof -
  let ?i = "ar_i st + ar_ps st"
  let ?turn = "ar_open st \<and> ar_ps st > 0 \<and> rd points (?i - ar_ps st) \<noteq> None \<and> rd points ?i = None"
  let ?done = "ar_open st \<and> ar_ps st < 0 \<and> ?i = segmentStart st + ar_ps st"
  let ?gap = "rd points (?i - ar_ps st) = None \<or> rd points ?i = None"
  let ?clip = "Option.bind (clip_xmin (ax_min axisx)
      \<lparr>x1 = num0 (rd points (?i - ar_ps st)), y1 = num0 (rd points (?i - ar_ps st + ar_ypos st)),
       x2 = num0 (rd points ?i), y2 = num0 (rd points (?i + ar_ypos st))\<rparr>) (clip_xmax (ax_max axisx))"
  note st = assms(2) [unfolded area_round_def Let_def]
  show thesis
  proof (cases ?turn)
    case True
    show thesis by (rule same) (simp_all only: st if_P [OF True], simp_all)
  next
    case turn: False
    show thesis
    proof (cases ?done)
      case True
      show thesis by (rule closed) (use True in \<open>simp_all only: st if_not_P [OF turn] if_P [OF True], simp_all\<close>)
    next
      case d: False
      show thesis
      proof (cases ?gap)
        case True
        show thesis by (rule same) (simp_all only: st if_not_P [OF turn] if_not_P [OF d] if_P [OF True], simp_all)
      next
        case gap: False
        note st' = st [unfolded if_not_P [OF turn] if_not_P [OF d] if_not_P [OF gap]]
        show thesis
        proof (cases ?clip)
          case None
          show thesis by (rule same) (simp_all only: st' None option.case, simp_all)
        next
          case (Some s)
          show thesis
            by (rule drawn [OF clip_x_between [OF Some assms(1)]]) (simp_all only: st' Some option.case, simp_all)
        qed
      qed
    qed
  qed
qed

lemma area_round_cmds:
  assumes "ax_min axisx \<le> ax_max axisx" "ax_min axisy \<le> ax_max axisy" "inside axisx axisy (ar_cmds st)"
    and "begun (ar_cmds st) = filled_areas (ar_cmds st) + (if ar_open st then 1 else 0)"
  shows "inside axisx axisy (ar_cmds (area_round points axisx axisy st))
    \<and> begun (ar_cmds (area_round points axisx axisy st))
      = filled_areas (ar_cmds (area_round points axisx axisy st)) + (if ar_open (area_round points axisx axisy st) then 1 else 0)"
proof -
  let ?st = "area_round points axisx axisy st"
  have bot: "ax_min axisy \<le> area_bottom axisy" "area_bottom axisy \<le> ax_max axisy"
    using assms(2) by (simp_all add: area_bottom_def)
  from assms(1) refl [of ?st] show ?thesis
  proof (cases rule: area_round_cases)
    case same
    then show ?thesis using assms(3,4) by simp
  next
    case closed
    then show ?thesis using assms(3,4) by (simp add: inside_def begun_def filled_areas_def)
  next
    case (drawn s)
    have "in_range axisx axisy (x1 s, area_bottom axisy)" using drawn(1) bot by (simp add: in_range_def x_between_def)
    moreover have "\<forall>q \<in> set (outline axisy s). in_range axisx axisy q" using outline_in_range [OF drawn(1) assms(2)] by blast
    ultimately have "inside axisx axisy (ar_cmds ?st)" using assms(3) unfolding drawn(3)
      by (auto simp: inside_append inside_outline inside_begin)
    moreover have "begun (ar_cmds ?st) = filled_areas (ar_cmds ?st) + 1"
      using assms(4) unfolding drawn(3) by (simp add: begun_def filled_areas_def)
    ultimately show ?thesis using drawn(2) by simp
  qed
qed

lemma area_loop_ok:
  assumes "0 < p" "ax_min axisx \<le> ax_max axisx" "ax_min axisy \<le> ax_max axisy"
    and "sweep_ok points p st" "ahead points p st < int fuel * p" "inside axisx axisy (ar_cmds st)"
    and "begun (ar_cmds st) = filled_areas (ar_cmds st) + (if ar_open st then 1 else 0)"
  shows "\<exists>d. area_loop fuel points axisx axisy st = Some d \<and> inside axisx axisy d \<and> begun d = filled_areas d"
  using assms(4-)
proof (induction fuel arbitrary: st)
  case 0
  then show ?case using ahead_nonneg [OF assms(1)] by fastforce
next
  case (Suc fuel)
  show ?case
  proof (cases "ar_ps st > 0 \<and> ar_i st > int (length points) + ar_ps st")
    case True
    then have "\<not> ar_open st" using Suc.prems(1) assms(1) rd_range [of points "ar_i st"] by (auto simp: sweep_ok_def)
    then show ?thesis using True Suc.prems by simp
  next
    case False
    note r = area_round_ok [OF assms(1) Suc.prems(1) False, of axisx axisy]
    note c = area_round_cmds [OF assms(2,3) Suc.prems(3,4), of points]
    have "ahead points p (area_round points axisx axisy st) < int fuel * p"
      using r Suc.prems(2) by (simp add: algebra_simps)
    then have "\<exists>d. area_loop fuel points axisx axisy (area_round points axisx axisy st) = Some d \<and> inside axisx axisy d
        \<and> begun d = filled_areas d"
      using Suc.IH [of "area_round points axisx axisy st"] r c by blast
    then show ?thesis by (simp only: area_loop.simps if_not_P [OF False])
  qed
qed

lemma area_returns_closed:
  assumes "0 < ps" "ax_min axisx \<le> ax_max axisx" "ax_min axisy \<le> ax_max axisy"
  shows "\<exists>d. plotLineArea ps points axisx axisy = Some d \<and> inside axisx axisy d \<and> begun d = filled_areas d"
  unfolding plotLineArea_def
proof (rule area_loop_ok [where p = "int ps"])
  show "ahead points (int ps)
      \<lparr>ar_i = 0, ar_ps = int ps, ar_open = False, ar_ypos = 1, segmentStart = 0, segmentEnd = 0, ar_cmds = []\<rparr>
    < int (4 * length points + 20) * int ps"
  proof -
    have "int (length points) * 1 \<le> int (length points) * int ps" using assms(1) by (intro mult_left_mono) auto
    then show ?thesis using assms(1) by (simp add: ahead_def algebra_simps)
  qed
qed (use assms in \<open>simp_all add: sweep_ok_def inside_def begun_def filled_areas_def\<close>)

lemma area_returns:
  "0 < ps \<Longrightarrow> ax_min axisx \<le> ax_max axisx \<Longrightarrow> ax_min axisy \<le> ax_max axisy \<Longrightarrow> plotLineArea ps points axisx axisy \<noteq> None"
  using area_returns_closed by blast

text \<open>
  C32. Filling the area of a line always ends; every vertex of the areas is the image of a position
  in the ranges of both axes, whatever the data, and every area that is begun is filled.
\<close>

theorem plotLineArea_closed:
  assumes "0 < ps" "ax_min axisx \<le> ax_max axisx" "ax_min axisy \<le> ax_max axisy"
  shows "\<exists>d. plotLineArea ps points axisx axisy = Some d \<and> inside axisx axisy d \<and> begun d = filled_areas d"
  by (rule area_returns_closed [OF assms])

theorem plotLineArea_closed_witness:
  "\<exists>d. plotLineArea 3 [Some 1, Some 5, Some 0, None, None, None] (demo_axis X) (demo_axis Y) = Some d \<and> begun d = filled_areas d"
  using plotLineArea_closed [of 3 "demo_axis X" "demo_axis Y" "[Some 1, Some 5, Some 0, None, None, None]"]
  by (auto simp: demo_axis_facts)

end
