(* ===== verification/Shapes.thy ===== *)
theory Shapes
  imports Areas Color
begin

text \<open>
  Drawing one series, \<open>static/flot/jquery.flot.js\<close>: fill styles, points, bars and lines with their
  shadows (\<open>drawSeries\<close> and what it calls). The rendering of a number inside a colour text is the
  argument \<open>ns\<close>. \<open>None\<close> is an error that stops the drawing, or a loop that does not end.
\<close>

section \<open>Styles\<close>

definition parse_css :: "(real \<Rightarrow> string) \<Rightarrow> markup \<Rightarrow> color" where
  "parse_css ns m = parse (flatten ns m)"

text \<open>The colour of one stop of a gradient.\<close>

definition stop_color :: "(real \<Rightarrow> string) \<Rightarrow> markup \<Rightarrow> color_stop \<Rightarrow> markup" where
  "stop_color ns defaultColor c =
     (case c of
        StopText t \<Rightarrow> t
      | StopSpec g \<Rightarrow>
          let co = parse_css ns defaultColor;
              co1 = (case brightness g of None \<Rightarrow> co | Some b \<Rightarrow> scale ''rgb'' b co);
              co2 = (case opacity g of None \<Rightarrow> co1 | Some a \<Rightarrow> co1\<lparr>alpha := alpha co1 * a\<rparr>)
          in toString co2)"

text \<open>
  A colour or a gradient. A gradient needs its two ends, and with a single colour the place of its
  stop is 0 divided by 0: both are errors of the drawing context.
\<close>

definition getColorOrGradient ::
  "(real \<Rightarrow> string) \<Rightarrow> fill_color \<Rightarrow> real option \<Rightarrow> real option \<Rightarrow> markup \<Rightarrow> style option" where
  "getColorOrGradient ns spec bottom upper defaultColor =
     (case spec of
        FillText t \<Rightarrow> Some (Css t)
      | FillGradient cs \<Rightarrow>
          (case (bottom, upper) of
             (Some b, Some t) \<Rightarrow>
               if length cs = 1 then None
               else Some (Gradient t b (map (\<lambda>i. (real i / real (length cs - 1), stop_color ns defaultColor (cs ! i))) [0..<length cs]))
           | _ \<Rightarrow> None)
      | DefaultFill \<Rightarrow> None)"

definition has_fill_color :: "(real \<Rightarrow> string) \<Rightarrow> fill_color \<Rightarrow> bool" where
  "has_fill_color ns f = (case f of DefaultFill \<Rightarrow> False | FillText t \<Rightarrow> flatten ns t \<noteq> [] | FillGradient _ \<Rightarrow> True)"

text \<open>The fill style: \<open>Some None\<close> is \<open>null\<close>.\<close>

definition getFillStyle ::
  "(real \<Rightarrow> string) \<Rightarrow> fill_option \<Rightarrow> fill_color \<Rightarrow> markup \<Rightarrow> real option \<Rightarrow> real option \<Rightarrow> style option option" where
  "getFillStyle ns fill fillColor seriesColor bottom upper =
     (if \<not> fill_truthy fill then Some None
      else if has_fill_color ns fillColor then map_option Some (getColorOrGradient ns fillColor bottom upper seriesColor)
      else
        let c = parse_css ns seriesColor
        in Some (Some (Css (toString (normalize (c\<lparr>alpha := (case fill of FillOpacity a \<Rightarrow> a | _ \<Rightarrow> 0.4)\<rparr>))))))"

section \<open>Points\<close>

definition draw_symbol :: "symbol \<Rightarrow> real \<Rightarrow> real \<Rightarrow> real \<Rightarrow> bool \<Rightarrow> drawing option" where
  "draw_symbol shape x y radius shadow =
     (case shape of
        Circle \<Rightarrow> Some [Arc x y radius 0 (if shadow then pi else pi * 2)]
      | SymbolFun f \<Rightarrow> Some (f x y radius shadow)
      | SymbolName _ \<Rightarrow> None)"

text \<open>A point is shown when it is no gap and lies in the ranges of both axes.\<close>

definition shown_point :: "cell list \<Rightarrow> axis \<Rightarrow> axis \<Rightarrow> nat \<Rightarrow> bool" where
  "shown_point points axisx axisy i \<longleftrightarrow>
     \<not> (rd points (int i) = None
        \<or> num0 (rd points (int i)) < ax_min axisx \<or> num0 (rd points (int i)) > ax_max axisx
        \<or> num0 (rd points (int i + 1)) < ax_min axisy \<or> num0 (rd points (int i + 1)) > ax_max axisy)"

definition plot_point ::
  "cell list \<Rightarrow> real \<Rightarrow> style option \<Rightarrow> real \<Rightarrow> bool \<Rightarrow> axis \<Rightarrow> axis \<Rightarrow> symbol \<Rightarrow> nat \<Rightarrow> drawing option" where
  "plot_point points radius fillStyle offset shadow axisx axisy shape i =
     (if \<not> shown_point points axisx axisy i then Some []
      else
        map_option (\<lambda>d. [BeginPath] @ d @ [ClosePath]
            @ (case fillStyle of None \<Rightarrow> [] | Some f \<Rightarrow> [FillStyle f, Fill]) @ [Stroke])
          (draw_symbol shape (ax_p2c axisx (num0 (rd points (int i)))) (ax_p2c axisy (num0 (rd points (int i + 1))) + offset) radius shadow))"

text \<open>The drawings of a list, one after the other, as far as none of them fails.\<close>

fun all_drawings :: "drawing option list \<Rightarrow> drawing option" where
  "all_drawings [] = Some []"
| "all_drawings (d # ds) = (case d of None \<Rightarrow> None | Some x \<Rightarrow> map_option (\<lambda>y. x @ y) (all_drawings ds))"

definition plotPoints ::
  "nat \<Rightarrow> cell list \<Rightarrow> real \<Rightarrow> style option \<Rightarrow> real \<Rightarrow> bool \<Rightarrow> axis \<Rightarrow> axis \<Rightarrow> symbol \<Rightarrow> drawing option" where
  "plotPoints ps points radius fillStyle offset shadow axisx axisy shape =
     (if ps = 0 \<and> points \<noteq> [] then None
      else all_drawings (map (plot_point points radius fillStyle offset shadow axisx axisy shape) (starts (length points) ps)))"

section \<open>Bars\<close>

text \<open>The sides of a bar and which of them are drawn.\<close>

record bar =
  bar_left :: real
  bar_right :: real
  bar_bottom :: real
  bar_top :: real
  drawLeft :: bool
  drawRight :: bool
  drawTop :: bool
  drawBottom :: bool

definition bar_sides :: "real \<Rightarrow> real \<Rightarrow> real \<Rightarrow> real \<Rightarrow> real \<Rightarrow> bool \<Rightarrow> bar" where
  "bar_sides x y b barLeft barRight horizontal =
     (if horizontal then
        (let left = b; right = x
         in \<lparr>bar_left = (if right < left then right else left), bar_right = (if right < left then left else right),
             bar_bottom = y + barRight, bar_top = y + barLeft,
             drawLeft = (right < left), drawRight = (\<not> right < left), drawTop = True, drawBottom = True\<rparr>)
      else
        (let bottom = b; top = y
         in \<lparr>bar_left = x + barLeft, bar_right = x + barRight,
             bar_bottom = (if top < bottom then top else bottom), bar_top = (if top < bottom then bottom else top),
             drawLeft = True, drawRight = True, drawTop = (\<not> top < bottom), drawBottom = (top < bottom)\<rparr>))"

definition clip_bar :: "axis \<Rightarrow> axis \<Rightarrow> bar \<Rightarrow> bar option" where
  "clip_bar axisx axisy r =
     (if bar_right r < ax_min axisx \<or> bar_left r > ax_max axisx \<or> bar_top r < ax_min axisy \<or> bar_bottom r > ax_max axisy
      then None
      else
        let r1 = (if bar_left r < ax_min axisx then r\<lparr>bar_left := ax_min axisx, drawLeft := False\<rparr> else r);
            r2 = (if bar_right r1 > ax_max axisx then r1\<lparr>bar_right := ax_max axisx, drawRight := False\<rparr> else r1);
            r3 = (if bar_bottom r2 < ax_min axisy then r2\<lparr>bar_bottom := ax_min axisy, drawBottom := False\<rparr> else r2)
        in Some (if bar_top r3 > ax_max axisy then r3\<lparr>bar_top := ax_max axisy, drawTop := False\<rparr> else r3))"

text \<open>\<open>side drawn\<close> is \<open>lineTo\<close> or \<open>moveTo\<close>.\<close>

definition side :: "bool \<Rightarrow> real \<Rightarrow> real \<Rightarrow> cmd" where
  "side drawn x y = (if drawn then LineTo x y else MoveTo x y)"

definition drawBar ::
  "real \<Rightarrow> real \<Rightarrow> real \<Rightarrow> real \<Rightarrow> real \<Rightarrow> real \<Rightarrow> (real \<Rightarrow> real \<Rightarrow> style option option) option
    \<Rightarrow> axis \<Rightarrow> axis \<Rightarrow> bool \<Rightarrow> real \<Rightarrow> drawing option" where
  "drawBar x y b barLeft barRight offset fillStyleCallback axisx axisy horizontal lineWidth =
     (case clip_bar axisx axisy (bar_sides x y b barLeft barRight horizontal) of
        None \<Rightarrow> Some []
      | Some r \<Rightarrow>
          let left = ax_p2c axisx (bar_left r); bottom = ax_p2c axisy (bar_bottom r);
              right = ax_p2c axisx (bar_right r); top = ax_p2c axisy (bar_top r)
          in map_option (\<lambda>fill. fill
               @ (if lineWidth > 0 \<and> (drawLeft r \<or> drawRight r \<or> drawTop r \<or> drawBottom r) then
                    [BeginPath, MoveTo left (bottom + offset), side (drawLeft r) left (top + offset),
                     side (drawTop r) right (top + offset), side (drawRight r) right (bottom + offset),
                     side (drawBottom r) left (bottom + offset), Stroke]
                  else []))
             (case fillStyleCallback of
                None \<Rightarrow> Some []
              | Some f \<Rightarrow>
                  map_option (\<lambda>st. [BeginPath, MoveTo left bottom, LineTo left top, LineTo right top, LineTo right bottom]
                      @ (case st of None \<Rightarrow> [] | Some s \<Rightarrow> [FillStyle s]) @ [Fill])
                    (f bottom top)))"

definition plotBars ::
  "series \<Rightarrow> real \<Rightarrow> real \<Rightarrow> real \<Rightarrow> (real \<Rightarrow> real \<Rightarrow> style option option) option \<Rightarrow> axis \<Rightarrow> axis \<Rightarrow> drawing option" where
  "plotBars s barLeft barRight offset fillStyleCallback axisx axisy =
     (let ps = (case dp_pointsize s of None \<Rightarrow> 0 | Some n \<Rightarrow> n); points = dp_points s
      in if ps = 0 \<and> points \<noteq> [] then None
         else all_drawings (map (\<lambda>i. if rd points (int i) = None then Some []
             else drawBar (num0 (rd points (int i))) (num0 (rd points (int i + 1))) (num0 (rd points (int i + 2)))
                    barLeft barRight offset fillStyleCallback axisx axisy (br_horizontal (sr_bars s)) (br_width (sr_bars s)))
           (starts (length points) ps)))"


section \<open>A series\<close>

text \<open>The part of the plot's geometry that drawing a series reads.\<close>

record geometry =
  plotLeft :: real
  plotTop :: real
  plotWidth :: real
  plotHeight :: real

definition series_color :: "series \<Rightarrow> markup" where
  "series_color s = (case sr_color s of ColorText t \<Rightarrow> t | _ \<Rightarrow> [])"

definition then_draw :: "drawing option \<Rightarrow> drawing option \<Rightarrow> drawing option" where
  "then_draw a b = (case a of None \<Rightarrow> None | Some x \<Rightarrow> map_option (\<lambda>y. x @ y) b)"

definition pointsize_of :: "series \<Rightarrow> nat" where
  "pointsize_of s = (case dp_pointsize s of None \<Rightarrow> 0 | Some n \<Rightarrow> n)"

definition in_plot :: "geometry \<Rightarrow> drawing option \<Rightarrow> drawing option" where
  "in_plot g d = map_option (\<lambda>x. Save # Translate (plotLeft g) (plotTop g) # x @ [Restore]) d"

text \<open>The shadow of a line: two lines of less and less width, displaced at an angle.\<close>

definition line_shadow :: "series \<Rightarrow> axis \<Rightarrow> axis \<Rightarrow> drawing option" where
  "line_shadow s axisx axisy =
     (let lw = ln_width (sr_lines s); sw = sr_shadowSize s; angle = pi / 18;
          line = (\<lambda>dist. plotLine (pointsize_of s) (dp_points s) (sin angle * dist) (cos angle * dist) axisx axisy)
      in if lw > 0 \<and> sw > 0 then
           then_draw (Some [LineWidth sw, StrokeStyle (Css [T ''rgba(0,0,0,0.1)''])])
             (then_draw (line (lw / 2 + sw / 2)) (then_draw (Some [LineWidth (sw / 2)]) (line (lw / 2 + sw / 4))))
         else Some [])"

definition drawSeriesLines :: "(real \<Rightarrow> string) \<Rightarrow> geometry \<Rightarrow> axis \<Rightarrow> axis \<Rightarrow> series \<Rightarrow> drawing option" where
  "drawSeriesLines ns g axisx axisy s =
     (let l = sr_lines s; lw = ln_width l; col = series_color s
      in in_plot g
           (then_draw (Some [LineJoin ''round''])
             (then_draw (line_shadow s axisx axisy)
               (then_draw (Some [LineWidth lw, StrokeStyle (Css col)])
                 (then_draw
                   (case getFillStyle ns (ln_fill l) (ln_fillColor l) col (Some 0) (Some (plotHeight g)) of
                      None \<Rightarrow> None
                    | Some None \<Rightarrow> Some []
                    | Some (Some st) \<Rightarrow>
                        then_draw (Some [FillStyle st]) (plotLineArea (pointsize_of s) (dp_points s) axisx axisy))
                   (if lw > 0 then plotLine (pointsize_of s) (dp_points s) 0 0 axisx axisy else Some []))))))"

definition drawSeriesPoints :: "(real \<Rightarrow> string) \<Rightarrow> geometry \<Rightarrow> axis \<Rightarrow> axis \<Rightarrow> series \<Rightarrow> drawing option" where
  "drawSeriesPoints ns g axisx axisy s =
     (let p = sr_points s; lw = pt_width p; sw = sr_shadowSize s; w = sw / 2; col = series_color s;
          plot = (\<lambda>fill offset shadow.
             plotPoints (pointsize_of s) (dp_points s) (pt_radius p) fill offset shadow axisx axisy (pt_symbol p))
      in in_plot g
           (then_draw
             (if lw > 0 \<and> sw > 0 then
                then_draw (Some [LineWidth w, StrokeStyle (Css [T ''rgba(0,0,0,0.1)''])])
                  (then_draw (plot None (w + w / 2) True)
                    (then_draw (Some [StrokeStyle (Css [T ''rgba(0,0,0,0.2)''])]) (plot None (w / 2) True)))
              else Some [])
             (then_draw (Some [LineWidth lw, StrokeStyle (Css col)])
               (case getFillStyle ns (pt_fill p) (pt_fillColor p) col None None of
                  None \<Rightarrow> None
                | Some fill \<Rightarrow> plot fill 0 False))))"

definition drawSeriesBars :: "(real \<Rightarrow> string) \<Rightarrow> geometry \<Rightarrow> axis \<Rightarrow> axis \<Rightarrow> series \<Rightarrow> drawing option" where
  "drawSeriesBars ns g axisx axisy s =
     (let b = sr_bars s; col = series_color s; barLeft = (if br_left b then 0 else - br_barWidth b / 2);
          callback = (if fill_truthy (br_fill b)
             then Some (\<lambda>bottom upper. getFillStyle ns (br_fill b) (br_fillColor b) col (Some bottom) (Some upper)) else None)
      in in_plot g
           (then_draw (Some [LineWidth (br_width b), StrokeStyle (Css col)])
             (plotBars s barLeft (barLeft + br_barWidth b) 0 callback axisx axisy)))"

text \<open>
  A series on its axes; both exist once the options are filled in. \<open>None\<close> for a missing one is the
  error of reading a property of it.
\<close>

definition drawSeries :: "(real \<Rightarrow> string) \<Rightarrow> geometry \<Rightarrow> axes \<Rightarrow> axes \<Rightarrow> series \<Rightarrow> drawing option" where
  "drawSeries ns g xs ys s =
     (case (axis_at xs (axisNumber (sr_xaxis s) - 1), axis_at ys (axisNumber (sr_yaxis s) - 1)) of
        (Some ax, Some ay) \<Rightarrow>
          then_draw (if shows_lines s then drawSeriesLines ns g ax ay s else Some [])
            (then_draw (if br_show (sr_bars s) then drawSeriesBars ns g ax ay s else Some [])
              (if pt_show (sr_points s) then drawSeriesPoints ns g ax ay s else Some []))
      | _ \<Rightarrow> None)"

section \<open>Correctness of a bar\<close>

lemma clip_bar_inside:
  fixes r :: bar
  assumes "\<not> (bar_right r < ax_min axisx \<or> bar_left r > ax_max axisx \<or> bar_top r < ax_min axisy \<or> bar_bottom r > ax_max axisy)"
  shows "clip_bar axisx axisy r = Some
    \<lparr>bar_left = max (bar_left r) (ax_min axisx), bar_right = min (bar_right r) (ax_max axisx),
     bar_bottom = max (bar_bottom r) (ax_min axisy), bar_top = min (bar_top r) (ax_max axisy),
     drawLeft = (drawLeft r \<and> ax_min axisx \<le> bar_left r), drawRight = (drawRight r \<and> bar_right r \<le> ax_max axisx),
     drawTop = (drawTop r \<and> bar_top r \<le> ax_max axisy), drawBottom = (drawBottom r \<and> ax_min axisy \<le> bar_bottom r)\<rparr>"
proof -
  note if_outside = if_not_P [OF assms]
  show ?thesis unfolding clip_bar_def if_outside Let_def
    by (cases "bar_left r < ax_min axisx"; cases "bar_right r > ax_max axisx"; cases "bar_bottom r < ax_min axisy";
        cases "bar_top r > ax_max axisy"; simp add: max_def min_def)
qed

text \<open>
  C33. What is drawn of a vertical bar is exactly the part of it inside the plot area: nothing when
  the bar lies outside; otherwise the filled corners are those of the bar, each moved to the border of the
  area where it lies beyond it, and the outline has the sides and the end of the bar that are not
  beyond a border, never its foot.
\<close>

theorem drawBar_exact:
  assumes "left = x + barLeft" "right = x + barRight" "low = min y b" "high = max y b"
    and "l = ax_p2c axisx (max left (ax_min axisx))" "r = ax_p2c axisx (min right (ax_max axisx))"
    and "lo = ax_p2c axisy (max low (ax_min axisy))" "hi = ax_p2c axisy (min high (ax_max axisy))"
    and "dl \<longleftrightarrow> ax_min axisx \<le> left" "dr \<longleftrightarrow> right \<le> ax_max axisx"
    and "dt \<longleftrightarrow> b \<le> y \<and> y \<le> ax_max axisy" "db \<longleftrightarrow> y < b \<and> ax_min axisy \<le> y"
    and "ax_min axisx \<le> ax_max axisx" "ax_min axisy \<le> ax_max axisy" "barLeft \<le> barRight"
  shows "drawBar x y b barLeft barRight offset (Some f) axisx axisy False w =
    (if right < ax_min axisx \<or> left > ax_max axisx \<or> high < ax_min axisy \<or> low > ax_max axisy then Some []
     else map_option (\<lambda>st.
        [BeginPath, MoveTo l lo, LineTo l hi, LineTo r hi, LineTo r lo]
        @ (case st of None \<Rightarrow> [] | Some c \<Rightarrow> [FillStyle c]) @ [Fill]
        @ (if w > 0 \<and> (dl \<or> dr \<or> dt \<or> db) then
             [BeginPath, MoveTo l (lo + offset), side dl l (hi + offset), side dt r (hi + offset), side dr r (lo + offset),
              side db l (lo + offset), Stroke] else [])) (f lo hi))"
proof -
  let ?r = "bar_sides x y b barLeft barRight False"
  have r: "bar_left ?r = left" "bar_right ?r = right" "bar_bottom ?r = low" "bar_top ?r = high"
    "drawLeft ?r" "drawRight ?r" "drawTop ?r \<longleftrightarrow> b \<le> y" "drawBottom ?r \<longleftrightarrow> y < b"
    using assms(1-4) by (auto simp: bar_sides_def)
  show ?thesis
  proof (cases "right < ax_min axisx \<or> left > ax_max axisx \<or> high < ax_min axisy \<or> low > ax_max axisy")
    case True
    then show ?thesis by (simp add: drawBar_def clip_bar_def r)
  next
    case False
    note c = clip_bar_inside [of ?r axisx axisy, unfolded r, OF False]
    have "b \<le> y \<Longrightarrow> high = y" "y < b \<Longrightarrow> low = y" using assms(3,4) by simp_all
    then have ends: "(b \<le> y \<and> high \<le> ax_max axisy) = dt" "(y < b \<and> ax_min axisy \<le> low) = db" using assms(11,12) by auto
    show ?thesis unfolding if_not_P [OF False] drawBar_def c option.case Let_def bar.simps assms(5-8) [symmetric] ends
        assms(9,10) [symmetric] simp_thms
      by (cases "f lo hi") (simp_all add: r(5,6))
  qed
qed

theorem drawBar_exact_witness:
  "\<exists>d. drawBar 3 8 0 0 1 0 (Some (\<lambda>_ _. Some None)) (demo_axis X) (demo_axis Y) False 2 = Some d \<and> d \<noteq> []"
  using drawBar_exact [OF refl refl refl refl refl refl refl refl refl refl refl refl,
      of "demo_axis X" "demo_axis Y" 0 1 3 8 0 0 "\<lambda>_ _. Some None" 2]
  by (simp add: demo_axis_facts)

text \<open>
  A horizontal bar takes the lower of its two ordinates for the top: it is dropped as soon as a
  part of it lies outside the range, also when the rest is visible.
\<close>

lemma horizontal_bar_dropped:
  assumes "y + barLeft < ax_min axisy" "ax_min axisy < y + barRight"
  shows "drawBar x y b barLeft barRight 0 f axisx axisy True w = Some []"
  using assms by (simp add: drawBar_def clip_bar_def bar_sides_def Let_def)


section \<open>The whole drawing of a series\<close>

lemma flat_line_rounds:
  "flat (snd st) \<Longrightarrow> flat (snd (fold (line_round ps points xo yo ax ay) ks st))"
  by (induction ks arbitrary: st) (auto simp: line_round_def split: option.split)

lemma plotLine_flat: "plotLine ps points xo yo ax ay = Some d \<Longrightarrow> flat d"
  using flat_line_rounds [of "(None, [])" ps points xo yo ax ay] by (auto simp: plotLine_def split: if_splits)

lemma flat_line_to [simp]: "flat (map (line_to ax ay) qs)"
  by (induction qs) (simp_all add: line_to_def)

lemma area_round_flat: "flat (ar_cmds st) \<Longrightarrow> flat (ar_cmds (area_round points ax ay st))"
  by (simp add: area_round_def Let_def split: option.split)

lemma area_loop_flat: "area_loop fuel points ax ay st = Some d \<Longrightarrow> flat (ar_cmds st) \<Longrightarrow> flat d"
  by (induction fuel arbitrary: st) (auto simp: area_round_flat split: if_splits)

lemma plotLineArea_flat: "plotLineArea ps points ax ay = Some d \<Longrightarrow> flat d"
  unfolding plotLineArea_def by (erule area_loop_flat) simp

lemma all_drawings_flat:
  "all_drawings ds = Some d \<Longrightarrow> (\<And>x. Some x \<in> set ds \<Longrightarrow> flat x) \<Longrightarrow> flat d"
  by (induction ds arbitrary: d) (auto split: option.splits)

text \<open>Symbols that only draw.\<close>

definition plain_symbol :: "symbol \<Rightarrow> bool" where
  "plain_symbol shape = (case shape of Circle \<Rightarrow> True | SymbolName _ \<Rightarrow> False | SymbolFun f \<Rightarrow> \<forall>x y r sh. flat (f x y r sh))"

lemma plot_point_flat:
  "plain_symbol shape \<Longrightarrow> plot_point points radius fill offset shadow ax ay shape i = Some d \<Longrightarrow> flat d"
  by (auto simp: plot_point_def draw_symbol_def plain_symbol_def split: if_splits symbol.splits option.splits)

lemma plotPoints_flat:
  assumes "plain_symbol shape" "plotPoints ps points radius fill offset shadow ax ay shape = Some d"
  shows "flat d"
proof (rule all_drawings_flat)
  show "all_drawings (map (plot_point points radius fill offset shadow ax ay shape) (starts (length points) ps)) = Some d"
    using assms(2) by (simp add: plotPoints_def split: if_splits)
  show "flat x" if "Some x \<in> set (map (plot_point points radius fill offset shadow ax ay shape) (starts (length points) ps))" for x
    using that plot_point_flat [OF assms(1)] by (metis (no_types, lifting) imageE list.set_map)
qed

lemma side_flat [simp]: "side b x y \<noteq> Save" "side b x y \<noteq> Restore"
  by (simp_all add: side_def)

lemma drawBar_flat: "drawBar x y b bl br off f ax ay h w = Some d \<Longrightarrow> flat d"
  by (auto simp: drawBar_def Let_def split: option.splits)

lemma plotBars_flat:
  assumes "plotBars s bl br off f ax ay = Some d"
  shows "flat d"
proof (rule all_drawings_flat)
  let ?ps = "case dp_pointsize s of None \<Rightarrow> 0 | Some n \<Rightarrow> n"
  let ?b = "\<lambda>i. if rd (dp_points s) (int i) = None then Some []
     else drawBar (num0 (rd (dp_points s) (int i))) (num0 (rd (dp_points s) (int i + 1))) (num0 (rd (dp_points s) (int i + 2)))
            bl br off f ax ay (br_horizontal (sr_bars s)) (br_width (sr_bars s))"
  show "all_drawings (map ?b (starts (length (dp_points s)) ?ps)) = Some d"
    using assms by (simp add: plotBars_def Let_def split: if_splits)
  fix x
  assume "Some x \<in> set (map ?b (starts (length (dp_points s)) ?ps))"
  then obtain i where "Some x = ?b i" unfolding set_map by (rule imageE)
  then show "flat x" by (cases "rd (dp_points s) (int i) = None") (simp, metis (mono_tags) drawBar_flat)
qed

text \<open>Drawings that do not save or restore, if there is a drawing.\<close>

definition flat_opt :: "drawing option \<Rightarrow> bool" where
  "flat_opt d \<longleftrightarrow> (\<forall>x. d = Some x \<longrightarrow> flat x)"

named_theorems flat_intros "drawings that neither save nor restore"

lemma flat_opt_intros [flat_intros]:
  "flat_opt None" "flat x \<Longrightarrow> flat_opt (Some x)" "flat_opt a \<Longrightarrow> flat_opt b \<Longrightarrow> flat_opt (then_draw a b)"
  "(c \<Longrightarrow> flat_opt a) \<Longrightarrow> (\<not> c \<Longrightarrow> flat_opt b) \<Longrightarrow> flat_opt (if c then a else b)"
  by (auto simp: flat_opt_def then_draw_def split: option.splits)

lemma flat_opt_plots [flat_intros]:
  "flat_opt (plotLine ps points xo yo ax ay)" "flat_opt (plotLineArea ps points ax ay)" "flat_opt (plotBars s bl br off f ax ay)"
  "plain_symbol shape \<Longrightarrow> flat_opt (plotPoints ps points radius fill offset shadow ax ay shape)"
  by (simp_all add: flat_opt_def plotLine_flat plotLineArea_flat plotBars_flat plotPoints_flat)

lemma flat_opt_case [flat_intros]:
  "flat_opt a \<Longrightarrow> (\<And>x. flat_opt (f x)) \<Longrightarrow> flat_opt (case d of None \<Rightarrow> a | Some x \<Rightarrow> f x)"
  by (simp split: option.split)

lemma in_plot_balanced: "in_plot g d = Some e \<Longrightarrow> flat_opt d \<Longrightarrow> balanced e"
  using balanced_save [of "Translate (plotLeft g) (plotTop g) # the d"] flat_balanced
  by (auto simp: in_plot_def balanced_Cons flat_opt_def)

lemma line_shadow_flat [flat_intros]: "flat_opt (line_shadow s ax ay)"
  unfolding line_shadow_def Let_def by (intro flat_intros) simp_all

lemma drawSeriesLines_balanced: "drawSeriesLines ns g ax ay s = Some d \<Longrightarrow> balanced d"
  unfolding drawSeriesLines_def Let_def by (erule in_plot_balanced) (intro flat_intros; simp)

lemma drawSeriesPoints_balanced:
  "plain_symbol (pt_symbol (sr_points s)) \<Longrightarrow> drawSeriesPoints ns g ax ay s = Some d \<Longrightarrow> balanced d"
  unfolding drawSeriesPoints_def Let_def by (erule in_plot_balanced) (intro flat_intros; simp)

lemma drawSeriesBars_balanced: "drawSeriesBars ns g ax ay s = Some d \<Longrightarrow> balanced d"
  unfolding drawSeriesBars_def Let_def by (erule in_plot_balanced) (intro flat_intros; simp)

section \<open>It always succeeds\<close>

text \<open>Fill colours the drawing context accepts; \<open>ends\<close> says whether the ends of a gradient are known.\<close>

definition fill_ok :: "bool \<Rightarrow> fill_color \<Rightarrow> bool" where
  "fill_ok ends f = (case f of FillGradient cs \<Rightarrow> ends \<and> length cs \<noteq> 1 | _ \<Rightarrow> True)"

lemma getFillStyle_defined:
  "fill_ok True f \<Longrightarrow> getFillStyle ns fill f col (Some b) (Some t) \<noteq> None"
  "fill_ok False f \<Longrightarrow> getFillStyle ns fill f col None None \<noteq> None"
  by (auto simp: getFillStyle_def getColorOrGradient_def has_fill_color_def fill_ok_def Let_def split: fill_color.splits)

lemma then_draw_defined [simp]: "then_draw a b \<noteq> None \<longleftrightarrow> a \<noteq> None \<and> b \<noteq> None"
  by (auto simp: then_draw_def split: option.splits)

lemma in_plot_defined [simp]: "in_plot g d \<noteq> None \<longleftrightarrow> d \<noteq> None"
  by (simp add: in_plot_def)

lemma all_drawings_defined: "(\<And>d. d \<in> set ds \<Longrightarrow> d \<noteq> None) \<Longrightarrow> all_drawings ds \<noteq> None"
  by (induction ds) (auto split: option.splits)

lemma plotPoints_defined: "0 < ps \<Longrightarrow> plain_symbol shape \<Longrightarrow> plotPoints ps points radius fill offset shadow ax ay shape \<noteq> None"
  unfolding plotPoints_def
  by (auto intro!: all_drawings_defined simp del: not_None_eq simp: plot_point_def draw_symbol_def plain_symbol_def split: symbol.splits)

lemma plotBars_defined:
  assumes "0 < pointsize_of s" "\<And>g b t. f = Some g \<Longrightarrow> g b t \<noteq> None"
  shows "plotBars s bl br off f ax ay \<noteq> None"
proof -
  have bar: "drawBar x y b bl br off f ax ay h w \<noteq> None" for x y b h w
    using assms(2) by (cases f) (auto simp: drawBar_def Let_def simp del: not_None_eq split: option.split)
  have "all_drawings (map (\<lambda>i. if rd (dp_points s) (int i) = None then Some []
      else drawBar (num0 (rd (dp_points s) (int i))) (num0 (rd (dp_points s) (int i + 1))) (num0 (rd (dp_points s) (int i + 2)))
             bl br off f ax ay (br_horizontal (sr_bars s)) (br_width (sr_bars s))) ks) \<noteq> None" for ks
    using bar [simplified] by (intro all_drawings_defined) auto
  then show ?thesis using assms(1) by (simp add: plotBars_def pointsize_of_def Let_def del: not_None_eq)
qed

text \<open>A series that can be drawn: whole points, known symbols, usable gradients.\<close>

definition drawable :: "series \<Rightarrow> bool" where
  "drawable s \<longleftrightarrow> 0 < pointsize_of s \<and> plain_symbol (pt_symbol (sr_points s))
     \<and> fill_ok True (ln_fillColor (sr_lines s)) \<and> fill_ok True (br_fillColor (sr_bars s))
     \<and> fill_ok False (pt_fillColor (sr_points s))"

lemma drawSeriesLines_defined:
  assumes "drawable s" "ax_min ax \<le> ax_max ax" "ax_min ay \<le> ax_max ay"
  shows "drawSeriesLines ns g ax ay s \<noteq> None"
proof -
  have p: "plotLine (pointsize_of s) (dp_points s) xo yo ax ay \<noteq> None" for xo yo
    using assms(1) by (simp add: plotLine_def drawable_def)
  have "plotLineArea (pointsize_of s) (dp_points s) ax ay \<noteq> None"
    using area_returns [OF _ assms(2,3)] assms(1) by (simp add: drawable_def)
  moreover have "getFillStyle ns (ln_fill (sr_lines s)) (ln_fillColor (sr_lines s)) (series_color s) (Some 0) (Some (plotHeight g)) \<noteq> None"
    using getFillStyle_defined(1) assms(1) by (simp add: drawable_def)
  ultimately show ?thesis using p
    unfolding drawSeriesLines_def line_shadow_def Let_def by (auto simp del: not_None_eq split: option.split)
qed

lemma drawable_drawing:
  assumes "drawable s" "axis_at xs (axisNumber (sr_xaxis s) - 1) = Some ax" "axis_at ys (axisNumber (sr_yaxis s) - 1) = Some ay"
    and "ax_min ax \<le> ax_max ax" "ax_min ay \<le> ax_max ay"
  shows "\<exists>d. drawSeries ns g xs ys s = Some d \<and> balanced d"
proof -
  have lines: "\<exists>d. drawSeriesLines ns g ax ay s = Some d \<and> balanced d"
    using drawSeriesLines_defined [OF assms(1,4,5)] drawSeriesLines_balanced by blast
  have "plotBars s bl br 0 (if fill_truthy (br_fill (sr_bars s))
      then Some (\<lambda>b t. getFillStyle ns (br_fill (sr_bars s)) (br_fillColor (sr_bars s)) (series_color s) (Some b) (Some t))
      else None) ax ay \<noteq> None" for bl br
  proof (rule plotBars_defined)
    show "0 < pointsize_of s" using assms(1) by (simp add: drawable_def)
    show "h b t \<noteq> None" if "(if fill_truthy (br_fill (sr_bars s))
      then Some (\<lambda>b t. getFillStyle ns (br_fill (sr_bars s)) (br_fillColor (sr_bars s)) (series_color s) (Some b) (Some t))
      else None) = Some h" for h b t
      using that assms(1) getFillStyle_defined(1) [of "br_fillColor (sr_bars s)", simplified]
      by (auto simp: drawable_def split: if_splits)
  qed
  then have "drawSeriesBars ns g ax ay s \<noteq> None"
    unfolding drawSeriesBars_def Let_def in_plot_defined then_draw_defined by blast
  then have bars: "\<exists>d. drawSeriesBars ns g ax ay s = Some d \<and> balanced d" using drawSeriesBars_balanced by blast
  have "drawSeriesPoints ns g ax ay s \<noteq> None"
    using assms(1) getFillStyle_defined(2) [of "pt_fillColor (sr_points s)"] plotPoints_defined
    unfolding drawSeriesPoints_def Let_def drawable_def by (auto simp del: not_None_eq split: option.split)
  then have points: "\<exists>d. drawSeriesPoints ns g ax ay s = Some d \<and> balanced d"
    using drawSeriesPoints_balanced assms(1) by (auto simp: drawable_def)
  obtain a where a: "(if shows_lines s then drawSeriesLines ns g ax ay s else Some []) = Some a" "balanced a" using lines by (cases "shows_lines s") auto
  obtain b where b: "(if br_show (sr_bars s) then drawSeriesBars ns g ax ay s else Some []) = Some b" "balanced b" using bars by (cases "br_show (sr_bars s)") auto
  obtain c where c: "(if pt_show (sr_points s) then drawSeriesPoints ns g ax ay s else Some []) = Some c" "balanced c" using points by (cases "pt_show (sr_points s)") auto
  show ?thesis unfolding drawSeries_def assms(2,3) using a b c by (simp add: then_draw_def balanced_append)
qed

end
