(* ===== verification/Symbol_Plugin.thy ===== *)
theory Symbol_Plugin
  imports Shapes
begin

text \<open>
  The symbol plugin, \<open>static/flot/jquery.flot.symbol.js\<close>: four more shapes for points, drawn so
  that a closed shape covers as much as the circle of the given radius. Names are looked up among the four
  handlers only (not among the properties every object inherits).
\<close>

section \<open>The shapes\<close>

definition square :: "real \<Rightarrow> real \<Rightarrow> real \<Rightarrow> bool \<Rightarrow> drawing" where
  "square x y radius shadow =
     (let size = radius * sqrt pi / 2 in [RectPath (x - size) (y - size) (size + size) (size + size)])"

definition diamond :: "real \<Rightarrow> real \<Rightarrow> real \<Rightarrow> bool \<Rightarrow> drawing" where
  "diamond x y radius shadow =
     (let size = radius * sqrt (pi / 2)
      in [MoveTo (x - size) y, LineTo x (y - size), LineTo (x + size) y, LineTo x (y + size), LineTo (x - size) y])"

definition triangle :: "real \<Rightarrow> real \<Rightarrow> real \<Rightarrow> bool \<Rightarrow> drawing" where
  "triangle x y radius shadow =
     (let size = radius * sqrt (2 * pi / sin (pi / 3)); height = size * sin (pi / 3)
      in [MoveTo (x - size / 2) (y + height / 2), LineTo (x + size / 2) (y + height / 2)]
         @ (if \<not> shadow then [LineTo x (y - height / 2), LineTo (x - size / 2) (y + height / 2)] else []))"

definition cross :: "real \<Rightarrow> real \<Rightarrow> real \<Rightarrow> bool \<Rightarrow> drawing" where
  "cross x y radius shadow =
     (let size = radius * sqrt pi / 2
      in [MoveTo (x - size) (y - size), LineTo (x + size) (y + size), MoveTo (x - size) (y + size), LineTo (x + size) (y - size)])"

definition handlers :: "(string \<times> (real \<Rightarrow> real \<Rightarrow> real \<Rightarrow> bool \<Rightarrow> drawing)) list" where
  "handlers = [(''square'', square), (''diamond'', diamond), (''triangle'', triangle), (''cross'', cross)]"

definition replace_symbol :: "symbol \<Rightarrow> symbol" where
  "replace_symbol shape =
     (case shape of SymbolName n \<Rightarrow> (case map_of handlers n of Some f \<Rightarrow> SymbolFun f | None \<Rightarrow> shape) | _ \<Rightarrow> shape)"

text \<open>The hook, run for the series with a number.\<close>

definition use_symbols :: "nat \<Rightarrow> series list \<Rightarrow> series list option" where
  "use_symbols i ss =
     (if i < length ss then
        Some (ss[i := (ss ! i)\<lparr>sr_points := (sr_points (ss ! i))\<lparr>pt_symbol := replace_symbol (pt_symbol (sr_points (ss ! i)))\<rparr>\<rparr>])
      else None)"

section \<open>The area of a shape\<close>

text \<open>Twice the signed area under a path, by its corners.\<close>

fun shoelace :: "(real \<times> real) list \<Rightarrow> real" where
  "shoelace (p # q # ps) = (fst p * snd q - fst q * snd p) + shoelace (q # ps)"
| "shoelace _ = 0"

definition rect_area :: "cmd \<Rightarrow> real" where
  "rect_area c = (case c of RectPath _ _ w h \<Rightarrow> w * h | _ \<Rightarrow> 0)"

definition covered_area :: "drawing \<Rightarrow> real" where
  "covered_area d = \<bar>shoelace (vertices d)\<bar> / 2 + sum_list (map rect_area d)"

lemma sqrt_mult_self: "0 \<le> a \<Longrightarrow> r * sqrt a * (r * sqrt a) = r\<^sup>2 * a"
  by (simp add: power2_eq_square algebra_simps)

text \<open>
  The symbols a plot can use. A name of the plugin becomes a shape that any series can be drawn with, in
  any place and size; the closed shapes (square, diamond and triangle) cover exactly the area of the
  circle with the same radius, and end where they began.
\<close>

lemma symbols_cover_circle:
  assumes "name \<in> {''square'', ''diamond'', ''triangle'', ''cross''}"
  shows "\<exists>f. replace_symbol (SymbolName name) = SymbolFun f \<and> plain_symbol (SymbolFun f)
    \<and> (name \<noteq> ''cross'' \<longrightarrow> (\<forall>x y r. covered_area (f x y r False) = pi * r\<^sup>2))
    \<and> (name \<in> {''diamond'', ''triangle''} \<longrightarrow> (\<forall>x y r. hd (vertices (f x y r False)) = last (vertices (f x y r False))))"
proof -
  have sq: "covered_area (square x y r False) = pi * r\<^sup>2" for x y r
  proof -
    let ?s = "r * sqrt pi / 2"
    have "covered_area (square x y r False) = (?s + ?s) * (?s + ?s)" by (simp add: covered_area_def square_def rect_area_def Let_def)
    also have "\<dots> = pi * r\<^sup>2" using sqrt_mult_self [of pi r] by (simp add: pi_ge_zero algebra_simps)
    finally show ?thesis .
  qed
  have di: "covered_area (diamond x y r False) = pi * r\<^sup>2" for x y r
  proof -
    let ?s = "r * sqrt (pi / 2)"
    have "shoelace (vertices (diamond x y r False)) = 4 * (?s * ?s)" by (simp add: diamond_def Let_def algebra_simps)
    also have "\<dots> = 2 * (pi * r\<^sup>2)" by (subst sqrt_mult_self) (simp_all add: pi_ge_zero)
    finally show ?thesis by (simp add: covered_area_def diamond_def rect_area_def Let_def pi_ge_zero abs_mult)
  qed
  have tr: "covered_area (triangle x y r False) = pi * r\<^sup>2" for x y r
  proof -
    let ?a = "2 * pi / sin (pi / 3)" and ?s = "r * sqrt (2 * pi / sin (pi / 3))"
    have pos: "0 < sin (pi / 3)" by (simp add: sin_60)
    have "shoelace (vertices (triangle x y r False)) = - (?s * ?s * sin (pi / 3))"
      by (simp add: triangle_def Let_def field_simps)
    also have "?s * ?s = r\<^sup>2 * ?a" using pos by (intro sqrt_mult_self) (simp add: pi_ge_zero)
    also have "- (r\<^sup>2 * ?a * sin (pi / 3)) = - (2 * (pi * r\<^sup>2))" using pos by simp
    finally show ?thesis by (simp add: covered_area_def triangle_def rect_area_def Let_def pi_ge_zero abs_mult)
  qed
  show ?thesis
    using assms sq di tr
    by (auto simp: replace_symbol_def handlers_def plain_symbol_def square_def diamond_def triangle_def cross_def Let_def)
qed

end
