(* ===== verification/Nearby.thy ===== *)
theory Nearby
  imports Shapes
begin

text \<open>
  The data item under the mouse, \<open>static/flot/jquery.flot.js\<close>: \<open>findNearbyItem\<close> searches the points
  of all series, the topmost first, for the one nearest to the mouse, with limits precomputed in data
  units; bars count only when no point is near. It is shown equal to a search by distance in pixels.
\<close>

section \<open>The search\<close>

definition series_axes :: "axes \<Rightarrow> axes \<Rightarrow> series \<Rightarrow> (axis \<times> axis) option" where
  "series_axes xs ys s =
     (case (axis_at xs (axisNumber (sr_xaxis s) - 1), axis_at ys (axisNumber (sr_yaxis s) - 1)) of
        (Some ax, Some ay) \<Rightarrow> Some (ax, ay)
      | _ \<Rightarrow> None)"

text \<open>The limit in data units; an axis with an inverse transformation has none but the largest number.\<close>

definition hover_limit :: "real \<Rightarrow> axis \<Rightarrow> real" where
  "hover_limit maxDistance a =
     (if opt_inverseTransform (ax_options a) \<noteq> None then fakeInfinity else maxDistance / ax_scale a)"

text \<open>The smallest distance so far (squared, in pixels) and the item, a series and a point of it.\<close>

type_synonym best = "real \<times> (nat \<times> nat) option"

text \<open>
  One point of a series. A cell behind the end of the array gives NaN, for which no comparison holds.
\<close>

definition near_round ::
  "real \<Rightarrow> real \<Rightarrow> real \<Rightarrow> axis \<Rightarrow> axis \<Rightarrow> series \<Rightarrow> nat \<Rightarrow> nat \<Rightarrow> best \<Rightarrow> best" where
  "near_round maxDistance mouseX mouseY axisx axisy s i j st =
     (case rd (dp_points s) (int j) of
        None \<Rightarrow> st
      | Some x \<Rightarrow>
          if length (dp_points s) \<le> j + 1 then st
          else
            let y = num0 (rd (dp_points s) (int j + 1));
                mx = ax_c2p axisx mouseX; my = ax_c2p axisy mouseY;
                maxx = hover_limit maxDistance axisx; maxy = hover_limit maxDistance axisy;
                dx = \<bar>ax_p2c axisx x - mouseX\<bar>; dy = \<bar>ax_p2c axisy y - mouseY\<bar>;
                dist = dx * dx + dy * dy
            in if x - mx > maxx \<or> x - mx < - maxx \<or> y - my > maxy \<or> y - my < - maxy then st
               else if dist < fst st then (dist, Some (i, j div pointsize_of s)) else st)"

definition over_bar :: "bar_options \<Rightarrow> real \<Rightarrow> real \<Rightarrow> real \<Rightarrow> real \<Rightarrow> real \<Rightarrow> bool" where
  "over_bar o' mx my x y b =
     (let barLeft = (if br_left o' then 0 else - br_barWidth o' / 2); barRight = barLeft + br_barWidth o'
      in if br_horizontal o' then mx \<le> max b x \<and> mx \<ge> min b x \<and> my \<ge> y + barLeft \<and> my \<le> y + barRight
         else mx \<ge> x + barLeft \<and> mx \<le> x + barRight \<and> my \<ge> min b y \<and> my \<le> max b y)"

definition bar_round ::
  "real \<Rightarrow> real \<Rightarrow> axis \<Rightarrow> axis \<Rightarrow> series \<Rightarrow> nat \<Rightarrow> nat \<Rightarrow> (nat \<times> nat) option \<Rightarrow> (nat \<times> nat) option" where
  "bar_round mouseX mouseY axisx axisy s i j item =
     (case rd (dp_points s) (int j) of
        None \<Rightarrow> item
      | Some x \<Rightarrow>
          if j + 2 < length (dp_points s)
             \<and> over_bar (sr_bars s) (ax_c2p axisx mouseX) (ax_c2p axisy mouseY) x
                 (num0 (rd (dp_points s) (int j + 1))) (num0 (rd (dp_points s) (int j + 2)))
          then Some (i, j div pointsize_of s) else item)"

definition near_series ::
  "real \<Rightarrow> real \<Rightarrow> real \<Rightarrow> axis \<Rightarrow> axis \<Rightarrow> series \<Rightarrow> nat \<Rightarrow> best \<Rightarrow> best" where
  "near_series maxDistance mouseX mouseY axisx axisy s i st =
     (let js = starts (length (dp_points s)) (pointsize_of s);
          st1 = (if shows_lines s \<or> pt_show (sr_points s)
                 then fold (near_round maxDistance mouseX mouseY axisx axisy s i) js st else st)
      in if br_show (sr_bars s) \<and> snd st1 = None
         then (fst st1, fold (bar_round mouseX mouseY axisx axisy s i) js (snd st1)) else st1)"

text \<open>
  The series from the last to the first. \<open>None\<close> is the error of a series without axes, or a
  loop over points of no size, which does not end.
\<close>

fun near_loop ::
  "real \<Rightarrow> real \<Rightarrow> real \<Rightarrow> axes \<Rightarrow> axes \<Rightarrow> (series \<Rightarrow> bool) \<Rightarrow> series list \<Rightarrow> nat \<Rightarrow> best \<Rightarrow> best option" where
  "near_loop maxDistance mouseX mouseY xs ys seriesFilter ss 0 st = Some st"
| "near_loop maxDistance mouseX mouseY xs ys seriesFilter ss (Suc i) st =
     (let s = ss ! i
      in if \<not> seriesFilter s then near_loop maxDistance mouseX mouseY xs ys seriesFilter ss i st
         else case series_axes xs ys s of
           None \<Rightarrow> None
         | Some (axisx, axisy) \<Rightarrow>
             if pointsize_of s = 0 \<and> dp_points s \<noteq> [] then None
             else near_loop maxDistance mouseX mouseY xs ys seriesFilter ss i
                    (near_series maxDistance mouseX mouseY axisx axisy s i st))"

record item =
  it_datapoint :: "cell list"
  it_dataIndex :: nat
  it_series :: series
  it_seriesIndex :: nat

definition make_item :: "series list \<Rightarrow> nat \<times> nat \<Rightarrow> item" where
  "make_item ss k =
     (let s = ss ! fst k; ps = pointsize_of s
      in \<lparr>it_datapoint = take ps (drop (snd k * ps) (dp_points s)), it_dataIndex = snd k,
          it_series = s, it_seriesIndex = fst k\<rparr>)"

definition findNearbyItem ::
  "real \<Rightarrow> axes \<Rightarrow> axes \<Rightarrow> series list \<Rightarrow> real \<Rightarrow> real \<Rightarrow> (series \<Rightarrow> bool) \<Rightarrow> item option option" where
  "findNearbyItem mouseActiveRadius xs ys ss mouseX mouseY seriesFilter =
     map_option (\<lambda>st. map_option (make_item ss) (snd st))
       (near_loop mouseActiveRadius mouseX mouseY xs ys seriesFilter ss (length ss)
          (mouseActiveRadius * mouseActiveRadius + 1, None))"

section \<open>The first minimum of a list\<close>

definition keep_min :: "real \<times> 'k \<Rightarrow> real \<times> 'k option \<Rightarrow> real \<times> 'k option" where
  "keep_min c st = (if fst c < fst st then (fst c, Some (snd c)) else st)"

lemma keep_min_pair [simp]: "keep_min (d, k) (e, it) = (if d < e then (d, Some k) else (e, it))"
  by (simp add: keep_min_def)

lemma fold_keep_min_item:
  "fold keep_min L (d, it)
    = (fst (fold keep_min L (d, None)), case snd (fold keep_min L (d, None)) of None \<Rightarrow> it | Some k \<Rightarrow> Some k)"
proof (induction L arbitrary: d it)
  case (Cons c L)
  obtain e k where c: "c = (e, k)" by (cases c)
  show ?case
  proof (cases "e < d")
    case True
    then show ?thesis using Cons.IH [of e "Some k"] by (simp add: c split: option.splits)
  next
    case False
    then show ?thesis using Cons.IH [of d it] by (simp add: c)
  qed
qed simp

lemma fold_keep_min_first:
  assumes "fold keep_min L (d0, None) = (d, r)"
  shows "case r of
      None \<Rightarrow> d = d0 \<and> (\<forall>c \<in> set L. d0 \<le> fst c)
    | Some k \<Rightarrow> \<exists>as bs. L = as @ (d, k) # bs \<and> d < d0 \<and> (\<forall>c \<in> set as. d < fst c) \<and> (\<forall>c \<in> set bs. d \<le> fst c)"
  using assms
proof (induction L arbitrary: d0 d r)
  case (Cons c L)
  obtain d1 k1 where c: "c = (d1, k1)" by (cases c)
  obtain d2 r2 where L: "fold keep_min L (if d1 < d0 then d1 else d0, None) = (d2, r2)" by fastforce
  note IH = Cons.IH [OF L]
  have dr: "d = d2" "r = (case r2 of None \<Rightarrow> if d1 < d0 then Some k1 else None | Some k \<Rightarrow> Some k)"
    using Cons.prems L fold_keep_min_item [of L d1 "Some k1"] by (auto simp: c split: if_splits option.splits)
  show ?case
  proof (cases r2)
    case None
    show ?thesis
    proof (cases "d1 < d0")
      case True
      then have "c # L = [] @ (d, k1) # L" "r = Some k1" "\<forall>c \<in> set L. d \<le> fst c" "d < d0" using None IH dr c by auto
      then show ?thesis unfolding \<open>r = Some k1\<close> option.case by (intro exI [of _ "[]"] exI [of _ L]) simp
    next
      case False
      then show ?thesis using None IH dr c by simp
    qed
  next
    case (Some k)
    then obtain as bs where s: "L = as @ (d2, k) # bs" "d2 < (if d1 < d0 then d1 else d0)"
      "\<forall>c \<in> set as. d2 < fst c" "\<forall>c \<in> set bs. d2 \<le> fst c" using IH by auto
    have "c # L = (c # as) @ (d, k) # bs" "r = Some k" using s(1) dr Some by simp_all
    moreover have "\<forall>x \<in> set (c # as). d < fst x" "d < d0" using s(2,3) dr(1) c by (auto split: if_splits)
    ultimately show ?thesis using s(4) dr(1) unfolding \<open>r = Some k\<close> option.case
      by (intro exI [of _ "c # as"] exI [of _ bs]) simp
  qed
qed simp

section \<open>The search by pixels\<close>

text \<open>An axis without transformations whose maps fit its scale.\<close>

definition hover_axis :: "axis \<Rightarrow> bool" where
  "hover_axis a \<longleftrightarrow> opt_inverseTransform (ax_options a) = None \<and> 0 < ax_scale a \<and>
     (\<exists>m k. \<bar>k\<bar> = ax_scale a \<and> ax_p2c a = (\<lambda>p. (p - m) * k) \<and> ax_c2p a = (\<lambda>c. m + c / k))"

lemma hover_limit_pixels:
  assumes "hover_axis a"
  shows "\<bar>x - ax_c2p a c\<bar> \<le> hover_limit R a \<longleftrightarrow> \<bar>ax_p2c a x - c\<bar> \<le> R"
proof -
  obtain m k where k: "\<bar>k\<bar> = ax_scale a" "ax_p2c a x = (x - m) * k" "ax_c2p a c = m + c / k" and pos: "0 < ax_scale a"
    and o': "opt_inverseTransform (ax_options a) = None"
    using assms unfolding hover_axis_def by fastforce
  have "ax_p2c a x - c = (x - ax_c2p a c) * k" using k pos by (auto simp: field_simps)
  then have "\<bar>ax_p2c a x - c\<bar> = \<bar>x - ax_c2p a c\<bar> * ax_scale a" using k(1) by (simp add: abs_mult)
  then show ?thesis using pos o' by (simp add: hover_limit_def pos_le_divide_eq)
qed

lemma setTransformationHelpers_hover:
  assumes "scalable w h a" "opt_transform (ax_options a) = None"
  shows "hover_axis (setTransformationHelpers w h a)"
proof -
  have it: "opt_inverseTransform (ax_options a) = None"
    using assms by (auto simp: scalable_def split: option.splits)
  have sc: "ax_scale (setTransformationHelpers w h a) = \<bar>map_factor w h a\<bar>"
    using assms by (auto simp: setTransformationHelpers_def map_factor_def map_fun_def Let_def scalable_def split: direction.splits)
  then show ?thesis using map_factor_nonzero [OF assms(1)] it assms(2) setTransformationHelpers_maps [of w h a]
    unfolding hover_axis_def by (auto simp: map_fun_def)
qed

text \<open>The distance of a point in pixels, when it is in the square around the mouse.\<close>

definition pixel_distance :: "real \<Rightarrow> real \<Rightarrow> real \<Rightarrow> axis \<Rightarrow> axis \<Rightarrow> series \<Rightarrow> nat \<Rightarrow> real option" where
  "pixel_distance R mX mY ax ay s j =
     (case rd (dp_points s) (int j) of
        None \<Rightarrow> None
      | Some x \<Rightarrow>
          let dx = ax_p2c ax x - mX; dy = ax_p2c ay (num0 (rd (dp_points s) (int j + 1))) - mY
          in if j + 1 < length (dp_points s) \<and> \<bar>dx\<bar> \<le> R \<and> \<bar>dy\<bar> \<le> R then Some (dx\<^sup>2 + dy\<^sup>2) else None)"

lemma near_round_pixels:
  assumes "hover_axis ax" "hover_axis ay"
  shows "near_round R mX mY ax ay s i j st =
    (case pixel_distance R mX mY ax ay s j of None \<Rightarrow> st | Some d \<Rightarrow> keep_min (d, i, j div pointsize_of s) st)"
proof (cases "rd (dp_points s) (int j)")
  case (Some x)
  have lim: "(u > m \<or> u < - m \<or> v > n \<or> v < - n) = (\<not> (\<bar>u\<bar> \<le> m \<and> \<bar>v\<bar> \<le> n))" for u m v n :: real by auto
  have sq: "\<bar>u\<bar> * \<bar>u\<bar> = u\<^sup>2" for u :: real by (simp add: power2_eq_square)
  let ?y = "num0 (rd (dp_points s) (int j + 1))"
  have "(x - ax_c2p ax mX > hover_limit R ax \<or> x - ax_c2p ax mX < - hover_limit R ax
      \<or> ?y - ax_c2p ay mY > hover_limit R ay \<or> ?y - ax_c2p ay mY < - hover_limit R ay)
    = (\<not> (\<bar>ax_p2c ax x - mX\<bar> \<le> R \<and> \<bar>ax_p2c ay ?y - mY\<bar> \<le> R))"
    unfolding lim hover_limit_pixels [OF assms(1)] hover_limit_pixels [OF assms(2)] ..
  then show ?thesis unfolding near_round_def pixel_distance_def Let_def Some sq
    by (cases st) (auto simp: keep_min_def)
qed (simp add: near_round_def pixel_distance_def)

definition candidates :: "real \<Rightarrow> real \<Rightarrow> real \<Rightarrow> axis \<Rightarrow> axis \<Rightarrow> series \<Rightarrow> nat \<Rightarrow> nat list \<Rightarrow> (real \<times> nat \<times> nat) list" where
  "candidates R mX mY ax ay s i js =
     concat (map (\<lambda>j. case pixel_distance R mX mY ax ay s j of None \<Rightarrow> [] | Some d \<Rightarrow> [(d, i, j div pointsize_of s)]) js)"

lemma fold_near_round:
  assumes "hover_axis ax" "hover_axis ay"
  shows "fold (near_round R mX mY ax ay s i) js st = fold keep_min (candidates R mX mY ax ay s i js) st"
  by (induction js arbitrary: st)
    (auto simp: candidates_def near_round_pixels [OF assms] split: option.splits)

text \<open>The bars of a series under the mouse, and the topmost series that has one.\<close>

definition bars_hit :: "real \<Rightarrow> real \<Rightarrow> axis \<Rightarrow> axis \<Rightarrow> series \<Rightarrow> nat list" where
  "bars_hit mX mY ax ay s =
     (if br_show (sr_bars s) then
        filter (\<lambda>j. bar_round mX mY ax ay s 0 j None \<noteq> None) (starts (length (dp_points s)) (pointsize_of s)) else [])"

lemma fold_bar_round:
  "fold (bar_round mX mY ax ay s i) js it =
    (let hits = filter (\<lambda>j. bar_round mX mY ax ay s 0 j None \<noteq> None) js
     in if hits = [] then it else Some (i, last hits div pointsize_of s))"
  by (induction js arbitrary: it) (auto simp: Let_def bar_round_def split: option.splits if_splits)

text \<open>The axes of a series that is searched.\<close>

definition looked_at :: "axes \<Rightarrow> axes \<Rightarrow> (series \<Rightarrow> bool) \<Rightarrow> series list \<Rightarrow> nat \<Rightarrow> (axis \<times> axis) option" where
  "looked_at xs ys flt ss i = (if i < length ss \<and> flt (ss ! i) then series_axes xs ys (ss ! i) else None)"

text \<open>The points of a series that are shown as points or on lines, in the order of the search.\<close>

definition shown_starts :: "series \<Rightarrow> nat list" where
  "shown_starts s = (if shows_lines s \<or> pt_show (sr_points s) then starts (length (dp_points s)) (pointsize_of s) else [])"

fun all_candidates ::
  "real \<Rightarrow> real \<Rightarrow> real \<Rightarrow> axes \<Rightarrow> axes \<Rightarrow> (series \<Rightarrow> bool) \<Rightarrow> series list \<Rightarrow> nat \<Rightarrow> (real \<times> nat \<times> nat) list" where
  "all_candidates R mX mY xs ys flt ss 0 = []"
| "all_candidates R mX mY xs ys flt ss (Suc i) =
     (case looked_at xs ys flt ss i of
        None \<Rightarrow> [] | Some (ax, ay) \<Rightarrow> candidates R mX mY ax ay (ss ! i) i (shown_starts (ss ! i)))
     @ all_candidates R mX mY xs ys flt ss i"

fun top_bar :: "real \<Rightarrow> real \<Rightarrow> axes \<Rightarrow> axes \<Rightarrow> (series \<Rightarrow> bool) \<Rightarrow> series list \<Rightarrow> nat \<Rightarrow> (nat \<times> nat) option" where
  "top_bar mX mY xs ys flt ss 0 = None"
| "top_bar mX mY xs ys flt ss (Suc i) =
     (let hits = (case looked_at xs ys flt ss i of None \<Rightarrow> [] | Some (ax, ay) \<Rightarrow> bars_hit mX mY ax ay (ss ! i))
      in if hits = [] then top_bar mX mY xs ys flt ss i else Some (i, last hits div pointsize_of (ss ! i)))"

text \<open>Series that can be searched: their axes exist and have no transformation, their points have a size.\<close>

definition searchable :: "axes \<Rightarrow> axes \<Rightarrow> (series \<Rightarrow> bool) \<Rightarrow> series list \<Rightarrow> bool" where
  "searchable xs ys flt ss \<longleftrightarrow>
     (\<forall>s \<in> set ss. flt s \<longrightarrow> 0 < pointsize_of s \<and>
        (\<exists>ax ay. series_axes xs ys s = Some (ax, ay) \<and> hover_axis ax \<and> hover_axis ay))"

definition first_of :: "'a option \<Rightarrow> 'a option \<Rightarrow> 'a option" where
  "first_of a b = (case a of None \<Rightarrow> b | Some _ \<Rightarrow> a)"

lemma first_of_simps [simp]:
  "first_of None b = b" "first_of (Some x) b = Some x" "first_of a None = a" "first_of (first_of a b) c = first_of a (first_of b c)"
  by (auto simp: first_of_def split: option.splits)

lemma fold_keep_min_of:
  "fold keep_min L (d, it) = (fst (fold keep_min L (d, None)), first_of (snd (fold keep_min L (d, None))) it)"
  using fold_keep_min_item [of L d it] by (simp add: first_of_def split: option.splits)

lemma near_series_pixels:
  assumes "hover_axis ax" "hover_axis ay"
    and r: "fold keep_min (candidates R mX mY ax ay s i (shown_starts s)) (d, None) = (d1, k1)"
  shows "near_series R mX mY ax ay s i (d, it) =
    (d1, first_of k1 (first_of it
       (let hits = bars_hit mX mY ax ay s in if hits = [] then None else Some (i, last hits div pointsize_of s))))"
proof -
  let ?js = "starts (length (dp_points s)) (pointsize_of s)"
  have "(if shows_lines s \<or> pt_show (sr_points s) then fold (near_round R mX mY ax ay s i) ?js (d, it) else (d, it))
    = fold keep_min (candidates R mX mY ax ay s i (shown_starts s)) (d, it)"
    by (simp add: fold_near_round [OF assms(1,2)] shown_starts_def candidates_def)
  also have "\<dots> = (d1, first_of k1 it)" using fold_keep_min_of [of _ d it] r by simp
  finally show ?thesis
    unfolding near_series_def Let_def fold_bar_round bars_hit_def
    by (cases k1; cases it) simp_all
qed

lemma near_loop_pixels:
  assumes "searchable xs ys flt ss" "n \<le> length ss"
  shows "near_loop R mX mY xs ys flt ss n (d, it) =
    (let r = fold keep_min (all_candidates R mX mY xs ys flt ss n) (d, None)
     in Some (fst r, first_of (snd r) (first_of it (top_bar mX mY xs ys flt ss n))))"
  using assms(2)
proof (induction n arbitrary: d it)
  case (Suc i)
  let ?s = "ss ! i"
  show ?case
  proof (cases "flt ?s")
    case False
    then show ?thesis using Suc by (simp add: looked_at_def)
  next
    case True
    then obtain ax ay where ax: "series_axes xs ys ?s = Some (ax, ay)" "hover_axis ax" "hover_axis ay" "0 < pointsize_of ?s"
      using assms(1) Suc.prems by (fastforce simp: searchable_def)
    obtain d1 k1 where r: "fold keep_min (candidates R mX mY ax ay ?s i (shown_starts ?s)) (d, None) = (d1, k1)" by fastforce
    have l: "looked_at xs ys flt ss i = Some (ax, ay)" using True ax(1) Suc.prems by (simp add: looked_at_def)
    have f: "fold keep_min (all_candidates R mX mY xs ys flt ss (Suc i)) (d, None)
      = fold keep_min (all_candidates R mX mY xs ys flt ss i) (d1, k1)" by (simp add: l r)
    show ?thesis unfolding f near_loop.simps Let_def fold_keep_min_of [of _ d1 k1]
      using True ax Suc.prems by (simp add: near_series_pixels [OF ax(2,3) r] Suc.IH Let_def l)
  qed
qed simp

section \<open>The item found is the nearest\<close>

text \<open>A point that is near: the series is searched, shows it, and it is in the square around the mouse.\<close>

definition near :: "real \<Rightarrow> real \<Rightarrow> real \<Rightarrow> axes \<Rightarrow> axes \<Rightarrow> (series \<Rightarrow> bool) \<Rightarrow> series list \<Rightarrow> nat \<Rightarrow> nat \<Rightarrow> real \<Rightarrow> bool" where
  "near R mX mY xs ys flt ss i j d \<longleftrightarrow>
     (\<exists>ax ay. looked_at xs ys flt ss i = Some (ax, ay) \<and> (shows_lines (ss ! i) \<or> pt_show (sr_points (ss ! i)))
        \<and> pixel_distance R mX mY ax ay (ss ! i) (j * pointsize_of (ss ! i)) = Some d)"

text \<open>One that the mouse activates: in the circle as well.\<close>

definition activated :: "real \<Rightarrow> real \<Rightarrow> real \<Rightarrow> axes \<Rightarrow> axes \<Rightarrow> (series \<Rightarrow> bool) \<Rightarrow> series list \<Rightarrow> nat \<Rightarrow> nat \<Rightarrow> real \<Rightarrow> bool" where
  "activated R mX mY xs ys flt ss i j d \<longleftrightarrow> near R mX mY xs ys flt ss i j d \<and> d < R * R + 1"

text \<open>A bar that the mouse is over.\<close>

definition over :: "real \<Rightarrow> real \<Rightarrow> axes \<Rightarrow> axes \<Rightarrow> (series \<Rightarrow> bool) \<Rightarrow> series list \<Rightarrow> nat \<Rightarrow> nat \<Rightarrow> bool" where
  "over mX mY xs ys flt ss i j \<longleftrightarrow>
     (\<exists>ax ay x. looked_at xs ys flt ss i = Some (ax, ay) \<and> br_show (sr_bars (ss ! i))
        \<and> (let p = j * pointsize_of (ss ! i); points = dp_points (ss ! i) in
             p + 2 < length points \<and> points ! p = Some x
             \<and> over_bar (sr_bars (ss ! i)) (ax_c2p ax mX) (ax_c2p ay mY) x (num0 (points ! (p + 1))) (num0 (points ! (p + 2)))))"

text \<open>The order of the search: later series first, then earlier points.\<close>

definition searched_before :: "nat \<times> nat \<Rightarrow> nat \<times> nat \<Rightarrow> bool" where
  "searched_before a b \<longleftrightarrow> fst b < fst a \<or> fst a = fst b \<and> snd a < snd b"

lemma starts_iff: "0 < ps \<Longrightarrow> k \<in> set (starts n ps) \<longleftrightarrow> (\<exists>j. k = j * ps \<and> k < n)"
proof
  assume ps: "0 < ps" and "k \<in> set (starts n ps)"
  then obtain j where j: "k = j * ps" "j < (n + ps - 1) div ps" by (auto simp: starts_def)
  then have "Suc j * ps \<le> (n + ps - 1) div ps * ps" by (intro mult_right_mono) simp_all
  also have "\<dots> \<le> n + ps - 1" by simp
  finally have "k < n" using j ps by simp
  then show "\<exists>j. k = j * ps \<and> k < n" using j by blast
next
  assume "0 < ps" "\<exists>j. k = j * ps \<and> k < n"
  then show "k \<in> set (starts n ps)" by (auto intro: starts_mem)
qed

lemma pixel_distance_in: "pixel_distance R mX mY ax ay s j = Some d \<Longrightarrow> j < length (dp_points s)"
  by (auto simp: pixel_distance_def Let_def split: option.splits if_splits)

lemma candidates_set:
  assumes "0 < pointsize_of s"
  shows "(d, a, j) \<in> set (candidates R mX mY ax ay s i (shown_starts s)) \<longleftrightarrow>
    a = i \<and> (shows_lines s \<or> pt_show (sr_points s)) \<and> pixel_distance R mX mY ax ay s (j * pointsize_of s) = Some d"
proof -
  have "(d, a, j) \<in> set (candidates R mX mY ax ay s i (shown_starts s)) \<longleftrightarrow>
    (\<exists>k \<in> set (shown_starts s). pixel_distance R mX mY ax ay s k = Some d \<and> a = i \<and> j = k div pointsize_of s)"
    by (auto simp: candidates_def eq_commute [of "Some d"] split: option.splits)
  also have "\<dots> \<longleftrightarrow> a = i \<and> (shows_lines s \<or> pt_show (sr_points s)) \<and> pixel_distance R mX mY ax ay s (j * pointsize_of s) = Some d"
    using assms by (auto simp: shown_starts_def starts_iff dest: pixel_distance_in)
  finally show ?thesis .
qed

lemma all_candidates_set:
  assumes "searchable xs ys flt ss" "n \<le> length ss"
  shows "(d, i, j) \<in> set (all_candidates R mX mY xs ys flt ss n) \<longleftrightarrow> i < n \<and> near R mX mY xs ys flt ss i j d"
  using assms(2)
proof (induction n)
  case (Suc n)
  show ?case
  proof (cases "looked_at xs ys flt ss n")
    case None
    then show ?thesis using Suc by (auto simp: near_def less_Suc_eq)
  next
    case (Some p)
    obtain ax ay where p: "p = (ax, ay)" by (cases p)
    have ps: "0 < pointsize_of (ss ! n)"
      using assms(1) Suc.prems Some by (auto simp: looked_at_def searchable_def split: if_splits)
    show ?thesis using Suc Some p by (auto simp: near_def less_Suc_eq candidates_set [OF ps])
  qed
qed simp

lemma sorted_candidates:
  assumes "0 < pointsize_of s"
  shows "sorted_wrt searched_before (map snd (candidates R mX mY ax ay s i (shown_starts s)))"
proof -
  have "sorted_wrt searched_before (map snd (candidates R mX mY ax ay s i (map (\<lambda>k. k * pointsize_of s) ks)))"
    if "sorted_wrt (<) ks" for ks
    using that assms
  proof (induction ks)
    case (Cons k ks)
    have "searched_before (i, k) (snd c)" if "c \<in> set (candidates R mX mY ax ay s i (map (\<lambda>k. k * pointsize_of s) ks))" for c
      using that Cons.prems by (auto simp: candidates_def searched_before_def split: option.splits)
    then show ?case using Cons by (auto simp: candidates_def split: option.splits)
  qed (simp add: candidates_def)
  then show ?thesis
    unfolding shown_starts_def starts_def by (auto simp: candidates_def)
qed

lemma sorted_all_candidates:
  assumes "searchable xs ys flt ss" "n \<le> length ss"
  shows "sorted_wrt searched_before (map snd (all_candidates R mX mY xs ys flt ss n))"
  using assms(2)
proof (induction n)
  case (Suc n)
  show ?case
  proof (cases "looked_at xs ys flt ss n")
    case (Some p)
    obtain ax ay where p: "p = (ax, ay)" by (cases p)
    have ps: "0 < pointsize_of (ss ! n)"
      using assms(1) Suc.prems Some by (auto simp: looked_at_def searchable_def split: if_splits)
    have "searched_before (snd c) (snd c')"
      if "c \<in> set (candidates R mX mY ax ay (ss ! n) n (shown_starts (ss ! n)))"
        "c' \<in> set (all_candidates R mX mY xs ys flt ss n)" for c c'
    proof -
      obtain d m j where c: "c = (d, m, j)" by (rule prod_cases3)
      obtain e i k where c': "c' = (e, i, k)" by (rule prod_cases3)
      show ?thesis using that candidates_set [OF ps] all_candidates_set [OF assms(1)] Suc.prems by (simp add: c c' searched_before_def)
    qed
    then show ?thesis using Suc sorted_candidates [OF ps] Some p by (auto simp: sorted_wrt_append)
  qed (use Suc in simp)
qed simp

lemma bars_hit_iff:
  assumes "looked_at xs ys flt ss i = Some (ax, ay)" "0 < pointsize_of (ss ! i)"
  shows "k \<in> set (bars_hit mX mY ax ay (ss ! i)) \<longleftrightarrow> (\<exists>j. k = j * pointsize_of (ss ! i) \<and> over mX mY xs ys flt ss i j)"
proof -
  let ?s = "ss ! i"
  define P where "P k \<longleftrightarrow> k + 2 < length (dp_points ?s) \<and> (\<exists>x. dp_points ?s ! k = Some x
      \<and> over_bar (sr_bars ?s) (ax_c2p ax mX) (ax_c2p ay mY) x (num0 (dp_points ?s ! (k + 1))) (num0 (dp_points ?s ! (k + 2))))" for k
  have "bar_round mX mY ax ay ?s 0 k None \<noteq> None \<longleftrightarrow> P k" for k
    by (auto simp: bar_round_def rd_def nat_add_distrib P_def split: option.splits)
  moreover have "over mX mY xs ys flt ss i j \<longleftrightarrow> br_show (sr_bars ?s) \<and> P (j * pointsize_of ?s)" for j
    unfolding over_def assms(1) Let_def P_def by auto
  moreover have "P k \<Longrightarrow> k < length (dp_points ?s)" for k by (simp add: P_def)
  ultimately show ?thesis unfolding bars_hit_def using starts_iff [OF assms(2)] by auto
qed

lemma sorted_last: "sorted ks \<Longrightarrow> k \<in> set ks \<Longrightarrow> k \<le> last ks"
  by (induction ks) auto

lemma sorted_starts: "sorted (starts n ps)"
proof -
  have "sorted (map (\<lambda>i. i * ps) [0..<m])" for m by (induction m) (auto simp: sorted_append)
  then show ?thesis by (simp add: starts_def)
qed

lemma bars_hit_last: "k \<in> set (bars_hit mX mY ax ay s) \<Longrightarrow> k \<le> last (bars_hit mX mY ax ay s)"
  by (rule sorted_last) (simp_all add: bars_hit_def sorted_starts sorted_wrt_filter)

lemma top_bar_cases:
  assumes "searchable xs ys flt ss" "n \<le> length ss"
  shows "case top_bar mX mY xs ys flt ss n of
      None \<Rightarrow> \<forall>i < n. \<forall>j. \<not> over mX mY xs ys flt ss i j
    | Some (i, j) \<Rightarrow> i < n \<and> over mX mY xs ys flt ss i j
        \<and> (\<forall>i' < n. \<forall>j'. over mX mY xs ys flt ss i' j' \<longrightarrow> i' < i \<or> i' = i \<and> j' \<le> j)"
  using assms(2)
proof (induction n)
  case (Suc n)
  show ?case
  proof (cases "looked_at xs ys flt ss n")
    case None
    then have "\<not> over mX mY xs ys flt ss n j" for j by (simp add: over_def)
    then show ?thesis using Suc None by (auto simp: less_Suc_eq split: option.splits)
  next
    case (Some p)
    obtain ax ay where p: "looked_at xs ys flt ss n = Some (ax, ay)" using Some by (cases p) auto
    have ps: "0 < pointsize_of (ss ! n)"
      using assms(1) Suc.prems Some by (auto simp: looked_at_def searchable_def split: if_splits)
    note hit = bars_hit_iff [OF p ps]
    show ?thesis
    proof (cases "bars_hit mX mY ax ay (ss ! n) = []")
      case True
      then have "\<not> over mX mY xs ys flt ss n j" for j using hit [of "j * pointsize_of (ss ! n)" mX mY] by auto
      then show ?thesis using Suc p True by (auto simp: less_Suc_eq split: option.splits)
    next
      case False
      let ?l = "last (bars_hit mX mY ax ay (ss ! n))"
      obtain j where j: "?l = j * pointsize_of (ss ! n)" "over mX mY xs ys flt ss n j"
        using hit [of ?l mX mY] False by auto
      have "j' \<le> j" if "over mX mY xs ys flt ss n j'" for j'
        using bars_hit_last hit j(1) that ps by (metis mult_le_cancel2)
      then show ?thesis using False p j ps by (auto simp: less_Suc_eq)
    qed
  qed
qed simp


text \<open>The item belongs to a series that was searched.\<close>

lemma top_bar_looked:
  "top_bar mX mY xs ys flt ss n = Some (i, j) \<Longrightarrow> i < n \<and> looked_at xs ys flt ss i \<noteq> None"
  by (induction n) (auto simp: Let_def split: if_splits option.splits)

lemma findNearbyItem_searched:
  assumes "searchable xs ys flt ss"
  shows "\<exists>r. findNearbyItem R xs ys ss mX mY flt = Some r \<and> (\<forall>it. r = Some it \<longrightarrow> (\<exists>s \<in> set ss. it_series it = s \<and> flt s))"
proof -
  let ?L = "all_candidates R mX mY xs ys flt ss (length ss)" and ?B = "top_bar mX mY xs ys flt ss (length ss)"
  obtain d r where f: "fold keep_min ?L (R * R + 1, None) = (d, r)" by fastforce
  have "looked_at xs ys flt ss i \<noteq> None" if "first_of r ?B = Some (i, j)" for i j
  proof (cases r)
    case None
    then show ?thesis using that top_bar_looked by fastforce
  next
    case (Some k)
    then have "(d, i, j) \<in> set ?L" using that fold_keep_min_first [OF f] by auto
    then show ?thesis using all_candidates_set [OF assms order_refl] by (auto simp: near_def)
  qed
  then have "\<forall>it. map_option (make_item ss) (first_of r ?B) = Some it \<longrightarrow> (\<exists>s \<in> set ss. it_series it = s \<and> flt s)"
    by (fastforce simp: make_item_def looked_at_def Let_def split: if_splits)
  then show ?thesis by (simp add: findNearbyItem_def near_loop_pixels [OF assms order_refl] f Let_def)
qed

definition demo_plotted :: series where
  "demo_plotted = demo_series\<lparr>sr_lines := (sr_lines demo_series)\<lparr>ln_show := Some True\<rparr>,
     dp_points := [Some 3, Some 5, Some 4, Some 5], dp_pointsize := Some 2\<rparr>"

lemma demo_hover: "hover_axis (demo_axis d)"
  unfolding demo_axis_def
  by (rule setTransformationHelpers_hover) (auto simp: scalable_def new_axis_def demo_options_def)

lemma demo_searchable: "searchable [Some (demo_axis X)] [Some (demo_axis Y)] flt [demo_plotted]"
  by (auto simp: searchable_def demo_plotted_def demo_series_def pointsize_of_def series_axes_def axis_at_def axisNumber_def
      demo_hover)


end
