(* ===== verification/Plot_Options.thy ===== *)
theory Plot_Options
  imports Shapes
begin

text \<open>
  The options of a plot that are not options of an axis or of a series,
  \<open>static/flot/jquery.flot.js\<close>: the grid with its markings, and the legend; and the geometry of a
  plot with all four offsets.
\<close>

text \<open>
  A marking: ranges by the name of an axis (either end may be missing), the single coordinates \<open>x1\<close>,
  \<open>x2\<close>, \<open>y1\<close>, \<open>y2\<close> of the older form, a colour and a width.
\<close>

record marking =
  mk_ranges :: "(string \<times> real option \<times> real option) list"
  mk_coords :: "(string \<times> real) list"
  mk_color :: "markup option"
  mk_lineWidth :: "real option"

text \<open>
  Markings are a list, a function of the axes (with the four ends of the first two, as \<open>xmin\<close> and so on), or absent.
\<close>

datatype markings = NoMarkings | Markings "marking list" | MarkingsFun "(string \<times> axis) list \<Rightarrow> (string \<times> real) list \<Rightarrow> marking list"

record grid_options =
  gr_show :: bool
  gr_aboveData :: bool
  gr_color :: markup
  gr_backgroundColor :: fill_color
  gr_borderColor :: "markup option"
  gr_tickColor :: "markup option"
  gr_labelMargin :: real
  gr_axisMargin :: real
  gr_borderWidth :: real
  gr_minBorderMargin :: "real option"
  gr_markings :: markings
  gr_markingsColor :: markup
  gr_markingsLineWidth :: real
  gr_clickable :: bool
  gr_hoverable :: bool
  gr_autoHighlight :: bool
  gr_mouseActiveRadius :: real

text \<open>A margin of the legend is one number or a pair.\<close>

datatype legend_margin = Margin real | Margins real real

record legend_options =
  lg_show :: bool
  lg_noColumns :: nat
  lg_labelFormatter :: "(markup \<Rightarrow> series \<Rightarrow> markup) option"
  lg_labelBoxBorderColor :: markup
  lg_container :: bool
  lg_position :: string
  lg_margin :: legend_margin
  lg_backgroundColor :: "markup option"
  lg_backgroundOpacity :: real

text \<open>The whole geometry: what drawing a series reads, and the rest of the offsets and the canvas.\<close>

record plot_geometry = geometry +
  plotRight :: real
  plotBottom :: real
  canvasWidth :: real
  canvasHeight :: real

definition default_grid :: grid_options where
  "default_grid =
     \<lparr>gr_show = True, gr_aboveData = False, gr_color = [T ''#545454''], gr_backgroundColor = DefaultFill,
      gr_borderColor = None, gr_tickColor = None, gr_labelMargin = 5, gr_axisMargin = 8, gr_borderWidth = 2,
      gr_minBorderMargin = None, gr_markings = NoMarkings, gr_markingsColor = [T ''#f4f4f4''],
      gr_markingsLineWidth = 2, gr_clickable = False, gr_hoverable = False, gr_autoHighlight = True,
      gr_mouseActiveRadius = 10\<rparr>"

definition default_legend :: legend_options where
  "default_legend =
     \<lparr>lg_show = True, lg_noColumns = 1, lg_labelFormatter = None, lg_labelBoxBorderColor = [T ''#ccc''],
      lg_container = False, lg_position = ''ne'', lg_margin = Margin 5, lg_backgroundColor = None,
      lg_backgroundOpacity = 17 / 20\<rparr>"

end
