(* ===== verification/Highlights.thy ===== *)
theory Highlights
  imports Nearby Plot_Options Merge
begin

text \<open>
  The interactive layer of a plot, \<open>static/flot/jquery.flot.js\<close>: the list of highlighted points, the
  mouse events that highlight and unhighlight items, and the deferred drawing of the overlay. The
  list refines a finite map from points to the event that highlighted them.
\<close>

section \<open>Highlights\<close>

text \<open>
  A highlighted point: its series (\<open>None\<close> is \<open>undefined\<close>), the cells of the point, and the event that
  highlighted it (\<open>None\<close> is \<open>undefined\<close> or \<open>false\<close>: not by an event).
\<close>

record highlighted =
  hl_series :: "series option"
  hl_point :: "cell list"
  hl_auto :: "string option"

record overlay =
  ov_highlights :: "highlighted list"
  ov_redrawTimeout :: bool

datatype series_ref = SeriesNumber nat | SeriesObject series

datatype point_ref = PointNumber nat | PointArray "cell list"

definition cell_raw :: "cell \<Rightarrow> raw" where
  "cell_raw c = (case c of None \<Rightarrow> RNull | Some x \<Rightarrow> RNum (Fin x))"

definition raw_at :: "raw list \<Rightarrow> nat \<Rightarrow> raw" where
  "raw_at p i = (if i < length p then p ! i else RNull)"

definition same_series :: "series option \<Rightarrow> series option \<Rightarrow> bool" where
  "same_series a b = (case (a, b) of (Some s, Some t) \<Rightarrow> sr_ref s = sr_ref t | (None, None) \<Rightarrow> True | _ \<Rightarrow> False)"

text \<open>The two coordinates of a highlighted point against those of a row of data.\<close>

definition same_point :: "cell list \<Rightarrow> raw list \<Rightarrow> bool" where
  "same_point p q \<longleftrightarrow>
     loose_eq (cell_raw (rd p 0)) (raw_at q 0) \<and> loose_eq (cell_raw (rd p 1)) (raw_at q 1)"

text \<open>
  The place of a highlight: \<open>Some None\<close> is -1. \<open>None\<close> is the error of reading a coordinate of a
  point that is \<open>null\<close>.
\<close>

fun indexOfHighlight :: "series option \<Rightarrow> raw list option \<Rightarrow> highlighted list \<Rightarrow> nat option option" where
  "indexOfHighlight s p [] = Some None"
| "indexOfHighlight s p (h # hs) =
     (if same_series (hl_series h) s then
        (case p of
           None \<Rightarrow> None
         | Some q \<Rightarrow> if same_point (hl_point h) q then Some (Some 0)
                     else map_option (map_option Suc) (indexOfHighlight s p hs))
      else map_option (map_option Suc) (indexOfHighlight s p hs))"

definition triggerRedrawOverlay :: "overlay \<Rightarrow> overlay" where
  "triggerRedrawOverlay ov = (if ov_redrawTimeout ov then ov else ov\<lparr>ov_redrawTimeout := True\<rparr>)"

definition resolve_series :: "series list \<Rightarrow> series_ref \<Rightarrow> series option" where
  "resolve_series ss r = (case r of SeriesNumber k \<Rightarrow> (if k < length ss then Some (ss ! k) else None) | SeriesObject s \<Rightarrow> Some s)"

text \<open>\<open>auto\<close> is falsy when absent or empty.\<close>

definition auto_truthy :: "string option \<Rightarrow> bool" where
  "auto_truthy a \<longleftrightarrow> a \<noteq> None \<and> a \<noteq> Some []"

definition highlight_point :: "series option \<Rightarrow> cell list \<Rightarrow> string option \<Rightarrow> overlay \<Rightarrow> overlay option" where
  "highlight_point s p auto' ov =
     (case indexOfHighlight s (Some (map cell_raw p)) (ov_highlights ov) of
        None \<Rightarrow> None
      | Some None \<Rightarrow>
          Some (triggerRedrawOverlay
            (ov\<lparr>ov_highlights := ov_highlights ov @ [\<lparr>hl_series = s, hl_point = p, hl_auto = auto'\<rparr>]\<rparr>))
      | Some (Some i) \<Rightarrow>
          Some (if auto_truthy auto' then ov
                else ov\<lparr>ov_highlights := (ov_highlights ov)[i := (ov_highlights ov ! i)\<lparr>hl_auto := None\<rparr>]\<rparr>))"

definition highlight :: "series list \<Rightarrow> series_ref \<Rightarrow> point_ref \<Rightarrow> string option \<Rightarrow> overlay \<Rightarrow> overlay option" where
  "highlight ss r point auto' ov =
     (let s = resolve_series ss r
      in case point of
           PointArray p \<Rightarrow> highlight_point s p auto' ov
         | PointNumber k \<Rightarrow>
             (case s of
                None \<Rightarrow> None
              | Some t \<Rightarrow> highlight_point s (take (pointsize_of t) (drop (pointsize_of t * k) (dp_points t))) auto' ov))"

text \<open>Removes the first element with an index.\<close>

definition remove_at :: "nat \<Rightarrow> 'a list \<Rightarrow> 'a list" where
  "remove_at i hs = take i hs @ drop (Suc i) hs"

definition unhighlight_point :: "series option \<Rightarrow> raw list option \<Rightarrow> overlay \<Rightarrow> overlay option" where
  "unhighlight_point s p ov =
     (case indexOfHighlight s p (ov_highlights ov) of
        None \<Rightarrow> None
      | Some None \<Rightarrow> Some ov
      | Some (Some i) \<Rightarrow> Some (triggerRedrawOverlay (ov\<lparr>ov_highlights := remove_at i (ov_highlights ov)\<rparr>)))"

text \<open>
  Both arguments absent: everything is removed. A point given by number is a row of the data of the
  series (\<open>highlight\<close> takes the processed points); without a series that read is an error.
\<close>

definition unhighlight :: "series list \<Rightarrow> series_ref option \<Rightarrow> point_ref option \<Rightarrow> overlay \<Rightarrow> overlay option" where
  "unhighlight ss r point ov =
     (let ov1 = (if r = None \<and> point = None then triggerRedrawOverlay (ov\<lparr>ov_highlights := []\<rparr>) else ov);
          s = Option.bind r (resolve_series ss)
      in case point of
           None \<Rightarrow> unhighlight_point s None ov1
         | Some (PointArray p) \<Rightarrow> unhighlight_point s (Some (map cell_raw p)) ov1
         | Some (PointNumber k) \<Rightarrow>
             (case s of
                None \<Rightarrow> None
              | Some t \<Rightarrow> unhighlight_point s (if k < length (sr_data t) then sr_data t ! k else None) ov1))"

section \<open>Mouse events\<close>

text \<open>A highlight of the item that is under the mouse.\<close>

definition on_item :: "item option \<Rightarrow> highlighted \<Rightarrow> bool" where
  "on_item it h =
     (case it of
        None \<Rightarrow> False
      | Some i \<Rightarrow> same_series (hl_series h) (Some (it_series i)) \<and> same_point (hl_point h) (map cell_raw (it_datapoint i)))"

lemma length_unhighlight_point:
  "unhighlight_point s p ov = Some ov' \<Longrightarrow> length (ov_highlights ov') \<le> length (ov_highlights ov)"
  by (auto simp: unhighlight_point_def triggerRedrawOverlay_def remove_at_def split: option.splits)

text \<open>The loop that clears highlights of the same event, over the list it removes from.\<close>

function clear_autos :: "string \<Rightarrow> item option \<Rightarrow> nat \<Rightarrow> overlay \<Rightarrow> overlay option" where
  "clear_autos eventname it i ov =
     (if i < length (ov_highlights ov) then
        (let h = ov_highlights ov ! i
         in if hl_auto h = Some eventname \<and> \<not> on_item it h then
              (case unhighlight_point (hl_series h) (Some (map cell_raw (hl_point h))) ov of
                 None \<Rightarrow> None
               | Some ov' \<Rightarrow> clear_autos eventname it (Suc i) ov')
            else clear_autos eventname it (Suc i) ov)
      else Some ov)"
  by pat_completeness auto
termination
  by (relation "measure (\<lambda>(_, _, i, ov). length (ov_highlights ov) - i)")
    (auto dest: length_unhighlight_point simp: diff_less_mono2 less_Suc_eq_le le_less_trans)

declare clear_autos.simps [simp del]

text \<open>What listeners of an event are told: the position in all axes and on the page, and the item.\<close>

record notice =
  nt_event :: string
  nt_pos :: "(string \<times> real) list"
  nt_item :: "(item \<times> real \<times> real) option"

text \<open>
  A mouse event at a place of the page; \<open>offset\<close> is the place of the canvas on the page. An item's place is
  computed with its axes, which exist when it was found.
\<close>

definition triggerClickHoverEvent ::
  "grid_options \<Rightarrow> ('m) geometry_scheme \<Rightarrow> axes \<Rightarrow> axes \<Rightarrow> series list \<Rightarrow> real \<times> real \<Rightarrow> string \<Rightarrow> real \<times> real \<Rightarrow> (series \<Rightarrow> bool)
    \<Rightarrow> overlay \<Rightarrow> (overlay \<times> notice) option" where
  "triggerClickHoverEvent grid g xs ys ss offset eventname page seriesFilter ov =
     (let canvasX = fst page - fst offset - plotLeft g; canvasY = snd page - snd offset - plotTop g;
          pos = set_key ''pageY'' (snd page) (set_key ''pageX'' (fst page) (canvasToAxisCoords xs ys canvasX canvasY))
      in case findNearbyItem (gr_mouseActiveRadius grid) xs ys ss canvasX canvasY seriesFilter of
           None \<Rightarrow> None
         | Some it \<Rightarrow>
             (case (case it of
                      None \<Rightarrow> Some None
                    | Some i \<Rightarrow>
                        map_option (\<lambda>(ax, ay). Some (i,
                            parse_int_num (ax_p2c ax (num0 (rd (it_datapoint i) 0)) + fst offset + plotLeft g),
                            parse_int_num (ax_p2c ay (num0 (rd (it_datapoint i) 1)) + snd offset + plotTop g)))
                          (series_axes xs ys (it_series i))) of
                None \<Rightarrow> None
              | Some placed \<Rightarrow>
                  map_option (\<lambda>ov'. (ov', \<lparr>nt_event = eventname, nt_pos = pos, nt_item = placed\<rparr>))
                    (if gr_autoHighlight grid then
                       Option.bind (clear_autos eventname it 0 ov)
                         (\<lambda>ov1. case it of
                            None \<Rightarrow> Some ov1
                          | Some i \<Rightarrow> highlight ss (SeriesObject (it_series i)) (PointArray (it_datapoint i)) (Some eventname) ov1)
                     else Some ov)))"

text \<open>The three handlers; \<open>None\<close> for the notice when the handler does nothing.\<close>

definition onMouseMove ::
  "grid_options \<Rightarrow> ('m) geometry_scheme \<Rightarrow> axes \<Rightarrow> axes \<Rightarrow> series list \<Rightarrow> real \<times> real \<Rightarrow> real \<times> real \<Rightarrow> overlay \<Rightarrow> (overlay \<times> notice option) option" where
  "onMouseMove grid g xs ys ss offset page ov =
     (if gr_hoverable grid then
        map_option (apsnd Some) (triggerClickHoverEvent grid g xs ys ss offset ''plothover'' page sr_hoverable ov)
      else Some (ov, None))"

definition onMouseLeave ::
  "grid_options \<Rightarrow> ('m) geometry_scheme \<Rightarrow> axes \<Rightarrow> axes \<Rightarrow> series list \<Rightarrow> real \<times> real \<Rightarrow> real \<times> real \<Rightarrow> overlay \<Rightarrow> (overlay \<times> notice option) option" where
  "onMouseLeave grid g xs ys ss offset page ov =
     (if gr_hoverable grid then
        map_option (apsnd Some) (triggerClickHoverEvent grid g xs ys ss offset ''plothover'' page (\<lambda>_. False) ov)
      else Some (ov, None))"

definition onClick ::
  "grid_options \<Rightarrow> ('m) geometry_scheme \<Rightarrow> axes \<Rightarrow> axes \<Rightarrow> series list \<Rightarrow> real \<times> real \<Rightarrow> real \<times> real \<Rightarrow> overlay \<Rightarrow> (overlay \<times> notice option) option" where
  "onClick grid g xs ys ss offset page ov =
     map_option (apsnd Some) (triggerClickHoverEvent grid g xs ys ss offset ''plotclick'' page sr_clickable ov)"

section \<open>Drawing the overlay\<close>

text \<open>The colour of a highlight: the colour of the series with half its opacity.\<close>

definition highlight_color :: "(real \<Rightarrow> string) \<Rightarrow> series \<Rightarrow> style" where
  "highlight_color ns s = Css (toString (scale ''a'' 0.5 (parse_css ns (series_color s))))"

definition drawPointHighlight :: "(real \<Rightarrow> string) \<Rightarrow> axis \<Rightarrow> axis \<Rightarrow> series \<Rightarrow> cell list \<Rightarrow> drawing option" where
  "drawPointHighlight ns axisx axisy s p =
     (let x = num0 (rd p 0); y = num0 (rd p 1);
          pointRadius = pt_radius (sr_points s) + pt_width (sr_points s) / 2; radius = 1.5 * pointRadius
      in if x < ax_min axisx \<or> x > ax_max axisx \<or> y < ax_min axisy \<or> y > ax_max axisy then Some []
         else
           map_option (\<lambda>d. [LineWidth pointRadius, StrokeStyle (highlight_color ns s), BeginPath] @ d @ [ClosePath, Stroke])
             (draw_symbol (pt_symbol (sr_points s)) (ax_p2c axisx x) (ax_p2c axisy y) radius False))"

definition drawBarHighlight :: "(real \<Rightarrow> string) \<Rightarrow> axis \<Rightarrow> axis \<Rightarrow> series \<Rightarrow> cell list \<Rightarrow> drawing option" where
  "drawBarHighlight ns axisx axisy s p =
     (let b = sr_bars s; barLeft = (if br_left b then 0 else - br_barWidth b / 2)
      in then_draw (Some [LineWidth (br_width b), StrokeStyle (highlight_color ns s)])
           (drawBar (num0 (rd p 0)) (num0 (rd p 1)) (num0 (rd p 2)) barLeft (barLeft + br_barWidth b) 0
              (Some (\<lambda>_ _. Some (Some (highlight_color ns s)))) axisx axisy (br_horizontal b) (br_width b)))"

definition draw_highlight :: "(real \<Rightarrow> string) \<Rightarrow> axes \<Rightarrow> axes \<Rightarrow> highlighted \<Rightarrow> drawing option" where
  "draw_highlight ns xs ys h =
     (case hl_series h of
        None \<Rightarrow> None
      | Some s \<Rightarrow>
          (case series_axes xs ys s of
             None \<Rightarrow> None
           | Some (ax, ay) \<Rightarrow>
               if br_show (sr_bars s) then drawBarHighlight ns ax ay s (hl_point h)
               else drawPointHighlight ns ax ay s (hl_point h)))"

text \<open>The hooks of plugins draw after the highlights.\<close>

definition drawOverlay ::
  "(real \<Rightarrow> string) \<Rightarrow> drawing list \<Rightarrow> ('m) plot_geometry_scheme \<Rightarrow> axes \<Rightarrow> axes \<Rightarrow> overlay \<Rightarrow> overlay \<times> drawing option" where
  "drawOverlay ns hooks g xs ys ov =
     (ov\<lparr>ov_redrawTimeout := False\<rparr>,
      map_option (\<lambda>d. [Save, ClearRect 0 0 (canvasWidth g) (canvasHeight g), Translate (plotLeft g) (plotTop g)]
          @ d @ [Restore] @ concat hooks)
        (all_drawings (map (draw_highlight ns xs ys) (ov_highlights ov))))"

section \<open>Keys\<close>

type_synonym mark_key = "nat option \<times> cell \<times> cell"

text \<open>What identifies a highlighted point: the series and the two coordinates.\<close>

definition mark_key :: "series option \<Rightarrow> cell list \<Rightarrow> mark_key" where
  "mark_key s p = (map_option sr_ref s, rd p 0, rd p 1)"

definition key_of :: "highlighted \<Rightarrow> mark_key" where
  "key_of h = mark_key (hl_series h) (hl_point h)"

lemma loose_eq_cells [simp]: "loose_eq (cell_raw a) (cell_raw b) \<longleftrightarrow> a = b"
  by (auto simp: loose_eq_def cell_raw_def split: option.splits)

lemma raw_at_map [simp]: "raw_at (map cell_raw p) i = cell_raw (rd p (int i))"
  by (simp add: raw_at_def rd_nat cell_raw_def)

lemma same_key: "same_series (hl_series h) s \<and> same_point (hl_point h) (map cell_raw p) \<longleftrightarrow> key_of h = mark_key s p"
  using raw_at_map [of p 0] raw_at_map [of p 1]
  by (auto simp: same_series_def same_point_def key_of_def mark_key_def split: option.splits)

lemma on_item_key: "on_item it h \<longleftrightarrow> (\<exists>i. it = Some i \<and> key_of h = mark_key (Some (it_series i)) (it_datapoint i))"
  by (auto simp: on_item_def same_key [symmetric] split: option.splits)

text \<open>The place of a key in a list.\<close>

fun find_key :: "mark_key \<Rightarrow> highlighted list \<Rightarrow> nat option" where
  "find_key k [] = None"
| "find_key k (h # hs) = (if key_of h = k then Some 0 else map_option Suc (find_key k hs))"

lemma indexOfHighlight_key: "indexOfHighlight s (Some (map cell_raw p)) hs = Some (find_key (mark_key s p) hs)"
proof (induction hs)
  case (Cons h hs)
  then show ?case using same_key [of h s p] by auto
qed simp

lemma find_key_None: "find_key k hs = None \<longleftrightarrow> k \<notin> key_of ` set hs"
  by (induction hs) auto

lemma find_key_Some: "find_key k hs = Some i \<Longrightarrow> i < length hs \<and> key_of (hs ! i) = k"
  by (induction hs arbitrary: i) (auto split: if_splits)

lemma find_key_nth:
  "distinct (map key_of hs) \<Longrightarrow> i < length hs \<Longrightarrow> find_key (key_of (hs ! i)) hs = Some i"
proof (induction hs arbitrary: i)
  case (Cons h hs)
  then show ?case by (cases i) (auto simp: image_iff)
qed simp

lemma mark_key_of: "mark_key (hl_series h) (hl_point h) = key_of h"
  by (simp add: key_of_def)

lemma triggerRedrawOverlay_simps [simp]:
  "ov_highlights (triggerRedrawOverlay ov) = ov_highlights ov" "ov_redrawTimeout (triggerRedrawOverlay ov)"
  by (simp_all add: triggerRedrawOverlay_def)

section \<open>Highlights as a map\<close>

text \<open>The abstract state: which points are highlighted, each with the event that did it.\<close>

type_synonym marks = "mark_key \<rightharpoonup> string option"

definition marks :: "overlay \<Rightarrow> marks" where
  "marks ov = map_of (map (\<lambda>h. (key_of h, hl_auto h)) (ov_highlights ov))"

definition mark :: "mark_key \<Rightarrow> string option \<Rightarrow> marks \<Rightarrow> marks" where
  "mark k a m = (case m k of None \<Rightarrow> m(k \<mapsto> a) | Some _ \<Rightarrow> if auto_truthy a then m else m(k \<mapsto> None))"

definition unmark :: "mark_key \<Rightarrow> marks \<Rightarrow> marks" where
  "unmark k m = m(k := None)"

text \<open>An event moves its own mark to the item under the mouse, if there is one.\<close>

definition mark_event :: "string \<Rightarrow> mark_key option \<Rightarrow> marks \<Rightarrow> marks" where
  "mark_event e ko m =
     (let m1 = (\<lambda>k. if m k = Some (Some e) \<and> ko \<noteq> Some k then None else m k)
      in case ko of None \<Rightarrow> m1 | Some k \<Rightarrow> mark k (Some e) m1)"

text \<open>The invariant: no point twice, and at most one point per event.\<close>

definition highlighted_by :: "string \<Rightarrow> highlighted list \<Rightarrow> highlighted list" where
  "highlighted_by e hs = filter (\<lambda>h. hl_auto h = Some e) hs"

definition overlay_ok :: "overlay \<Rightarrow> bool" where
  "overlay_ok ov \<longleftrightarrow> distinct (map key_of (ov_highlights ov)) \<and> (\<forall>e. length (highlighted_by e (ov_highlights ov)) \<le> 1)"

lemma marks_None: "marks ov k = None \<longleftrightarrow> k \<notin> key_of ` set (ov_highlights ov)"
  by (force simp: marks_def map_of_eq_None_iff)

lemma find_key_marks: "find_key k (ov_highlights ov) = None \<longleftrightarrow> marks ov k = None"
  by (simp add: find_key_None marks_None)

lemma marks_new:
  "k \<notin> key_of ` set hs \<Longrightarrow> key_of h = k \<Longrightarrow>
    map_of (map (\<lambda>h. (key_of h, hl_auto h)) (hs @ [h])) = (map_of (map (\<lambda>h. (key_of h, hl_auto h)) hs))(k \<mapsto> hl_auto h)"
proof -
  assume k: "k \<notin> key_of ` set hs" "key_of h = k"
  then have "map_of (map (\<lambda>h. (key_of h, hl_auto h)) hs) k = None" by (simp add: map_of_eq_None_iff image_image)
  then show ?thesis using k(2) by (auto simp: map_add_def split: option.splits)
qed

lemma key_of_auto [simp]: "key_of (h\<lparr>hl_auto := a\<rparr>) = key_of h"
  by (simp add: key_of_def)

lemma map_update_same: "f y = f (xs ! i) \<Longrightarrow> map f (xs[i := y]) = map f xs"
  by (cases "i < length xs") (simp_all add: map_update list_update_same_conv list_update_beyond not_less)

lemma marks_update:
  "find_key k hs = Some i \<Longrightarrow>
    map_of (map (\<lambda>h. (key_of h, hl_auto h)) (hs[i := (hs ! i)\<lparr>hl_auto := a\<rparr>]))
     = (map_of (map (\<lambda>h. (key_of h, hl_auto h)) hs))(k \<mapsto> a)"
  by (induction hs arbitrary: i) (auto simp: fun_eq_iff split: if_splits)

lemma marks_remove:
  "distinct (map key_of hs) \<Longrightarrow> find_key k hs = Some i \<Longrightarrow>
    map_of (map (\<lambda>h. (key_of h, hl_auto h)) (remove_at i hs)) = (map_of (map (\<lambda>h. (key_of h, hl_auto h)) hs))(k := None)"
proof (induction hs arbitrary: i)
  case (Cons h hs)
  show ?case
  proof (cases "key_of h = k")
    case True
    then have "k \<notin> fst ` set (map (\<lambda>h. (key_of h, hl_auto h)) hs)" using Cons.prems(1) by (auto simp: image_image)
    then have "map_of (map (\<lambda>h. (key_of h, hl_auto h)) hs) k = None" by (simp add: map_of_eq_None_iff)
    then show ?thesis using True Cons.prems by (auto simp: remove_at_def fun_eq_iff)
  next
    case False
    then obtain j where j: "find_key k hs = Some j" "i = Suc j" using Cons.prems(2) by auto
    have "distinct (map key_of hs)" using Cons.prems(1) by simp
    then have "map_of (map (\<lambda>h. (key_of h, hl_auto h)) (remove_at j hs)) = (map_of (map (\<lambda>h. (key_of h, hl_auto h)) hs))(k := None)"
      using Cons.IH j(1) by blast
    then show ?thesis using False j(2) by (auto simp: remove_at_def fun_upd_def)
  qed
qed simp

lemma highlighted_by_simps [simp]:
  "highlighted_by e [] = []" "highlighted_by e (h # hs) = (if hl_auto h = Some e then h # highlighted_by e hs else highlighted_by e hs)"
  "highlighted_by e (xs @ ys) = highlighted_by e xs @ highlighted_by e ys"
  by (simp_all add: highlighted_by_def)

lemma remove_at_ok:
  assumes "distinct (map key_of hs)" "\<forall>e. length (highlighted_by e hs) \<le> 1"
  shows "distinct (map key_of (remove_at i hs)) \<and> (\<forall>e. length (highlighted_by e (remove_at i hs)) \<le> 1)"
proof (cases "i < length hs")
  case True
  then have hs: "hs = take i hs @ hs ! i # drop (Suc i) hs" by (rule id_take_nth_drop)
  have "length (highlighted_by e (remove_at i hs)) \<le> length (highlighted_by e hs)" for e
    using arg_cong [OF hs, of "\<lambda>x. length (highlighted_by e x)"] by (simp add: remove_at_def)
  moreover have "distinct (map key_of (remove_at i hs))"
    using assms(1) by (subst (asm) hs) (simp add: remove_at_def)
  ultimately show ?thesis using assms(2) le_trans by blast
qed (use assms in \<open>simp add: remove_at_def\<close>)

lemma update_ok:
  assumes "distinct (map key_of hs)" "\<forall>e. length (highlighted_by e hs) \<le> 1" "i < length hs"
  shows "distinct (map key_of (hs[i := (hs ! i)\<lparr>hl_auto := None\<rparr>]))
    \<and> (\<forall>e. length (highlighted_by e (hs[i := (hs ! i)\<lparr>hl_auto := None\<rparr>])) \<le> 1)"
proof -
  have hs: "hs = take i hs @ hs ! i # drop (Suc i) hs" using assms(3) by (rule id_take_nth_drop)
  have u: "hs[i := h] = take i hs @ h # drop (Suc i) hs" for h using assms(3) by (rule upd_conv_take_nth_drop)
  have "length (highlighted_by e (hs[i := (hs ! i)\<lparr>hl_auto := None\<rparr>])) \<le> length (highlighted_by e hs)" for e
    using arg_cong [OF hs, of "\<lambda>x. length (highlighted_by e x)"] by (simp add: u split: if_splits)
  moreover have "map key_of (hs[i := (hs ! i)\<lparr>hl_auto := None\<rparr>]) = map key_of hs"
    by (simp add: map_update_same)
  ultimately show ?thesis using assms(1,2) le_trans by metis
qed

section \<open>The operations refine the map\<close>

text \<open>What the overlay shows, and that a change of it is followed by a redraw.\<close>

definition shown :: "overlay \<Rightarrow> (series option \<times> cell list) list" where
  "shown ov = map (\<lambda>h. (hl_series h, hl_point h)) (ov_highlights ov)"

definition updates :: "overlay \<Rightarrow> overlay \<Rightarrow> bool" where
  "updates ov ov' \<longleftrightarrow>
     (ov_redrawTimeout ov \<longrightarrow> ov_redrawTimeout ov') \<and> (ov_redrawTimeout ov' \<or> shown ov' = shown ov)"

lemma updates_refl [simp]: "updates ov ov"
  by (simp add: updates_def)

lemma updates_trans: "updates a b \<Longrightarrow> updates b c \<Longrightarrow> updates a c"
  by (auto simp: updates_def)

lemma updates_redraw [simp]: "ov_redrawTimeout ov' \<Longrightarrow> updates ov ov'"
  by (simp add: updates_def)

lemma highlight_point_refines:
  "\<exists>ov'. highlight_point s p a ov = Some ov' \<and> marks ov' = mark (mark_key s p) a (marks ov) \<and> updates ov ov'"
proof (cases "find_key (mark_key s p) (ov_highlights ov)")
  case None
  then have n: "mark_key s p \<notin> key_of ` set (ov_highlights ov)" "marks ov (mark_key s p) = None"
    by (simp_all add: find_key_None marks_None)
  show ?thesis
    using None n(2) marks_new [OF n(1), of "\<lparr>hl_series = s, hl_point = p, hl_auto = a\<rparr>"]
    by (simp add: highlight_point_def indexOfHighlight_key mark_def marks_def key_of_def)
next
  case (Some i)
  then have "marks ov (mark_key s p) \<noteq> None" using find_key_marks by (metis option.discI)
  moreover have "shown (ov\<lparr>ov_highlights := (ov_highlights ov)[i := (ov_highlights ov ! i)\<lparr>hl_auto := None\<rparr>]\<rparr>) = shown ov"
    unfolding shown_def by (simp add: map_update_same)
  ultimately show ?thesis
    using Some marks_update [OF Some, of None]
    by (auto simp: highlight_point_def indexOfHighlight_key mark_def marks_def updates_def)
qed

lemma highlight_point_ok:
  assumes "overlay_ok ov" "highlight_point s p a ov = Some ov'"
    and "\<And>e. a = Some e \<Longrightarrow> highlighted_by e (ov_highlights ov) = [] \<or> mark_key s p \<in> key_of ` set (ov_highlights ov)"
  shows "overlay_ok ov'"
proof (cases "find_key (mark_key s p) (ov_highlights ov)")
  case None
  then have "mark_key s p \<notin> key_of ` set (ov_highlights ov)" by (simp add: find_key_None)
  moreover have "highlighted_by e (ov_highlights ov) = []" if "a = Some e" for e using that assms(3) calculation by blast
  ultimately show ?thesis using None assms(1,2)
    by (auto simp: highlight_point_def indexOfHighlight_key overlay_ok_def key_of_def)
next
  case (Some i)
  then show ?thesis using assms(1,2) update_ok [of "ov_highlights ov" i] find_key_Some [OF Some]
    by (auto simp: highlight_point_def indexOfHighlight_key overlay_ok_def split: if_splits)
qed

lemma unhighlight_point_ok:
  assumes "unhighlight_point s p ov = Some ov'"
  shows "(overlay_ok ov \<longrightarrow> overlay_ok ov') \<and> updates ov ov'"
  using assms remove_at_ok [of "ov_highlights ov"]
  by (auto simp: unhighlight_point_def overlay_ok_def split: option.splits)

lemma unhighlight_point_refines:
  assumes "overlay_ok ov"
  shows "\<exists>ov'. unhighlight_point s (Some (map cell_raw p)) ov = Some ov' \<and> marks ov' = unmark (mark_key s p) (marks ov)"
proof (cases "find_key (mark_key s p) (ov_highlights ov)")
  case None
  then have "marks ov (mark_key s p) = None" by (simp add: find_key_marks)
  then show ?thesis using None by (simp add: unhighlight_point_def indexOfHighlight_key unmark_def fun_upd_idem)
next
  case (Some i)
  then show ?thesis using assms marks_remove [of "ov_highlights ov" "mark_key s p" i]
    by (simp add: unhighlight_point_def indexOfHighlight_key unmark_def marks_def overlay_ok_def)
qed

text \<open>Clearing: with at most one highlight of the event, the loop over the shrinking list removes what it should.\<close>

definition stale :: "string \<Rightarrow> item option \<Rightarrow> highlighted \<Rightarrow> bool" where
  "stale e it h \<longleftrightarrow> hl_auto h = Some e \<and> \<not> on_item it h"

lemma clear_autos_none:
  "\<forall>h \<in> set (ov_highlights ov). \<not> stale e it h \<Longrightarrow> clear_autos e it i ov = Some ov"
proof (induction "length (ov_highlights ov) - i" arbitrary: i)
  case 0
  then show ?case by (subst clear_autos.simps) simp
next
  case (Suc n)
  then have "clear_autos e it (Suc i) ov = Some ov" by simp
  moreover have "\<not> stale e it (ov_highlights ov ! i)" using Suc by simp
  ultimately show ?case by (subst clear_autos.simps) (auto simp: stale_def Let_def)
qed

lemma clear_autos_one:
  assumes "i \<le> k" "k < length (ov_highlights ov)" "stale e it (ov_highlights ov ! k)" "distinct (map key_of (ov_highlights ov))"
    and "\<forall>j < length (ov_highlights ov). j \<noteq> k \<longrightarrow> \<not> stale e it (ov_highlights ov ! j)"
  shows "clear_autos e it i ov = Some (triggerRedrawOverlay (ov\<lparr>ov_highlights := remove_at k (ov_highlights ov)\<rparr>))"
  using assms(1)
proof (induction "k - i" arbitrary: i)
  case 0
  let ?hs = "ov_highlights ov" and ?h = "ov_highlights ov ! k"
  have "unhighlight_point (hl_series ?h) (Some (map cell_raw (hl_point ?h))) ov
    = Some (triggerRedrawOverlay (ov\<lparr>ov_highlights := remove_at k ?hs\<rparr>))"
    using find_key_nth [OF assms(4,2)] by (simp add: unhighlight_point_def indexOfHighlight_key mark_key_of)
  moreover have "\<forall>h \<in> set (remove_at k ?hs). \<not> stale e it h"
    using assms(5) by (auto simp: remove_at_def in_set_conv_nth)
  then have "clear_autos e it (Suc k) (triggerRedrawOverlay (ov\<lparr>ov_highlights := remove_at k ?hs\<rparr>))
    = Some (triggerRedrawOverlay (ov\<lparr>ov_highlights := remove_at k ?hs\<rparr>))" by (intro clear_autos_none) simp
  ultimately show ?case using 0 assms(2,3) by (subst clear_autos.simps) (auto simp: Let_def stale_def)
next
  case (Suc n)
  then have "clear_autos e it (Suc i) ov = Some (triggerRedrawOverlay (ov\<lparr>ov_highlights := remove_at k (ov_highlights ov)\<rparr>))" by simp
  moreover have "\<not> stale e it (ov_highlights ov ! i)" "i < length (ov_highlights ov)" using Suc assms(2,5) by simp_all
  ultimately show ?case by (subst clear_autos.simps) (auto simp: Let_def stale_def)
qed

lemma filter_one:
  assumes "k < length xs" "P (xs ! k)" "\<forall>j < length xs. j \<noteq> k \<longrightarrow> \<not> P (xs ! j)"
  shows "remove_at k xs = filter (\<lambda>x. \<not> P x) xs"
proof -
  have "filter (\<lambda>x. \<not> P x) (take k xs) = take k xs" "filter (\<lambda>x. \<not> P x) (drop (Suc k) xs) = drop (Suc k) xs"
    using assms by (auto simp: filter_id_conv in_set_conv_nth)
  then show ?thesis using assms(2) id_take_nth_drop [OF assms(1)]
    by (metis (mono_tags, lifting) filter.simps(2) filter_append remove_at_def)
qed

lemma clear_autos_refines:
  assumes "overlay_ok ov"
  shows "\<exists>ov'. clear_autos e it 0 ov = Some ov' \<and> ov_highlights ov' = filter (\<lambda>h. \<not> stale e it h) (ov_highlights ov) \<and> updates ov ov'"
proof (cases "\<exists>k < length (ov_highlights ov). stale e it (ov_highlights ov ! k)")
  case True
  let ?hs = "ov_highlights ov"
  obtain k where k: "k < length ?hs" "stale e it (?hs ! k)" using True by blast
  have "False" if "j < length ?hs" "j \<noteq> k" "stale e it (?hs ! j)" for j
  proof -
    have "{j, k} \<subseteq> {m. m < length ?hs \<and> hl_auto (?hs ! m) = Some e}" using that k by (auto simp: stale_def)
    then have "card {j, k} \<le> length (highlighted_by e ?hs)"
      unfolding highlighted_by_def length_filter_conv_card by (rule card_mono [rotated]) simp
    then show False using that(2) assms unfolding overlay_ok_def by (metis card_2_iff numeral_le_one_iff le_trans semiring_norm(69))
  qed
  then have one: "\<forall>j < length ?hs. j \<noteq> k \<longrightarrow> \<not> stale e it (?hs ! j)" by blast
  show ?thesis
    using clear_autos_one [OF _ k _ one, of 0] filter_one [of k ?hs "stale e it", OF k one] assms by (simp add: overlay_ok_def)
next
  case False
  then have "\<forall>h \<in> set (ov_highlights ov). \<not> stale e it h" by (metis in_set_conv_nth)
  then show ?thesis using clear_autos_none by (simp add: filter_id_conv)
qed

text \<open>An event: the marks of the event move to the item.\<close>

definition item_key :: "item \<Rightarrow> mark_key" where
  "item_key i = mark_key (Some (it_series i)) (it_datapoint i)"

lemma stale_key: "stale e it h \<longleftrightarrow> hl_auto h = Some e \<and> map_option item_key it \<noteq> Some (key_of h)"
  by (auto simp: stale_def on_item_key item_key_def)

lemma marks_filter:
  "distinct (map key_of hs) \<Longrightarrow>
    map_of (map (\<lambda>h. (key_of h, hl_auto h)) (filter (\<lambda>h. \<not> stale e it h) hs)) k =
     (let m = map_of (map (\<lambda>h. (key_of h, hl_auto h)) hs)
      in if m k = Some (Some e) \<and> map_option item_key it \<noteq> Some k then None else m k)"
proof (induction hs)
  case (Cons h hs)
  have "map_of (map (\<lambda>h. (key_of h, hl_auto h)) hs) (key_of h) = None"
    using Cons.prems by (simp add: map_of_eq_None_iff image_image)
  then show ?case using Cons by (auto simp: Let_def stale_key)
qed simp

lemma clear_autos_marks:
  assumes "overlay_ok ov" "ov_highlights ov' = filter (\<lambda>h. \<not> stale e it h) (ov_highlights ov)"
  shows "marks ov' = (\<lambda>k. if marks ov k = Some (Some e) \<and> map_option item_key it \<noteq> Some k then None else marks ov k)"
  using assms marks_filter [of "ov_highlights ov" e it] by (simp add: marks_def overlay_ok_def fun_eq_iff Let_def)

lemma clear_autos_ok:
  assumes "overlay_ok ov" "ov_highlights ov' = filter (\<lambda>h. \<not> stale e it h) (ov_highlights ov)"
  shows "overlay_ok ov'" "\<And>i. it = Some i \<Longrightarrow> highlighted_by e (ov_highlights ov') = [] \<or> item_key i \<in> key_of ` set (ov_highlights ov')"
proof -
  have "filter P (filter Q xs) = filter Q (filter P xs)" for P Q and xs :: "highlighted list"
    by (simp add: conj_commute)
  then have le: "length (highlighted_by e' (ov_highlights ov')) \<le> length (highlighted_by e' (ov_highlights ov))" for e'
    unfolding highlighted_by_def assms(2) by (metis length_filter_le)
  have "distinct (map key_of (ov_highlights ov'))"
    using assms by (simp add: overlay_ok_def distinct_map_filter)
  then show "overlay_ok ov'" using assms(1) le_trans [OF le] by (simp add: overlay_ok_def)
  show "highlighted_by e (ov_highlights ov') = [] \<or> item_key i \<in> key_of ` set (ov_highlights ov')" if "it = Some i" for i
    using that assms(2) by (auto simp: highlighted_by_def filter_empty_conv stale_key)
qed

text \<open>What an automatic highlight does to the overlay.\<close>

definition auto_highlight :: "series list \<Rightarrow> string \<Rightarrow> item option \<Rightarrow> overlay \<Rightarrow> overlay option" where
  "auto_highlight ss e it ov =
     Option.bind (clear_autos e it 0 ov)
       (\<lambda>ov1. case it of None \<Rightarrow> Some ov1
          | Some i \<Rightarrow> highlight ss (SeriesObject (it_series i)) (PointArray (it_datapoint i)) (Some e) ov1)"

lemma auto_highlight_refines:
  assumes "overlay_ok ov"
  shows "\<exists>ov'. auto_highlight ss e it ov = Some ov' \<and> overlay_ok ov' \<and> updates ov ov'
    \<and> marks ov' = mark_event e (map_option item_key it) (marks ov)"
proof -
  obtain ov1 where c: "clear_autos e it 0 ov = Some ov1" "ov_highlights ov1 = filter (\<lambda>h. \<not> stale e it h) (ov_highlights ov)"
    "updates ov ov1" using clear_autos_refines [OF assms] by blast
  note m = clear_autos_marks [OF assms c(2)] and ok = clear_autos_ok [OF assms c(2)]
  show ?thesis
  proof (cases it)
    case None
    then show ?thesis using c(1,3) ok(1) m by (simp add: auto_highlight_def mark_event_def Let_def)
  next
    case (Some i)
    let ?s = "Some (it_series i)" and ?p = "it_datapoint i"
    obtain ov' where h: "highlight_point ?s ?p (Some e) ov1 = Some ov'" "marks ov' = mark (item_key i) (Some e) (marks ov1)" "updates ov1 ov'"
      using highlight_point_refines [of ?s ?p "Some e" ov1] by (auto simp: item_key_def)
    have "overlay_ok ov'" using highlight_point_ok [OF ok(1) h(1)] ok(2) [OF Some] by (simp add: item_key_def)
    then show ?thesis using h c(1) updates_trans [OF c(3) h(3)] m Some
      by (simp add: auto_highlight_def highlight_def resolve_series_def mark_event_def Let_def)
  qed
qed

lemma triggerClickHoverEvent_result:
  assumes "triggerClickHoverEvent grid g xs ys ss offset e page flt ov = Some (ov', n)"
  shows "\<exists>it. findNearbyItem (gr_mouseActiveRadius grid) xs ys ss (fst page - fst offset - plotLeft g)
      (snd page - snd offset - plotTop g) flt = Some it
    \<and> map_option fst (nt_item n) = it \<and> (if gr_autoHighlight grid then auto_highlight ss e it ov else Some ov) = Some ov'"
  using assms unfolding triggerClickHoverEvent_def Let_def auto_highlight_def [symmetric]
  by (auto split: option.splits)

section \<open>A store of marks\<close>

text \<open>
  The contract between the highlights and the mouse events: a state with a view as marks, in which
  an event moves its mark. What follows for the user holds for any such store.
\<close>

locale mark_store =
  fixes valid :: "'s \<Rightarrow> bool"
    and view :: "'s \<Rightarrow> marks"
    and event :: "string \<Rightarrow> 'i option \<Rightarrow> 's \<Rightarrow> 's"
    and ident :: "'i \<Rightarrow> mark_key"
  assumes valid_event: "valid s \<Longrightarrow> valid (event e it s)"
    and view_event: "valid s \<Longrightarrow> view (event e it s) = mark_event e (map_option ident it) (view s)"
begin

text \<open>Nothing under the mouse: the marks of the event are gone, the others are kept.\<close>

lemma event_without_item:
  assumes "valid s"
  shows "view (event e None s) k = (if view s k = Some (Some e) then None else view s k)"
  by (simp add: view_event [OF assms] mark_event_def)

text \<open>An item is marked afterwards, and it is the only one with the mark of the event.\<close>

lemma event_marks_item:
  assumes "valid s"
  shows "view (event e (Some i) s) (ident i) \<noteq> None"
    and "view (event e (Some i) s) k = Some (Some e) \<Longrightarrow> k = ident i"
  by (auto simp: view_event [OF assms] mark_event_def mark_def Let_def split: option.splits if_splits)

text \<open>Events of one name do not touch the marks of another.\<close>

lemma event_keeps_others:
  "valid s \<Longrightarrow> view s k = Some a \<Longrightarrow> a \<noteq> Some e \<Longrightarrow> e \<noteq> [] \<Longrightarrow> view (event e it s) k = Some a"
  by (auto simp: view_event mark_event_def mark_def auto_truthy_def Let_def split: option.splits if_splits)

end

interpretation highlights: mark_store overlay_ok marks "\<lambda>e it ov. the (auto_highlight ss e it ov)" item_key
  by unfold_locales (metis auto_highlight_refines option.sel)+

section \<open>The interactive layer as a state machine\<close>

text \<open>What stays fixed while the user moves the mouse.\<close>

record setting =
  se_grid :: grid_options
  se_geometry :: plot_geometry
  se_xaxes :: axes
  se_yaxes :: axes
  se_series :: "series list"
  se_offset :: "real \<times> real"
  se_numbers :: "real \<Rightarrow> string"
  se_hooks :: "drawing list"

definition painted :: "setting \<Rightarrow> overlay \<Rightarrow> drawing option" where
  "painted se ov = snd (drawOverlay (se_numbers se) (se_hooks se) (se_geometry se) (se_xaxes se) (se_yaxes se) ov)"

text \<open>The steps: the handlers, the public functions and the timer that draws the overlay.\<close>

inductive interaction :: "setting \<Rightarrow> overlay \<times> drawing option \<Rightarrow> overlay \<times> drawing option \<Rightarrow> bool" for se where
  move: "onMouseMove (se_grid se) (se_geometry se) (se_xaxes se) (se_yaxes se) (se_series se) (se_offset se) page ov = Some (ov', n)
    \<Longrightarrow> interaction se (ov, c) (ov', c)"
| leave: "onMouseLeave (se_grid se) (se_geometry se) (se_xaxes se) (se_yaxes se) (se_series se) (se_offset se) page ov = Some (ov', n)
    \<Longrightarrow> interaction se (ov, c) (ov', c)"
| click: "onClick (se_grid se) (se_geometry se) (se_xaxes se) (se_yaxes se) (se_series se) (se_offset se) page ov = Some (ov', n)
    \<Longrightarrow> interaction se (ov, c) (ov', c)"
| user_highlight: "highlight (se_series se) r p None ov = Some ov' \<Longrightarrow> interaction se (ov, c) (ov', c)"
| user_unhighlight: "unhighlight (se_series se) r' p' ov = Some ov' \<Longrightarrow> interaction se (ov, c) (ov', c)"
| user_redraw: "interaction se (ov, c) (triggerRedrawOverlay ov, c)"
| timer: "ov_redrawTimeout ov \<Longrightarrow>
    interaction se (ov, c) (drawOverlay (se_numbers se) (se_hooks se) (se_geometry se) (se_xaxes se) (se_yaxes se) ov)"

definition no_highlights :: overlay where
  "no_highlights = \<lparr>ov_highlights = [], ov_redrawTimeout = False\<rparr>"

text \<open>The overlay is well formed, and what is on the canvas is up to date or will be drawn.\<close>

definition screen_ok :: "setting \<Rightarrow> overlay \<times> drawing option \<Rightarrow> bool" where
  "screen_ok se sc \<longleftrightarrow> overlay_ok (fst sc) \<and> (ov_redrawTimeout (fst sc) \<or> snd sc = painted se (fst sc))"

lemma painted_shown: "shown ov = shown ov' \<Longrightarrow> painted se ov = painted se ov'"
proof -
  assume "shown ov = shown ov'"
  moreover have "map (draw_highlight ns xs ys) (ov_highlights o') =
      map (\<lambda>(s, p). draw_highlight ns xs ys \<lparr>hl_series = s, hl_point = p, hl_auto = None\<rparr>) (shown o')" for ns xs ys o'
    by (auto simp: shown_def draw_highlight_def split: option.split)
  ultimately show ?thesis by (simp add: painted_def drawOverlay_def)
qed

lemma screen_ok_updates: "screen_ok se (ov, c) \<Longrightarrow> overlay_ok ov' \<Longrightarrow> updates ov ov' \<Longrightarrow> screen_ok se (ov', c)"
  using painted_shown [of ov' ov se] by (auto simp: screen_ok_def updates_def)

lemma triggerClickHoverEvent_ok:
  assumes "triggerClickHoverEvent grid g xs ys ss offset e page flt ov = Some (ov', n)" "overlay_ok ov"
  shows "overlay_ok ov' \<and> updates ov ov'"
proof -
  obtain it where "(if gr_autoHighlight grid then auto_highlight ss e it ov else Some ov) = Some ov'"
    using triggerClickHoverEvent_result [OF assms(1)] by blast
  then show ?thesis using auto_highlight_refines [OF assms(2), of ss e it] assms(2) by (auto split: if_splits)
qed

lemma handlers_ok:
  assumes "overlay_ok ov"
    and "onMouseMove grid g xs ys ss offset page ov = Some (ov', n) \<or> onMouseLeave grid g xs ys ss offset page ov = Some (ov', n)
      \<or> onClick grid g xs ys ss offset page ov = Some (ov', n)"
  shows "overlay_ok ov' \<and> updates ov ov'"
  using assms
  by (auto simp: onMouseMove_def onMouseLeave_def onClick_def split: if_splits dest: triggerClickHoverEvent_ok [OF _ assms(1)])

lemma highlight_ok:
  assumes "highlight ss r p None ov = Some ov'" "overlay_ok ov"
  shows "overlay_ok ov' \<and> updates ov ov'"
proof -
  obtain s q where h: "highlight_point s q None ov = Some ov'"
    using assms(1) by (auto simp: highlight_def Let_def split: point_ref.splits option.splits)
  then show ?thesis using highlight_point_ok [OF assms(2) h] highlight_point_refines [of s q None ov] by auto
qed

lemma unhighlight_ok:
  assumes "unhighlight ss r p ov = Some ov'" "overlay_ok ov"
  shows "overlay_ok ov' \<and> updates ov ov'"
proof -
  define ov1 where "ov1 = (if r = None \<and> p = None then triggerRedrawOverlay (ov\<lparr>ov_highlights := []\<rparr>) else ov)"
  have "overlay_ok ov1" "updates ov ov1" using assms(2) by (auto simp: ov1_def overlay_ok_def)
  moreover obtain s q where "unhighlight_point s q ov1 = Some ov'"
    using assms(1) unfolding unhighlight_def Let_def ov1_def [symmetric]
    by (auto split: point_ref.splits option.splits)
  ultimately show ?thesis using unhighlight_point_ok updates_trans by blast
qed

lemma screen_ok_step: "screen_ok se (ov, c) \<Longrightarrow> (overlay_ok ov \<Longrightarrow> overlay_ok ov' \<and> updates ov ov') \<Longrightarrow> screen_ok se (ov', c)"
  using screen_ok_updates by (auto simp: screen_ok_def)

lemma interaction_ok: "interaction se sc sc' \<Longrightarrow> screen_ok se sc \<Longrightarrow> screen_ok se sc'"
proof (induction rule: interaction.induct)
  case (move page ov ov' n c)
  show ?case by (rule screen_ok_step [OF move(2)], rule handlers_ok [OF _ disjI1]) (assumption, rule move(1))
next
  case (leave page ov ov' n c)
  show ?case by (rule screen_ok_step [OF leave(2)], rule handlers_ok [OF _ disjI2 [OF disjI1]]) (assumption, rule leave(1))
next
  case (click page ov ov' n c)
  show ?case by (rule screen_ok_step [OF click(2)], rule handlers_ok [OF _ disjI2 [OF disjI2]]) (assumption, rule click(1))
next
  case (user_highlight r p ov ov' c)
  show ?case by (rule screen_ok_step [OF user_highlight(2)], rule highlight_ok [OF user_highlight(1)]) assumption
next
  case (user_unhighlight r p ov ov' c)
  show ?case by (rule screen_ok_step [OF user_unhighlight(2)], rule unhighlight_ok [OF user_unhighlight(1)]) assumption
next
  case (user_redraw ov c)
  then show ?case by (auto simp: screen_ok_def overlay_ok_def)
next
  case (timer ov c)
  then show ?case by (auto simp: screen_ok_def overlay_ok_def painted_def drawOverlay_def)
qed

lemma interaction_star_ok: "(interaction se)\<^sup>*\<^sup>* sc sc' \<Longrightarrow> screen_ok se sc \<Longrightarrow> screen_ok se sc'"
  by (induction rule: rtranclp_induct) (auto intro: interaction_ok)

text \<open>
  C10. However the user moves, clicks and leaves with the mouse, whatever points are highlighted and
  unhighlighted by calls, and whenever the timer fires: no point is ever highlighted twice, each kind
  of event has at most one point highlighted, and the overlay on the screen shows exactly the
  current highlights unless a redraw is already scheduled.
\<close>

theorem overlay_invariant:
  assumes "(interaction se)\<^sup>*\<^sup>* (no_highlights, painted se no_highlights) (ov, c)"
  shows "distinct (map key_of (ov_highlights ov)) \<and> (\<forall>e. length (highlighted_by e (ov_highlights ov)) \<le> 1)
    \<and> (ov_redrawTimeout ov \<or> c = painted se ov)"
proof -
  have "screen_ok se (no_highlights, painted se no_highlights)"
    by (simp add: screen_ok_def no_highlights_def overlay_ok_def)
  then have "screen_ok se (ov, c)" using interaction_star_ok assms by blast
  then show ?thesis by (simp add: screen_ok_def overlay_ok_def)
qed

definition demo_setting :: setting where
  "demo_setting =
     \<lparr>se_grid = default_grid\<lparr>gr_hoverable := True\<rparr>,
      se_geometry = \<lparr>plotLeft = 0, plotTop = 0, plotWidth = 400, plotHeight = 300, plotRight = 0, plotBottom = 0,
        canvasWidth = 400, canvasHeight = 300\<rparr>,
      se_xaxes = [Some (demo_axis X)], se_yaxes = [Some (demo_axis Y)], se_series = [demo_plotted], se_offset = (0, 0),
      se_numbers = (\<lambda>_. ''0''), se_hooks = []\<rparr>"

theorem overlay_invariant_witness:
  "\<exists>ov c. (interaction demo_setting)\<^sup>*\<^sup>* (no_highlights, painted demo_setting no_highlights) (ov, c)
     \<and> ov_highlights ov \<noteq> [] \<and> distinct (map key_of (ov_highlights ov))"
proof -
  let ?ov = "triggerRedrawOverlay
    \<lparr>ov_highlights = [\<lparr>hl_series = Some demo_plotted, hl_point = [Some 3, Some 5], hl_auto = None\<rparr>], ov_redrawTimeout = False\<rparr>"
  have "highlight (se_series demo_setting) (SeriesNumber 0) (PointNumber 0) None no_highlights = Some ?ov"
    by (simp add: highlight_def highlight_point_def resolve_series_def demo_setting_def no_highlights_def demo_plotted_def
        pointsize_of_def)
  then have "(interaction demo_setting)\<^sup>*\<^sup>* (no_highlights, painted demo_setting no_highlights) (?ov, painted demo_setting no_highlights)"
    by (blast intro: interaction.user_highlight)
  then show ?thesis using overlay_invariant by (metis highlighted.select_convs list.discI overlay.select_convs(1) triggerRedrawOverlay_simps(1))
qed

lemma triggerClickHoverEvent_refines:
  assumes ok: "overlay_ok ov" and s: "searchable xs ys flt ss" and a: "gr_autoHighlight grid"
  shows "\<exists>ov' n. triggerClickHoverEvent grid g xs ys ss offset e page flt ov = Some (ov', n) \<and> overlay_ok ov'
    \<and> marks ov' = mark_event e (map_option (item_key \<circ> fst) (nt_item n)) (marks ov)
    \<and> (\<forall>i. map_option fst (nt_item n) = Some i \<longrightarrow> flt (it_series i))"
proof -
  let ?x = "fst page - fst offset - plotLeft g" and ?y = "snd page - snd offset - plotTop g"
  obtain it where it: "findNearbyItem (gr_mouseActiveRadius grid) xs ys ss ?x ?y flt = Some it"
    "\<And>i. it = Some i \<Longrightarrow> \<exists>s \<in> set ss. it_series i = s \<and> flt s"
    using findNearbyItem_searched [OF s] by blast
  then obtain placed where p: "(case it of None \<Rightarrow> Some None | Some i \<Rightarrow>
        map_option (\<lambda>(ax, ay). Some (i,
            parse_int_num (ax_p2c ax (num0 (rd (it_datapoint i) 0)) + fst offset + plotLeft g),
            parse_int_num (ax_p2c ay (num0 (rd (it_datapoint i) 1)) + snd offset + plotTop g)))
          (series_axes xs ys (it_series i))) = Some placed" "map_option fst placed = it"
    using s by (cases it) (fastforce simp: searchable_def)+
  obtain ov' where "auto_highlight ss e it ov = Some ov'" "overlay_ok ov'" "marks ov' = mark_event e (map_option item_key it) (marks ov)"
    using auto_highlight_refines [OF ok] by blast
  then show ?thesis
    using a p(2) it(2) unfolding triggerClickHoverEvent_def Let_def it(1) option.case p(1) auto_highlight_def [symmetric]
    by (auto simp: option.map_comp)
qed

text \<open>
  C11. The list of highlights implements a map from points to the event that marked them. Highlighting
  and unhighlighting a point sets and clears its mark, unhighlighting everything empties the map, and
  a mouse event always completes: it moves the mark of its kind to the item that it reports, and touches
  no other mark, although the code removes from the list it is running over.
\<close>

theorem highlights_refine_marks:
  assumes "overlay_ok ov"
  shows "(\<exists>ov'. highlight ss r (PointArray p) None ov = Some ov' \<and> overlay_ok ov'
        \<and> marks ov' = mark (mark_key (resolve_series ss r) p) None (marks ov))
    \<and> (\<exists>ov'. unhighlight ss (Some r) (Some (PointArray p)) ov = Some ov' \<and> overlay_ok ov'
        \<and> marks ov' = unmark (mark_key (resolve_series ss r) p) (marks ov))
    \<and> (\<exists>ov'. unhighlight ss None None ov = Some ov' \<and> overlay_ok ov' \<and> marks ov' = Map.empty)
    \<and> (searchable xs ys flt ss \<longrightarrow> gr_autoHighlight grid \<longrightarrow>
        (\<exists>ov' n. triggerClickHoverEvent grid g xs ys ss offset e page flt ov = Some (ov', n) \<and> overlay_ok ov'
          \<and> marks ov' = mark_event e (map_option (item_key \<circ> fst) (nt_item n)) (marks ov)))"
proof (intro conjI impI)
  show "\<exists>ov'. highlight ss r (PointArray p) None ov = Some ov' \<and> overlay_ok ov'
        \<and> marks ov' = mark (mark_key (resolve_series ss r) p) None (marks ov)"
    using highlight_point_refines [of "resolve_series ss r" p None ov] highlight_ok [OF _ assms, of ss r "PointArray p"]
    by (auto simp: highlight_def)
  show "\<exists>ov'. unhighlight ss (Some r) (Some (PointArray p)) ov = Some ov' \<and> overlay_ok ov'
        \<and> marks ov' = unmark (mark_key (resolve_series ss r) p) (marks ov)"
    using unhighlight_point_refines [OF assms, of "resolve_series ss r" p] unhighlight_ok [OF _ assms, of ss "Some r" "Some (PointArray p)"]
    by (auto simp: unhighlight_def)
  show "\<exists>ov'. unhighlight ss None None ov = Some ov' \<and> overlay_ok ov' \<and> marks ov' = Map.empty"
    by (simp add: unhighlight_def unhighlight_point_def overlay_ok_def marks_def)
  assume s: "searchable xs ys flt ss" and a: "gr_autoHighlight grid"
  show "\<exists>ov' n. triggerClickHoverEvent grid g xs ys ss offset e page flt ov = Some (ov', n) \<and> overlay_ok ov'
          \<and> marks ov' = mark_event e (map_option (item_key \<circ> fst) (nt_item n)) (marks ov)"
    using triggerClickHoverEvent_refines [OF assms s a] by blast
qed

theorem highlights_refine_marks_witness:
  "\<exists>ov' n. triggerClickHoverEvent default_grid (se_geometry demo_setting) [Some (demo_axis X)] [Some (demo_axis Y)] [demo_plotted]
      (0, 0) ''plothover'' (41, 208) (\<lambda>_. True) no_highlights = Some (ov', n)
    \<and> marks ov' = mark_event ''plothover'' (map_option (item_key \<circ> fst) (nt_item n)) (marks no_highlights)"
proof -
  have "overlay_ok no_highlights" by (simp add: no_highlights_def overlay_ok_def)
  from highlights_refine_marks [OF this, of "[demo_plotted]" undefined undefined "[Some (demo_axis X)]" "[Some (demo_axis Y)]"
      "\<lambda>_. True" default_grid "se_geometry demo_setting" "(0, 0)" "''plothover''" "(41, 208)"]
  show ?thesis using demo_searchable by (auto simp: default_grid_def)
qed



section \<open>Two findings\<close>

text \<open>
  \<open>unhighlight\<close> with a number takes the row of the raw data, \<open>highlight\<close> the processed point: when a
  plugin changed the points (stacking adds to them), the point stays highlighted.
\<close>

lemma unhighlight_by_number_misses:
  "let s = demo_plotted\<lparr>sr_data := [Some [RNum (Fin 3), RNum (Fin 2)]]\<rparr>
   in Option.bind (highlight [s] (SeriesNumber 0) (PointNumber 0) None no_highlights)
        (unhighlight [s] (Some (SeriesNumber 0)) (Some (PointNumber 0)))
      = highlight [s] (SeriesNumber 0) (PointNumber 0) None no_highlights"
  by (simp add: highlight_def highlight_point_def resolve_series_def no_highlights_def demo_plotted_def pointsize_of_def
      unhighlight_def unhighlight_point_def same_series_def same_point_def raw_at_def rd_def cell_raw_def loose_eq_def Let_def)

text \<open>The loop that clears skips the highlight behind one that it removes.\<close>

lemma clear_autos_skips:
  assumes "h1 = \<lparr>hl_series = None, hl_point = [Some 1, Some 1], hl_auto = Some e\<rparr>"
    and "h2 = \<lparr>hl_series = None, hl_point = [Some 2, Some 2], hl_auto = Some e\<rparr>"
  shows "map_option ov_highlights (clear_autos e None 0 \<lparr>ov_highlights = [h1, h2], ov_redrawTimeout = True\<rparr>) = Some [h2]"
  by (simp add: clear_autos.simps assms on_item_def unhighlight_point_def same_series_def same_point_def raw_at_def rd_def
      cell_raw_def loose_eq_def remove_at_def triggerRedrawOverlay_def Let_def)

end
