(* ===== verification/Ticks.thy ===== *)
theory Ticks
  imports Axis Color
begin

text \<open>
  Ticks for decimal numbers, \<open>static/flot/jquery.flot.js\<close>: the choice of a round tick size, the loop
  that makes the ticks, and their labels (\<open>setupTickGeneration\<close>, base-10 part).
\<close>

section \<open>The tick size\<close>

definition floorInBase :: "real \<Rightarrow> real \<Rightarrow> real" where
  "floorInBase n base = base * of_int \<lfloor>n / base\<rfloor>"

text \<open>The number of ticks wanted: given, or estimated from the size of the canvas.\<close>

definition noTicks :: "real \<Rightarrow> real \<Rightarrow> axis \<Rightarrow> real" where
  "noTicks canvasWidth canvasHeight a =
     (case opt_ticks (ax_options a) of
        TickCount n \<Rightarrow> (if n > 0 then n else 0.3 * sqrt (case ax_direction a of X \<Rightarrow> canvasWidth | Y \<Rightarrow> canvasHeight))
      | _ \<Rightarrow> 0.3 * sqrt (case ax_direction a of X \<Rightarrow> canvasWidth | Y \<Rightarrow> canvasHeight))"

definition tick_delta :: "real \<Rightarrow> real \<Rightarrow> axis \<Rightarrow> real" where
  "tick_delta canvasWidth canvasHeight a = (ax_max a - ax_min a) / noTicks canvasWidth canvasHeight a"

text \<open>\<open>Math.floor(Math.log(x) / Math.LN10)\<close>.\<close>

definition log10_floor :: "real \<Rightarrow> int" where
  "log10_floor x = \<lfloor>ln x / ln 10\<rfloor>"

text \<open>
  The size of the steps and the number of decimals they need, for a positive distance. The special case
  of 2.5 needs one more decimal.
\<close>

definition round_size :: "real \<Rightarrow> int option \<Rightarrow> real \<times> int" where
  "round_size delta maxDec =
     (let dec0 = - log10_floor delta;
          dec = (case maxDec of Some m \<Rightarrow> if dec0 > m then m else dec0 | None \<Rightarrow> dec0);
          magn = 10 powr of_int (- dec); norm = delta / magn
      in if norm < 1.5 then (magn, dec)
         else if norm < 3 then
           (if norm > 2.25 \<and> (case maxDec of None \<Rightarrow> True | Some m \<Rightarrow> dec + 1 \<le> m) then (2.5 * magn, dec + 1) else (2 * magn, dec))
         else if norm < 7.5 then (5 * magn, dec) else (10 * magn, dec))"

text \<open>A minimal size and a fixed size of the options; a size of 0 counts as none.\<close>

definition decimal_size :: "real \<Rightarrow> axis_options \<Rightarrow> tick_size \<times> int" where
  "decimal_size delta opts =
     (let (size, dec) = round_size delta (opt_tickDecimals opts);
          size' = (case opt_minTickSize opts of Some (Size m) \<Rightarrow> if size < m then m else size | _ \<Rightarrow> size)
      in (case opt_tickSize opts of
            Some (Size s) \<Rightarrow> if s \<noteq> 0 then Size s else Size size'
          | Some (UnitSize n u) \<Rightarrow> UnitSize n u
          | None \<Rightarrow> Size size',
          max 0 (case opt_tickDecimals opts of Some m \<Rightarrow> m | None \<Rightarrow> dec)))"

section \<open>Making the ticks\<close>

text \<open>The loop; \<open>prev\<close> is \<open>None\<close> for the initial NaN. \<open>None\<close> is a loop that does not end.\<close>

partial_function (option) decimal_loop :: "real \<Rightarrow> real \<Rightarrow> real \<Rightarrow> nat \<Rightarrow> real option \<Rightarrow> real list option" where
  "decimal_loop start s mx i prev =
     (let v = start + real i * s
      in if v < mx \<and> prev \<noteq> Some v then Option.bind (decimal_loop start s mx (Suc i) (Some v)) (\<lambda>ts. Some (v # ts)) else Some [v])"

text \<open>
  The generator for decimal numbers. With a size of 0 or a size with a unit, the start is NaN, and so is the
  only tick, which is dropped when the ticks are labelled.
\<close>

definition decimal_ticks :: "axis \<Rightarrow> real list option" where
  "decimal_ticks a =
     (case ax_tickSize a of
        Size s \<Rightarrow> if s = 0 then Some [] else decimal_loop (floorInBase (ax_min a) s) s (ax_max a) 0 None
      | UnitSize _ _ \<Rightarrow> Some [])"

section \<open>Labels\<close>

text \<open>A natural number with at least \<open>k\<close> digits.\<close>

definition padded :: "nat \<Rightarrow> nat \<Rightarrow> string" where
  "padded k n = replicate (k - length (nat_str n)) (CHR ''0'') @ nat_str n"

text \<open>
  \<open>Number.prototype.toFixed\<close>: the nearest decimal, halves upwards; \<open>None\<close> is the \<open>RangeError\<close> for a number of decimals
  that is not between 0 and 20. Numbers from \<open>10\<^sup>2\<^sup>1\<close> on are rendered as any number.
\<close>

definition fixed_digits :: "nat \<Rightarrow> nat \<Rightarrow> string" where
  "fixed_digits f n =
     (if f = 0 then nat_str n
      else let t = padded (Suc f) n in take (length t - f) t @ ''.'' @ drop (length t - f) t)"

definition toFixed :: "real \<Rightarrow> int \<Rightarrow> markup option" where
  "toFixed x f =
     (if f < 0 \<or> 20 < f then None
      else if 10 ^ 21 \<le> \<bar>x\<bar> then Some [V x]
      else Some [T ((if x < 0 then ''-'' else []) @ fixed_digits (nat f) (nat \<lfloor>\<bar>x\<bar> * 10 ^ nat f + 1 / 2\<rfloor>))])"

section \<open>The ticks cover the range\<close>

lemma floorInBase_bounds:
  assumes "0 < s"
  shows "floorInBase x s \<le> x" "x < floorInBase x s + s"
proof -
  have "s * of_int \<lfloor>x / s\<rfloor> \<le> s * (x / s)" "s * (x / s) < s * (of_int \<lfloor>x / s\<rfloor> + 1)"
    using assms by (intro mult_left_mono mult_strict_left_mono; linarith)+
  then show "floorInBase x s \<le> x" "x < floorInBase x s + s"
    using assms by (simp_all add: floorInBase_def algebra_simps)
qed

text \<open>The number of steps to the end of the range.\<close>

definition tick_steps :: "real \<Rightarrow> real \<Rightarrow> real \<Rightarrow> nat" where
  "tick_steps start s mx = nat \<lceil>(mx - start) / s\<rceil>"

lemma decimal_loop_ticks:
  assumes "0 < s" "i \<le> tick_steps start s mx" "\<And>v. prev = Some v \<Longrightarrow> v < start + real i * s"
  shows "decimal_loop start s mx i prev = Some (map (\<lambda>k. start + real k * s) [i..<Suc (tick_steps start s mx)])"
  using assms(2,3)
proof (induction "tick_steps start s mx - i" arbitrary: i prev)
  case 0
  then have i: "i = tick_steps start s mx" by simp
  have "(mx - start) / s \<le> real (tick_steps start s mx)" by (simp add: tick_steps_def) linarith
  then have "mx \<le> start + real i * s" using assms(1) i by (simp add: field_simps)
  then show ?case by (subst decimal_loop.simps) (simp add: i)
next
  case (Suc n)
  let ?v = "start + real i * s"
  have "i < tick_steps start s mx" using Suc.hyps(2) by simp
  then have "real i < (mx - start) / s" unfolding tick_steps_def by linarith
  then have v: "?v < mx" using assms(1) by (simp add: field_simps)
  have "decimal_loop start s mx (Suc i) (Some ?v) = Some (map (\<lambda>k. start + real k * s) [Suc i..<Suc (tick_steps start s mx)])"
    using Suc assms(1) by (intro Suc.hyps(1)) (auto simp: algebra_simps)
  moreover have "prev \<noteq> Some ?v" using Suc.prems(2) by blast
  ultimately show ?case
    using v \<open>i < tick_steps start s mx\<close> by (subst decimal_loop.simps) (simp add: Let_def upt_conv_Cons)
qed

section \<open>The size is round and fits the wish\<close>

lemma log10_floor_bounds:
  assumes "0 < x"
  shows "10 powr of_int (log10_floor x) \<le> x" "x < 10 powr (of_int (log10_floor x) + 1)"
proof -
  have "of_int (log10_floor x) \<le> log 10 x" "log 10 x < of_int (log10_floor x) + 1"
    unfolding log10_floor_def log_def by linarith+
  then show "10 powr of_int (log10_floor x) \<le> x" "x < 10 powr (of_int (log10_floor x) + 1)"
    using assms by (simp_all add: le_log_iff log_less_iff)
qed

lemma round_size_cases:
  assumes "0 < delta" "round_size delta None = (s, p)"
  shows "(\<exists>c \<in> {1, 2, 5, 10, 25 :: nat}. s = real c * 10 powr of_int (- p)) \<and> 2 / 3 * delta < s \<and> s \<le> 5 / 3 * delta"
proof -
  define e where "e = log10_floor delta"
  define m where "m = 10 powr real_of_int e"
  have m: "0 < m" "m \<le> delta" "delta < 10 * m"
    using log10_floor_bounds [OF assms(1)] by (simp_all add: m_def e_def powr_add)
  have mm: "10 powr of_int (- (- e)) = m" "25 * 10 powr of_int (- (1 - e)) = 5 / 2 * m"
    by (simp_all add: m_def powr_diff)
  have r: "round_size delta None =
     (if delta / m < 1.5 then (m, - e)
      else if delta / m < 3 then (if delta / m > 2.25 then (2.5 * m, 1 - e) else (2 * m, - e))
      else if delta / m < 7.5 then (5 * m, - e) else (10 * m, - e))"
    by (simp add: round_size_def Let_def e_def [symmetric] m_def [symmetric])
  have q: "delta / m < k \<longleftrightarrow> delta < k * m" "delta / m > k \<longleftrightarrow> delta > k * m" for k
    using m(1) by (simp_all add: field_simps)
  show ?thesis
    using assms(2) m mm unfolding r q by (auto split: if_splits)
qed

text \<open>The ticks from a start at or below the lower bound: where the last one is, and how many there are.\<close>

lemma tick_steps_count:
  assumes m: "m = tick_steps start s b" and "0 < s" "start \<le> a" "a < start + s" "a < b" "0 < n" "2 / 3 * ((b - a) / n) < s" "s \<le> 5 / 3 * ((b - a) / n)"
  shows "b \<le> start + real m * s" "start + real m * s < b + s" "3 / 5 * n \<le> real m" "real m < 3 / 2 * n + 2"
proof -
  have "0 < (b - start) / s" using assms by simp
  then have mb: "(b - start) / s \<le> real m" "real m < (b - start) / s + 1"
    unfolding m tick_steps_def by linarith+
  then show "b \<le> start + real m * s" "start + real m * s < b + s" using assms(2) by (simp_all add: field_simps)
  have "3 / 5 * n * s \<le> b - start" using assms(3,6,8) by (simp add: field_simps)
  then have "3 / 5 * n \<le> (b - start) / s" using assms(2) by (simp add: field_simps)
  then show "3 / 5 * n \<le> real m" using mb(1) by linarith
  have "b - a < 3 / 2 * n * s" using assms(6,7) by (simp add: field_simps)
  then have "(b - start) / s < 3 / 2 * n + 1" using assms(2,4) by (simp add: field_simps)
  then show "real m < 3 / 2 * n + 2" using mb(2) by linarith
qed

text \<open>The factors of the step, 25 tenths of a power of ten being 2.5 times the next one.\<close>

lemma round_factor:
  assumes "c \<in> {1, 2, 5, 10, 25 :: nat}"
  shows "\<exists>c' \<in> {1, 2, 5 / 2, 5, 10 :: real}. \<exists>e :: int. real c * 10 powr of_int (- p) = c' * 10 powr of_int e"
proof (cases "c = 25")
  case True
  have "10 powr (of_int (1 - p)) = 10 * 10 powr real_of_int (- p)" by (simp add: powr_diff powr_minus_divide)
  then have "real c * 10 powr of_int (- p) = 5 / 2 * 10 powr of_int (1 - p)" using True by simp
  then show ?thesis by blast
next
  case False
  then have "real c \<in> {1, 2, 5 / 2, 5, 10}" using assms by auto
  then show ?thesis by blast
qed

text \<open>
  Automatic ticks on a decimal axis. The loop ends; the first tick is the last multiple of the step
  at or below the lower bound, the last one the first at or above the upper bound, and the ticks
  are one step apart. The step is 1, 2, 2.5, 5 or 10 times a power of ten, and the number of ticks is within
  a factor of the number wanted.
\<close>

lemma decimal_ticks_cover:
  assumes "0 < canvasWidth" "0 < canvasHeight" "ax_min a < ax_max a"
    and "opt_tickDecimals (ax_options a) = None" "opt_tickSize (ax_options a) = None" "opt_minTickSize (ax_options a) = None"
  defines "n \<equiv> noTicks canvasWidth canvasHeight a"
  shows "\<exists>s d ts k. decimal_size (tick_delta canvasWidth canvasHeight a) (ax_options a) = (Size s, d)
    \<and> decimal_ticks (a\<lparr>ax_tickSize := Size s\<rparr>) = Some ts
    \<and> ts = map (\<lambda>i. of_int (k + int i) * s) [0..<length ts]
    \<and> hd ts \<le> ax_min a \<and> ax_min a < hd ts + s \<and> ax_max a \<le> last ts \<and> last ts < ax_max a + s
    \<and> (\<exists>c \<in> {1, 2, 5 / 2, 5, 10}. \<exists>e :: int. s = c * 10 powr of_int e)
    \<and> 3 / 5 * n + 1 \<le> real (length ts) \<and> real (length ts) < 3 / 2 * n + 3"
proof -
  let ?delta = "tick_delta canvasWidth canvasHeight a"
  obtain s p where r: "round_size ?delta None = (s, p)" by fastforce
  have n: "0 < n" using assms(1,2) by (auto simp: n_def noTicks_def split: tick_option.splits direction.splits)
  have delta: "?delta = (ax_max a - ax_min a) / n" by (simp add: tick_delta_def n_def)
  then have d0: "0 < ?delta" using n assms(3) by simp
  from round_size_cases [OF d0 r] obtain c :: nat where
    c: "c \<in> {1, 2, 5, 10, 25}" "s = real c * 10 powr of_int (- p)" and s: "2 / 3 * ?delta < s" "s \<le> 5 / 3 * ?delta" by blast
  have s0: "0 < s" using s(1) d0 by linarith
  define k where "k = \<lfloor>ax_min a / s\<rfloor>"
  define start where "start = floorInBase (ax_min a) s"
  define m where "m = tick_steps start s (ax_max a)"
  have start: "start = of_int k * s" "start \<le> ax_min a" "ax_min a < start + s"
    using floorInBase_bounds [OF s0, of "ax_min a"] by (simp_all add: start_def k_def floorInBase_def)
  note m = tick_steps_count [OF m_def s0 start(2,3) assms(3) n s [unfolded delta]]
  let ?ts = "map (\<lambda>i. start + real i * s) [0..<Suc m]"
  have "decimal_ticks (a\<lparr>ax_tickSize := Size s\<rparr>) = Some ?ts"
    using decimal_loop_ticks [OF s0, of 0 start "ax_max a" None] s0
    by (simp add: decimal_ticks_def start_def [symmetric] m_def [symmetric])
  moreover have "decimal_size ?delta (ax_options a) = (Size s, max 0 p)"
    using assms(4-6) by (simp add: decimal_size_def r)
  moreover have "?ts = map (\<lambda>i. of_int (k + int i) * s) [0..<length ?ts]"
    by (auto simp: start(1) algebra_simps simp del: upt_Suc)
  moreover have "hd ?ts = start" "last ?ts = start + real m * s" by (simp_all add: hd_map last_map del: upt_Suc)
  moreover have "\<exists>c \<in> {1, 2, 5 / 2, 5, 10}. \<exists>e :: int. s = c * 10 powr of_int e"
    using round_factor [OF c(1), of p] unfolding c(2) .
  ultimately show ?thesis using start(2,3) m by (intro exI [of _ s] exI [of _ "max 0 p"] exI [of _ ?ts] exI [of _ k]) (simp del: upt_Suc)
qed

section \<open>The labels are exact\<close>

text \<open>The number a label says, read with the pattern for decimals.\<close>

definition label_value :: "string \<Rightarrow> real option" where
  "label_value t =
     (case t of CHR ''-'' # u \<Rightarrow> map_option (\<lambda>r. - fst r) (dec u) | _ \<Rightarrow> map_option fst (dec t))"

lemma foldl_digits:
  "foldl (\<lambda>a c. 10 * a + digit_val c) v b = v * 10 ^ length b + foldl (\<lambda>a c. 10 * a + digit_val c) 0 b"
proof (induction b arbitrary: v)
  case (Cons c b)
  have "foldl (\<lambda>a c. 10 * a + digit_val c) v (c # b) = (10 * v + digit_val c) * 10 ^ length b + foldl (\<lambda>a c. 10 * a + digit_val c) 0 b"
    unfolding foldl_Cons by (rule Cons)
  also have "\<dots> = v * 10 ^ length (c # b) + (digit_val c * 10 ^ length b + foldl (\<lambda>a c. 10 * a + digit_val c) 0 b)"
    by (simp add: distrib_right)
  also have "digit_val c * 10 ^ length b + foldl (\<lambda>a c. 10 * a + digit_val c) 0 b = foldl (\<lambda>a c. 10 * a + digit_val c) (digit_val c) b"
    by (rule Cons [symmetric])
  finally show ?case by simp
qed simp

lemma digits_val_append: "digits_val (a @ b) = digits_val a * 10 ^ length b + digits_val b"
  unfolding digits_val_def foldl_append by (rule foldl_digits)

lemma digits_val_zeros [simp]: "digits_val (replicate k (CHR ''0'')) = 0"
proof (induction k)
  case (Suc k)
  then show ?case using digits_val_append [of "''0''" "replicate k (CHR ''0'')"]
    by (simp add: digits_val_def digit_val_def)
qed (simp add: digits_val_def)

lemma padded_facts: "digits_val (padded k n) = n" "list_all is_digit (padded k n)" "k \<le> length (padded k n)" "padded k n \<noteq> []"
  using nat_str_digits [of n] by (auto simp: padded_def digits_val_append list_all_iff is_digit_def)

lemma dec_point:
  assumes "a \<noteq> []" "\<forall>c \<in> set a. is_digit c" "b \<noteq> []" "\<forall>c \<in> set b. is_digit c"
  shows "dec (a @ CHR ''.'' # b) = Some (real (digits_val a) + real (digits_val b) / 10 ^ length b, [])"
proof -
  have dot: "\<not> is_digit (CHR ''.'')" by (simp add: is_digit_def)
  have w: "takeWhile is_digit (a @ CHR ''.'' # b) = a" "dropWhile is_digit (a @ CHR ''.'' # b) = CHR ''.'' # b"
    "takeWhile is_digit b = b" "dropWhile is_digit b = []"
    using assms(2,4) dot by (simp_all add: takeWhile_append dropWhile_append takeWhile_eq_all_conv dropWhile_eq_Nil_conv)
  show ?thesis using assms(1,3) by (simp add: dec_def w)
qed

lemma fixed_digits_value: "dec (fixed_digits f n) = Some (real n / 10 ^ f, [])"
proof (cases "f = 0")
  case True
  have w: "takeWhile is_digit (nat_str n) = nat_str n" "dropWhile is_digit (nat_str n) = []"
    using nat_str_digits [of n] by (simp_all add: takeWhile_eq_all_conv dropWhile_eq_Nil_conv list_all_iff)
  show ?thesis using True by (simp add: fixed_digits_def dec_def w)
next
  case False
  let ?t = "padded (Suc f) n"
  let ?a = "take (length ?t - f) ?t" and ?b = "drop (length ?t - f) ?t"
  have len: "Suc f \<le> length ?t" and digits: "\<forall>c \<in> set ?t. is_digit c"
    using padded_facts [where k = "Suc f" and n = n] by (auto simp: list_all_iff)
  have a: "?a \<noteq> []" "\<forall>c \<in> set ?a. is_digit c" and b: "?b \<noteq> []" "\<forall>c \<in> set ?b. is_digit c" "length ?b = f"
    using len digits False by (auto dest: in_set_takeD in_set_dropD)
  have "dec (?a @ CHR ''.'' # ?b) = Some (real (digits_val ?a) + real (digits_val ?b) / 10 ^ f, [])"
    using dec_point [OF a b(1,2)] b(3) by simp
  moreover have "n = digits_val ?a * 10 ^ f + digits_val ?b"
    using digits_val_append [of ?a ?b] padded_facts(1) [of "Suc f" n] b(3) by simp
  then have "real n = real (digits_val ?a) * 10 ^ f + real (digits_val ?b)" by (metis of_nat_add of_nat_mult of_nat_numeral of_nat_power)
  ultimately show ?thesis using False by (simp add: fixed_digits_def Let_def field_simps)
qed

lemma fixed_digits_start: "\<exists>c u. fixed_digits f n = c # u \<and> is_digit c"
proof -
  have "fixed_digits f n \<noteq> []" "takeWhile is_digit (fixed_digits f n) \<noteq> []"
    using fixed_digits_value [of f n] by (auto simp: dec_def Let_def split: if_splits)
  then show ?thesis by (cases "fixed_digits f n") (auto split: if_splits)
qed

lemma toFixed_exact:
  assumes "x * 10 ^ nat f \<in> \<int>" "0 \<le> f" "f \<le> 20" "\<bar>x\<bar> < 10 ^ 21"
  shows "\<exists>t. toFixed x f = Some [T t] \<and> label_value t = Some x"
proof -
  let ?n = "nat \<lfloor>\<bar>x\<bar> * 10 ^ nat f + 1 / 2\<rfloor>"
  obtain i where i: "x * 10 ^ nat f = of_int i" using assms(1) by (auto elim: Ints_cases)
  have "\<bar>x\<bar> * 10 ^ nat f = \<bar>x * 10 ^ nat f\<bar>" by (simp add: abs_mult)
  then have n: "\<bar>x\<bar> * 10 ^ nat f = of_int \<bar>i\<bar>" by (simp add: i)
  then have "\<lfloor>\<bar>x\<bar> * 10 ^ nat f + 1 / 2\<rfloor> = \<bar>i\<bar>" by linarith
  then have v: "real ?n / 10 ^ nat f = \<bar>x\<bar>" using n by (simp add: field_simps)
  obtain c u where cu: "fixed_digits (nat f) ?n = c # u" "is_digit c" using fixed_digits_start by blast
  have d: "dec (c # u) = Some (\<bar>x\<bar>, [])" using fixed_digits_value [of "nat f" ?n] cu(1) v by simp
  have "c \<noteq> CHR ''-''" using is_digit_not_sign [OF cu(2)] by blast
  then have "label_value (c # u) = map_option fst (dec (c # u))" by (cases c) (auto simp: label_value_def split: char.splits bool.splits)
  then show ?thesis using assms(2-4) d cu(1)
    by (cases "x < 0") (simp_all add: toFixed_def label_value_def)
qed

text \<open>
  The label of an automatic tick says exactly the value of the tick: the number of decimals chosen with
  the step is enough for all of its multiples, so no label is rounded and no two ticks share one.
\<close>

lemma tick_labels_exact:
  assumes "0 < delta" "opt_tickDecimals opts = None" "opt_tickSize opts = None" "opt_minTickSize opts = None"
    and "decimal_size delta opts = (Size s, d)" "d \<le> 20" "\<bar>of_int k * s\<bar> < 10 ^ 21"
  shows "\<exists>t. toFixed (of_int k * s) d = Some [T t] \<and> label_value t = Some (of_int k * s)"
proof -
  obtain p where r: "round_size delta None = (s, p)" and d: "d = max 0 p"
    using assms(2-5) by (auto simp: decimal_size_def Let_def split: prod.splits)
  obtain c :: nat where c: "s = real c * 10 powr of_int (- p)" using round_size_cases [OF assms(1) r] by blast
  have "10 powr of_int (- p) * 10 ^ nat d = 10 powr real_of_int (d - p)"
    by (simp add: d powr_realpow [symmetric] powr_add [symmetric] max_def)
  also have "\<dots> = 10 ^ nat (d - p)" by (simp add: d powr_realpow [symmetric])
  finally have "s * 10 ^ nat d = real c * 10 ^ nat (d - p)" by (simp add: c algebra_simps)
  then have "of_int k * s * 10 ^ nat d = of_int (k * int c * 10 ^ nat (d - p))" by (simp add: algebra_simps)
  then have "of_int k * s * 10 ^ nat d \<in> \<int>" by (metis Ints_of_int)
  then show ?thesis using toFixed_exact assms(6,7) d by simp
qed

text \<open>How many decimals a step needs.\<close>

lemma decimal_size_decimals:
  assumes "1 / 10 ^ 19 \<le> delta" "opt_tickDecimals opts = None" "decimal_size delta opts = (sz, d)"
  shows "0 \<le> d" "d \<le> 20"
proof -
  have delta: "0 < delta" using assms(1) by (rule less_le_trans [rotated]) simp
  have "10 powr (- 19) < 10 powr (real_of_int (log10_floor delta) + 1)"
    using log10_floor_bounds(2) [OF delta] assms(1) by (simp add: powr_minus_divide powr_numeral)
  then have "- 19 \<le> log10_floor delta" by (simp add: powr_less_cancel_iff)
  moreover obtain s p where "round_size delta None = (s, p)" by fastforce
  moreover from this have "p \<le> 1 - log10_floor delta" by (auto simp: round_size_def Let_def split: if_splits)
  ultimately show "0 \<le> d" "d \<le> 20" using assms(2,3) by (auto simp: decimal_size_def Let_def)
qed

end
