(* ===== verification/Dates.thy ===== *)
theory Dates
  imports JS_Prelude "HOL-Library.Sublist"
begin

text \<open>
  Dates in universal time: the part of the language's \<open>Date\<close> objects that the time axes use (a date is
  its number of milliseconds; the limit of 100 million days is not modelled), and \<open>$.plot.formatDate\<close> of
  \<open>static/flot/jquery.flot.js\<close>.
\<close>

section \<open>The calendar\<close>

definition msPerDay :: int where
  "msPerDay = 86400000"

text \<open>The day a year begins with, counted from 1970; days and years may be negative.\<close>

definition day_from_year :: "int \<Rightarrow> int" where
  "day_from_year y = 365 * (y - 1970) + (y - 1969) div 4 - (y - 1901) div 100 + (y - 1601) div 400"

definition leap :: "int \<Rightarrow> bool" where
  "leap y \<longleftrightarrow> day_from_year (y + 1) - day_from_year y = 366"

definition year_of :: "int \<Rightarrow> int" where
  "year_of d =
     (let y = 1970 + (400 * d) div 146097
      in if d < day_from_year y then y - 1 else if day_from_year (y + 1) \<le> d then y + 1 else y)"

definition month_start :: "bool \<Rightarrow> int \<Rightarrow> int" where
  "month_start l m =
     [0, 31, 59, 90, 120, 151, 181, 212, 243, 273, 304, 334] ! nat m + (if l \<and> m \<ge> 2 then 1 else 0)"

text \<open>The last month that begins on the day of the year or before.\<close>

fun last_month :: "bool \<Rightarrow> int \<Rightarrow> nat \<Rightarrow> int" where
  "last_month l yd 0 = 0"
| "last_month l yd (Suc m) = (if month_start l (int (Suc m)) \<le> yd then int (Suc m) else last_month l yd m)"

definition month_of :: "int \<Rightarrow> int" where
  "month_of d = last_month (leap (year_of d)) (d - day_from_year (year_of d)) 11"

definition date_of :: "int \<Rightarrow> int" where
  "date_of d = d - day_from_year (year_of d) - month_start (leap (year_of d)) (month_of d) + 1"

text \<open>The day of a year, a month from 0 (any integer: it runs over into other years) and a date.\<close>

definition make_day :: "int \<Rightarrow> int \<Rightarrow> int \<Rightarrow> int" where
  "make_day y m dt = day_from_year (y + m div 12) + month_start (leap (y + m div 12)) (m mod 12) + dt - 1"

section \<open>Getters and setters\<close>

definition getUTCFullYear :: "int \<Rightarrow> int" where
  "getUTCFullYear t = year_of (t div msPerDay)"

definition getUTCMonth :: "int \<Rightarrow> int" where
  "getUTCMonth t = month_of (t div msPerDay)"

definition getUTCDate :: "int \<Rightarrow> int" where
  "getUTCDate t = date_of (t div msPerDay)"

definition getUTCHours :: "int \<Rightarrow> int" where
  "getUTCHours t = t mod msPerDay div 3600000"

definition getUTCMinutes :: "int \<Rightarrow> int" where
  "getUTCMinutes t = t mod 3600000 div 60000"

definition getUTCSeconds :: "int \<Rightarrow> int" where
  "getUTCSeconds t = t mod 60000 div 1000"

text \<open>A number given to a setter is truncated to an integer.\<close>

definition to_int :: "real \<Rightarrow> int" where
  "to_int x = (if x < 0 then \<lceil>x\<rceil> else \<lfloor>x\<rfloor>)"

definition setUTCMilliseconds :: "real \<Rightarrow> int \<Rightarrow> int" where
  "setUTCMilliseconds x t = t - t mod 1000 + to_int x"

definition setUTCSeconds :: "real \<Rightarrow> int \<Rightarrow> int" where
  "setUTCSeconds x t = t + (to_int x - getUTCSeconds t) * 1000"

definition setUTCMinutes :: "real \<Rightarrow> int \<Rightarrow> int" where
  "setUTCMinutes x t = t + (to_int x - getUTCMinutes t) * 60000"

definition setUTCHours :: "real \<Rightarrow> int \<Rightarrow> int" where
  "setUTCHours x t = t + (to_int x - getUTCHours t) * 3600000"

definition setUTCDate :: "real \<Rightarrow> int \<Rightarrow> int" where
  "setUTCDate x t = make_day (getUTCFullYear t) (getUTCMonth t) (to_int x) * msPerDay + t mod msPerDay"

definition setUTCMonth :: "real \<Rightarrow> int \<Rightarrow> int" where
  "setUTCMonth x t = make_day (getUTCFullYear t) (to_int x) (getUTCDate t) * msPerDay + t mod msPerDay"

definition setUTCFullYear :: "real \<Rightarrow> int \<Rightarrow> int" where
  "setUTCFullYear x t = make_day (to_int x) (getUTCMonth t) (getUTCDate t) * msPerDay + t mod msPerDay"

section \<open>Formatting\<close>

definition leftPad :: "string \<Rightarrow> string" where
  "leftPad n = (if length n = 1 then CHR ''0'' # n else n)"

definition default_months :: "string list" where
  "default_months = [''Jan'', ''Feb'', ''Mar'', ''Apr'', ''May'', ''Jun'', ''Jul'', ''Aug'', ''Sep'', ''Oct'', ''Nov'', ''Dec'']"

text \<open>The hour that is shown: from 1 to 12 when the format mentions the half of the day.\<close>

definition shown_hours :: "string \<Rightarrow> int \<Rightarrow> int" where
  "shown_hours fmt hours =
     (if sublist ''%p'' fmt \<or> sublist ''%P'' fmt then
        (if hours > 12 then hours - 12 else if hours = 0 then 12 else hours)
      else hours)"

text \<open>What an escaped character stands for; any other character stands for itself.\<close>

definition expand :: "int \<Rightarrow> string list \<Rightarrow> int \<Rightarrow> char \<Rightarrow> string" where
  "expand d monthNames hours c =
     (if c = CHR ''h'' then int_str hours
      else if c = CHR ''H'' then leftPad (int_str hours)
      else if c = CHR ''M'' then leftPad (int_str (getUTCMinutes d))
      else if c = CHR ''S'' then leftPad (int_str (getUTCSeconds d))
      else if c = CHR ''d'' then int_str (getUTCDate d)
      else if c = CHR ''m'' then int_str (getUTCMonth d + 1)
      else if c = CHR ''y'' then int_str (getUTCFullYear d)
      else if c = CHR ''b'' then (if nat (getUTCMonth d) < length monthNames then monthNames ! nat (getUTCMonth d) else ''undefined'')
      else if c = CHR ''p'' then (if getUTCHours d < 12 then ''am'' else ''pm'')
      else if c = CHR ''P'' then (if getUTCHours d < 12 then ''AM'' else ''PM'')
      else if c = CHR ''0'' then []
      else [c])"

text \<open>The loop over the format with its two flags.\<close>

fun format_loop :: "int \<Rightarrow> string list \<Rightarrow> int \<Rightarrow> bool \<Rightarrow> bool \<Rightarrow> string \<Rightarrow> string" where
  "format_loop d monthNames hours escaped padNext [] = []"
| "format_loop d monthNames hours escaped padNext (c # fmt) =
     (if escaped then
        (let s = expand d monthNames hours c;
             pad1 = (padNext \<or> c = CHR ''0'');
             padding = (s \<noteq> [] \<and> pad1);
             pad2 = (if padding then False else pad1)
         in (if padding then leftPad s else s) @ format_loop d monthNames hours pad2 pad2 fmt)
      else if c = CHR ''%'' then format_loop d monthNames hours True padNext fmt
      else c # format_loop d monthNames hours escaped padNext fmt)"

definition formatDate :: "int \<Rightarrow> string \<Rightarrow> string list option \<Rightarrow> string" where
  "formatDate d fmt monthNames =
     format_loop d (case monthNames of None \<Rightarrow> default_months | Some ms \<Rightarrow> ms) (shown_hours fmt (getUTCHours d)) False False fmt"

section \<open>The calendar is consistent\<close>

lemma day_from_year_bounds:
  "146097 * k \<le> 400 * day_from_year (1970 + k) + 506" "400 * day_from_year (1970 + k) \<le> 146097 * k + 589"
proof -
  define a b c where abc: "a = (k + 1) div 4" "b = (k + 69) div 100" "c = (k + 369) div 400"
  have d: "day_from_year (1970 + k) = 365 * k + a - b + c" by (simp add: day_from_year_def abc add.commute)
  have "4 * a \<le> k + 1" "k + 1 \<le> 4 * a + 3" "100 * b \<le> k + 69" "k + 69 \<le> 100 * b + 99"
    "400 * c \<le> k + 369" "k + 369 \<le> 400 * c + 399" unfolding abc by linarith+
  then show "146097 * k \<le> 400 * day_from_year (1970 + k) + 506" "400 * day_from_year (1970 + k) \<le> 146097 * k + 589"
    unfolding d distrib_left right_diff_distrib by linarith+
qed

lemma year_of_bounds: "day_from_year (year_of d) \<le> d" "d < day_from_year (year_of d + 1)"
proof -
  define k where "k = (400 * d) div 146097"
  have k: "146097 * k \<le> 400 * d" "400 * d < 146097 * k + 146097" unfolding k_def by linarith+
  have "day_from_year (1970 + (k - 1)) \<le> d"
    using day_from_year_bounds(2) [of "k - 1"] k unfolding right_diff_distrib by linarith
  moreover have "d < day_from_year (1970 + (k + 2))"
    using day_from_year_bounds(1) [of "k + 2"] k unfolding distrib_left by linarith
  moreover have "1970 + (k - 1) = 1970 + k - 1" "1970 + (k + 2) = 1970 + k + 1 + 1" by simp_all
  ultimately have b: "day_from_year (1970 + k - 1) \<le> d" "d < day_from_year (1970 + k + 1 + 1)" by metis+
  then show "day_from_year (year_of d) \<le> d" "d < day_from_year (year_of d + 1)"
    unfolding year_of_def Let_def k_def [symmetric] by (auto simp: diff_add_cancel)
qed

lemma last_month_bounds: "0 \<le> last_month l yd n \<and> last_month l yd n \<le> int n"
  by (induction n) auto

lemma last_month_start: "0 \<le> yd \<Longrightarrow> month_start l (last_month l yd n) \<le> yd"
proof (induction n)
  case 0
  then show ?case by (simp add: month_start_def)
qed simp

lemma month_of_bounds: "0 \<le> month_of d" "month_of d < 12"
  using last_month_bounds [of "leap (year_of d)" "d - day_from_year (year_of d)" 11] by (simp_all add: month_of_def)

lemma date_of_pos: "1 \<le> date_of d"
  using last_month_start [of "d - day_from_year (year_of d)"] year_of_bounds(1) [of d]
  by (simp add: date_of_def month_of_def)

text \<open>A day is made of its year, its month and its date.\<close>

lemma make_day_fields: "make_day (year_of d) (month_of d) (date_of d) = d"
  using month_of_bounds [of d] by (simp add: make_day_def date_of_def)

text \<open>Years have 365 or 366 days.\<close>

lemma div_mod_step:
  fixes n k :: int
  assumes "0 < k"
  shows "n mod k = k - 1 \<Longrightarrow> (n + 1) div k = n div k + 1 \<and> (n + 1) mod k = 0"
    and "n mod k \<noteq> k - 1 \<Longrightarrow> (n + 1) div k = n div k \<and> (n + 1) mod k = n mod k + 1"
proof -
  have n: "n = k * (n div k) + n mod k" "0 \<le> n mod k" "n mod k < k" using assms by simp_all
  show "(n + 1) div k = n div k + 1 \<and> (n + 1) mod k = 0" if "n mod k = k - 1"
  proof -
    have "n + 1 = k * (n div k + 1)" using that n(1) unfolding distrib_left by linarith
    then show ?thesis using assms by simp
  qed
  show "(n + 1) div k = n div k \<and> (n + 1) mod k = n mod k + 1" if "n mod k \<noteq> k - 1"
  proof -
    have m: "n + 1 = k * (n div k) + (n mod k + 1)" "0 \<le> n mod k + 1" "n mod k + 1 < k" using n that by linarith+
    then show ?thesis using int_div_pos_eq [OF m(1,2,3)] int_mod_pos_eq [OF m(1,2,3)] by blast
  qed
qed

lemma div_step:
  fixes n k :: int
  assumes "0 < k"
  shows "(n + 1) div k = n div k + (if (n + 1) mod k = 0 then 1 else 0)"
proof (cases "n mod k = k - 1")
  case True
  then show ?thesis using div_mod_step(1) [OF assms True] by simp
next
  case False
  have "0 \<le> n mod k" using assms by simp
  then show ?thesis using div_mod_step(2) [OF assms False] by simp
qed

lemma year_length: "day_from_year (y + 1) = day_from_year y + (if leap y then 366 else 365)"
proof -
  have step: "365 * (y + 1 - 1970) + A' - B' + C' - (365 * (y - 1970) + A - B + C) = 365 + i - j + k"
    if "A' = A + i" "B' = B + j" "C' = C + k" for A A' B B' C C' i j k :: int
    using that by (simp add: algebra_simps)
  have e: "y + 1 - 1969 = y - 1969 + 1" "y + 1 - 1901 = y - 1901 + 1" "y + 1 - 1601 = y - 1601 + 1"
    "y - 1968 = y - 1969 + 1" "y - 1900 = y - 1901 + 1" "y - 1600 = y - 1601 + 1" by simp_all
  have "(y + 1 - 1969) div 4 = (y - 1969) div 4 + (if (y - 1968) mod 4 = 0 then 1 else 0)"
    "(y + 1 - 1901) div 100 = (y - 1901) div 100 + (if (y - 1900) mod 100 = 0 then 1 else 0)"
    "(y + 1 - 1601) div 400 = (y - 1601) div 400 + (if (y - 1600) mod 400 = 0 then 1 else 0)"
    unfolding e by (rule div_step, simp)+
  then have d: "day_from_year (y + 1) - day_from_year y = 365 + (if (y - 1968) mod 4 = 0 then 1 else 0)
      - (if (y - 1900) mod 100 = 0 then 1 else 0) + (if (y - 1600) mod 400 = 0 then 1 else 0)"
    unfolding day_from_year_def by (rule step)
  have "(y - 1968) mod 4 = 0" if c: "(y - 1900) mod 100 = 0"
  proof -
    obtain k where "y - 1900 = 100 * k" using c by (auto simp: mod_eq_0_iff_dvd)
    then have "y - 1968 = 4 * (25 * k - 17)" by simp
    then show ?thesis by simp
  qed
  moreover have "(y - 1900) mod 100 = 0" if c: "(y - 1600) mod 400 = 0"
  proof -
    obtain k where "y - 1600 = 400 * k" using c by (auto simp: mod_eq_0_iff_dvd)
    then have "y - 1900 = 100 * (4 * k - 3)" by simp
    then show ?thesis by simp
  qed
  ultimately have "day_from_year (y + 1) - day_from_year y \<in> {365, 366}" unfolding d by auto
  then show ?thesis unfolding leap_def by auto
qed

text \<open>The first day of a month counted from year 0, and that months have at least 28 days.\<close>

definition month_day :: "int \<Rightarrow> int" where
  "month_day n = day_from_year (n div 12) + month_start (leap (n div 12)) (n mod 12)"

lemma make_day_month: "make_day y m dt = month_day (12 * y + m) + dt - 1"
proof -
  have "(12 * y + m) div 12 = y + m div 12" "(12 * y + m) mod 12 = m mod 12" by simp_all
  then show ?thesis by (simp add: make_day_def month_day_def)
qed

lemma month_day_step: "month_day n + 28 \<le> month_day (n + 1)"
proof (cases "n mod 12 = 11")
  case True
  then have "(n + 1) div 12 = n div 12 + 1" "(n + 1) mod 12 = 0" using div_mod_step(1) [of 12 n] by simp_all
  then show ?thesis using True year_length [of "n div 12"] by (simp add: month_day_def month_start_def)
next
  case False
  then have s: "(n + 1) div 12 = n div 12" "(n + 1) mod 12 = n mod 12 + 1" using div_mod_step(2) [of 12 n] by simp_all
  have "month_start l r + 28 \<le> month_start l (r + 1)" if "0 \<le> r" "r < 11" for l and r :: int
  proof -
    have "r = 0 \<or> r = 1 \<or> r = 2 \<or> r = 3 \<or> r = 4 \<or> r = 5 \<or> r = 6 \<or> r = 7 \<or> r = 8 \<or> r = 9 \<or> r = 10"
      using that by presburger
    then show ?thesis by (elim disjE) (simp_all add: month_start_def)
  qed
  moreover have "0 \<le> n mod 12" "n mod 12 < 11" using False pos_mod_bound [of 12 n] by simp_all
  ultimately show ?thesis unfolding month_day_def s by simp
qed

lemma month_day_mono: "m \<le> n \<Longrightarrow> month_day m + 28 * (n - m) \<le> month_day n"
proof (induction "nat (n - m)" arbitrary: n)
  case (Suc k)
  then have "month_day m + 28 * (n - 1 - m) \<le> month_day (n - 1)" by (intro Suc.hyps(1)) linarith+
  then show ?case using month_day_step [of "n - 1"] by (simp add: algebra_simps)
qed simp

text \<open>A time is made of its day and the time of day, and both of their fields.\<close>

lemma time_fields: "make_day (getUTCFullYear t) (getUTCMonth t) (getUTCDate t) * msPerDay + t mod msPerDay = t"
  by (simp add: getUTCFullYear_def getUTCMonth_def getUTCDate_def make_day_fields)

lemma clock_fields:
  "0 \<le> getUTCHours t" "getUTCHours t < 24" "0 \<le> getUTCMinutes t" "getUTCMinutes t < 60" "0 \<le> getUTCSeconds t" "getUTCSeconds t < 60"
proof -
  have b: "0 \<le> t mod msPerDay" "t mod msPerDay < 24 * 3600000" "0 \<le> t mod 3600000" "t mod 3600000 < 60 * 60000"
    "0 \<le> t mod 60000" "t mod 60000 < 60 * 1000" by (simp_all add: msPerDay_def)
  show "0 \<le> getUTCHours t" "0 \<le> getUTCMinutes t" "0 \<le> getUTCSeconds t"
    using b by (simp_all add: getUTCHours_def getUTCMinutes_def getUTCSeconds_def pos_imp_zdiv_nonneg_iff)
  show "getUTCHours t < 24" "getUTCMinutes t < 60" "getUTCSeconds t < 60"
    unfolding getUTCHours_def getUTCMinutes_def getUTCSeconds_def using b(2,4,6) by linarith+
qed

section \<open>Formats\<close>

lemma format_plain: "CHR ''%'' \<notin> set fmt \<Longrightarrow> format_loop d ms h False False fmt = fmt"
  by (induction fmt) auto

lemma format_plain_append:
  "CHR ''%'' \<notin> set a \<Longrightarrow> format_loop d ms h False False (a @ fmt) = a @ format_loop d ms h False False fmt"
  by (induction a) auto

text \<open>
  A twelve-hour clock. With a format that shows the half of the day, the hour shown is between 1 and
  12, and together with the half it determines the hour; without one the hour itself is shown. Text
  without escapes is copied.
\<close>

lemma twelve_hours_determine:
  assumes "CHR ''%'' \<notin> set a" "CHR ''%'' \<notin> set b"
  shows "(\<exists>h pm. formatDate t (a @ ''%h %p'' @ b) ms = a @ nat_str h @ '' '' @ (if pm then ''pm'' else ''am'') @ b
      \<and> 1 \<le> h \<and> h \<le> 12 \<and> int (h mod 12) + (if pm then 12 else 0) = getUTCHours t)
    \<and> formatDate t a ms = a"
proof
  let ?H = "getUTCHours t"
  define h where "h = (if ?H > 12 then ?H - 12 else if ?H = 0 then 12 else ?H)"
  have "sublist ''%p'' (a @ ''%h %p'' @ b)"
    by (metis append.assoc append_Cons append_Nil sublist_appendI)
  then have s: "shown_hours (a @ ''%h %p'' @ b) ?H = h" by (simp add: shown_hours_def h_def)
  have H: "0 \<le> ?H" "?H < 24" using clock_fields by simp_all
  then have h: "1 \<le> h" "h \<le> 12" "int (nat h mod 12) + (if ?H < 12 then 0 else 12) = ?H"
    by (auto simp: h_def nat_mod_distrib)
  have "formatDate t (a @ ''%h %p'' @ b) ms = a @ nat_str (nat h) @ '' '' @ (if ?H < 12 then ''am'' else ''pm'') @ b"
    using h(1) unfolding formatDate_def s
    by (simp add: format_plain_append [OF assms(1)] format_plain [OF assms(2)] expand_def int_str_def)
  then show "\<exists>h pm. formatDate t (a @ ''%h %p'' @ b) ms = a @ nat_str h @ '' '' @ (if pm then ''pm'' else ''am'') @ b
      \<and> 1 \<le> h \<and> h \<le> 12 \<and> int (h mod 12) + (if pm then 12 else 0) = ?H"
    using h by (intro exI [of _ "nat h"] exI [of _ "\<not> ?H < 12"]) (auto split: if_splits)
  show "formatDate t a ms = a" by (simp add: formatDate_def format_plain [OF assms(1)])
qed

end
