(* ===== verification/Time_Ticks.thy ===== *)
theory Time_Ticks
  imports Ticks Dates
begin

text \<open>
  Ticks of a time axis, \<open>static/flot/jquery.flot.js\<close>: the choice of a number of seconds, minutes,
  hours, days, months or years, the loop that walks the calendar, and the format of the labels
  (\<open>setupTickGeneration\<close>, time part). Values are milliseconds since 1970.
\<close>

section \<open>The tick size\<close>

definition timeUnitSize :: "tick_unit \<Rightarrow> real" where
  "timeUnitSize u =
     (case u of
        Second \<Rightarrow> 1000
      | Minute \<Rightarrow> 60 * 1000
      | Hour \<Rightarrow> 60 * 60 * 1000
      | Day \<Rightarrow> 24 * 60 * 60 * 1000
      | Month \<Rightarrow> 30 * 24 * 60 * 60 * 1000
      | Year \<Rightarrow> 365.2425 * 24 * 60 * 60 * 1000)"

definition spec :: "(real \<times> tick_unit) list" where
  "spec =
     [(1, Second), (2, Second), (5, Second), (10, Second), (30, Second),
      (1, Minute), (2, Minute), (5, Minute), (10, Minute), (30, Minute),
      (1, Hour), (2, Hour), (4, Hour), (8, Hour), (12, Hour),
      (1, Day), (2, Day), (3, Day),
      (1 / 4, Month), (1 / 2, Month), (1, Month), (2, Month), (3, Month), (6, Month),
      (1, Year)]"

definition spec_ms :: "real \<times> tick_unit \<Rightarrow> real" where
  "spec_ms p = fst p * timeUnitSize (snd p)"

text \<open>
  The smallest size allowed. The code looks at \<open>tickSize\<close> where it means \<open>minTickSize\<close>; a plain number
  in \<open>minTickSize\<close> then gives NaN, for which the comparison below fails (\<open>None\<close>).
\<close>

definition min_size :: "axis_options \<Rightarrow> real option" where
  "min_size opts =
     (case opt_minTickSize opts of
        None \<Rightarrow> Some 0
      | Some m \<Rightarrow>
          (case opt_tickSize opts of
             Some (Size s) \<Rightarrow> Some s
           | _ \<Rightarrow> (case m of UnitSize n u \<Rightarrow> Some (n * timeUnitSize u) | Size _ \<Rightarrow> None)))"

text \<open>The first size of the table that is near enough; the last one if there is none.\<close>

fun pick_spec :: "real \<Rightarrow> real option \<Rightarrow> (real \<times> tick_unit) list \<Rightarrow> real \<times> tick_unit" where
  "pick_spec delta minSize (p # q # ps) =
     (if delta < (spec_ms p + spec_ms q) / 2 \<and> (case minSize of Some m \<Rightarrow> m \<le> spec_ms p | None \<Rightarrow> False)
      then p else pick_spec delta minSize (q # ps))"
| "pick_spec delta minSize [p] = p"
| "pick_spec delta minSize [] = (0, Second)"

text \<open>From a year on, a round number of years.\<close>

definition year_size :: "real \<Rightarrow> real" where
  "year_size delta =
     (let magn = 10 powr of_int (log10_floor (delta / timeUnitSize Year)); norm = delta / timeUnitSize Year / magn
      in (if norm < 1.5 then 1 else if norm < 3 then 2 else if norm < 7.5 then 5 else 10) * magn)"

text \<open>A size in the options has precedence unless it is 0.\<close>

definition time_size :: "real \<Rightarrow> axis_options \<Rightarrow> tick_size" where
  "time_size delta opts =
     (let (n, u) = pick_spec delta (min_size opts) spec; n' = (if u = Year then year_size delta else n)
      in case opt_tickSize opts of
           Some (Size s) \<Rightarrow> if s \<noteq> 0 then Size s else UnitSize n' u
         | Some (UnitSize m v) \<Rightarrow> UnitSize m v
         | None \<Rightarrow> UnitSize n' u)"

section \<open>Walking the calendar\<close>

text \<open>The first tick: the lower bound, rounded down field by field.\<close>

definition floor_unit :: "real \<Rightarrow> tick_unit \<Rightarrow> int \<Rightarrow> int" where
  "floor_unit n u d =
     (case u of
        Second \<Rightarrow> setUTCSeconds (floorInBase (of_int (getUTCSeconds d)) n) d
      | Minute \<Rightarrow> setUTCMinutes (floorInBase (of_int (getUTCMinutes d)) n) d
      | Hour \<Rightarrow> setUTCHours (floorInBase (of_int (getUTCHours d)) n) d
      | Day \<Rightarrow> d
      | Month \<Rightarrow> setUTCMonth (floorInBase (of_int (getUTCMonth d)) n) d
      | Year \<Rightarrow> setUTCFullYear (floorInBase (of_int (getUTCFullYear d)) n) d)"

definition reset_smaller :: "real \<Rightarrow> int \<Rightarrow> int" where
  "reset_smaller step d =
     (let d1 = setUTCMilliseconds 0 d;
          d2 = (if step \<ge> timeUnitSize Minute then setUTCSeconds 0 d1 else d1);
          d3 = (if step \<ge> timeUnitSize Hour then setUTCMinutes 0 d2 else d2);
          d4 = (if step \<ge> timeUnitSize Day then setUTCHours 0 d3 else d3);
          d5 = (if step \<ge> timeUnitSize Day * 4 then setUTCDate 1 d4 else d4)
      in if step \<ge> timeUnitSize Year then setUTCMonth 0 d5 else d5)"

definition time_start :: "real \<Rightarrow> tick_unit \<Rightarrow> real \<Rightarrow> int" where
  "time_start n u mn = reset_smaller (n * timeUnitSize u) (floor_unit n u (to_int mn))"

text \<open>The next date and the hours carried over when a month is divided.\<close>

definition time_next :: "real \<Rightarrow> tick_unit \<Rightarrow> int \<Rightarrow> int \<Rightarrow> int \<times> int" where
  "time_next n u v carry =
     (case u of
        Month \<Rightarrow>
          if n < 1 then
            (let start = setUTCDate 1 v;
                 end' = setUTCMonth (of_int (getUTCMonth start + 1)) start;
                 d = to_int (of_int v + of_int carry * timeUnitSize Hour + of_int (end' - start) * n)
             in (setUTCHours 0 d, getUTCHours d))
          else (setUTCMonth (of_int (getUTCMonth v) + n) v, carry)
      | Year \<Rightarrow> (setUTCFullYear (of_int (getUTCFullYear v) + n) v, carry)
      | _ \<Rightarrow> (to_int (of_int v + n * timeUnitSize u), carry))"

partial_function (option) time_loop :: "real \<Rightarrow> tick_unit \<Rightarrow> real \<Rightarrow> int \<Rightarrow> int option \<Rightarrow> int \<Rightarrow> int list option" where
  "time_loop n u mx v prev carry =
     (if of_int v < mx \<and> prev \<noteq> Some v
      then Option.bind (time_loop n u mx (fst (time_next n u v carry)) (Some v) (snd (time_next n u v carry))) (\<lambda>ts. Some (v # ts))
      else Some [v])"

text \<open>
  The generator. A size that is a plain number has no unit: the one tick is the lower bound without its milliseconds, the
  next would be NaN.
\<close>

definition time_ticks :: "axis \<Rightarrow> real list option" where
  "time_ticks a =
     (case ax_tickSize a of
        UnitSize n u \<Rightarrow> map_option (map of_int) (time_loop n u (ax_max a) (time_start n u (ax_min a)) None 0)
      | Size _ \<Rightarrow> Some [of_int (setUTCMilliseconds 0 (to_int (ax_min a)))])"

section \<open>Labels\<close>

definition time_format :: "axis \<Rightarrow> string" where
  "time_format a =
     (let t = (case ax_tickSize a of UnitSize n u \<Rightarrow> Some (n * timeUnitSize u) | Size _ \<Rightarrow> None);
          below = (\<lambda>u. case t of Some x \<Rightarrow> x < timeUnitSize u | None \<Rightarrow> False);
          span = ax_max a - ax_min a;
          suffix = (if opt_twelveHourClock (ax_options a) then '' %p'' else [])
      in if below Minute then ''%h:%M:%S'' @ suffix
         else if below Day then (if span < 2 * timeUnitSize Day then ''%h:%M'' @ suffix else ''%b %d %h:%M'' @ suffix)
         else if below Month then ''%b %d''
         else if below Year then (if span < timeUnitSize Year then ''%b'' else ''%b %y'')
         else ''%y'')"

definition time_label :: "axis \<Rightarrow> real \<Rightarrow> string" where
  "time_label a v =
     formatDate (to_int v)
       (case opt_timeformat (ax_options a) of Some f \<Rightarrow> f | None \<Rightarrow> time_format a) (opt_monthNames (ax_options a))"

section \<open>The first tick is not after the lower bound\<close>

lemma to_int_le: "r \<le> of_int s \<Longrightarrow> to_int r \<le> s"
  by (auto simp: to_int_def) linarith+

lemma to_int_ge: "of_int s \<le> r \<Longrightarrow> s \<le> to_int r"
  by (auto simp: to_int_def) linarith+

lemma to_int_of_int [simp]: "to_int (of_int s) = s" "to_int 0 = 0" "to_int 1 = 1" "to_int (numeral k) = numeral k"
  by (simp_all add: to_int_def)

lemma floorInBase_to_int: "0 < n \<Longrightarrow> to_int (floorInBase (of_int s) n) \<le> s"
  by (rule to_int_le) (rule floorInBase_bounds)

lemma months_after:
  "12 * y + m \<le> 12 * y' + m' \<Longrightarrow>
    make_day y m dt * msPerDay + r + 28 * ((12 * y' + m') - (12 * y + m)) * msPerDay \<le> make_day y' m' dt * msPerDay + r"
  using month_day_mono [of "12 * y + m" "12 * y' + m'"]
  by (simp add: make_day_month msPerDay_def algebra_simps)

lemma setUTCMonth_le: "to_int x \<le> getUTCMonth t \<Longrightarrow> setUTCMonth x t \<le> t"
  using months_after [of "getUTCFullYear t" "to_int x" "getUTCFullYear t" "getUTCMonth t" "getUTCDate t" "t mod msPerDay"]
    time_fields [of t] by (simp add: setUTCMonth_def msPerDay_def)

lemma setUTCFullYear_le: "to_int x \<le> getUTCFullYear t \<Longrightarrow> setUTCFullYear x t \<le> t"
  using months_after [of "to_int x" "getUTCMonth t" "getUTCFullYear t" "getUTCMonth t" "getUTCDate t" "t mod msPerDay"]
    time_fields [of t] by (simp add: setUTCFullYear_def msPerDay_def)

lemma setUTCDate_le: "setUTCDate 1 t \<le> t"
proof -
  have "make_day (getUTCFullYear t) (getUTCMonth t) 1 \<le> make_day (getUTCFullYear t) (getUTCMonth t) (getUTCDate t)"
    using date_of_pos [of "t div msPerDay"] by (simp add: make_day_def getUTCDate_def)
  then have "make_day (getUTCFullYear t) (getUTCMonth t) 1 * msPerDay \<le> make_day (getUTCFullYear t) (getUTCMonth t) (getUTCDate t) * msPerDay"
    by (rule mult_right_mono) (simp add: msPerDay_def)
  then show ?thesis using time_fields [of t] by (simp add: setUTCDate_def)
qed

lemma clock_le:
  "to_int x \<le> getUTCSeconds t \<Longrightarrow> setUTCSeconds x t \<le> t" "to_int x \<le> getUTCMinutes t \<Longrightarrow> setUTCMinutes x t \<le> t"
  "to_int x \<le> getUTCHours t \<Longrightarrow> setUTCHours x t \<le> t" "setUTCMilliseconds 0 t \<le> t"
  by (simp_all add: setUTCSeconds_def setUTCMinutes_def setUTCHours_def setUTCMilliseconds_def)

lemma floor_unit_le: "0 < n \<Longrightarrow> floor_unit n u d \<le> d"
  by (auto simp: floor_unit_def floorInBase_to_int intro!: clock_le setUTCMonth_le setUTCFullYear_le split: tick_unit.split)

lemma reset_smaller_le: "reset_smaller step d \<le> d"
proof -
  have z: "setUTCSeconds 0 t \<le> t" "setUTCMinutes 0 t \<le> t" "setUTCHours 0 t \<le> t" "setUTCMonth 0 t \<le> t" for t
    using clock_fields [of t] month_of_bounds(1) by (auto intro!: clock_le setUTCMonth_le simp: getUTCMonth_def)
  have i: "(if b then f t else t) \<le> t" if "\<And>t. f t \<le> t" for b and f :: "int \<Rightarrow> int" and t using that by simp
  show ?thesis unfolding reset_smaller_def Let_def
    by (rule order_trans [OF i [OF z(4)]], rule order_trans [OF i [OF setUTCDate_le]], rule order_trans [OF i [OF z(3)]],
        rule order_trans [OF i [OF z(2)]], rule order_trans [OF i [OF z(1)]], rule clock_le(4))
qed

lemma time_start_le: "0 < n \<Longrightarrow> time_start n u mn \<le> to_int mn"
  unfolding time_start_def using reset_smaller_le floor_unit_le order_trans by blast

section \<open>Every round moves on\<close>

text \<open>Sizes with which the walk moves on: a millisecond at least, quarters and halves of months, whole months and years.\<close>

definition moving :: "real \<Rightarrow> tick_unit \<Rightarrow> bool" where
  "moving n u \<longleftrightarrow>
     (case u of
        Month \<Rightarrow> n = 1 / 4 \<or> n = 1 / 2 \<or> 1 \<le> n
      | Year \<Rightarrow> 1 \<le> n
      | _ \<Rightarrow> 1 \<le> n * timeUnitSize u)"

lemma setUTCMonth_after:
  assumes "getUTCMonth t + 1 \<le> to_int x"
  shows "t + 28 * msPerDay \<le> setUTCMonth x t"
proof -
  have "28 * msPerDay \<le> 28 * (to_int x - getUTCMonth t) * msPerDay" using assms by (simp add: msPerDay_def)
  then show ?thesis using assms
    months_after [of "getUTCFullYear t" "getUTCMonth t" "getUTCFullYear t" "to_int x" "getUTCDate t" "t mod msPerDay"]
    time_fields [of t] by (simp add: setUTCMonth_def)
qed

lemma setUTCFullYear_after:
  assumes "getUTCFullYear t + 1 \<le> to_int x"
  shows "t + msPerDay \<le> setUTCFullYear x t"
proof -
  have "msPerDay \<le> 28 * (12 * to_int x - 12 * getUTCFullYear t) * msPerDay" using assms by (simp add: msPerDay_def)
  then show ?thesis using assms
    months_after [of "getUTCFullYear t" "getUTCMonth t" "to_int x" "getUTCMonth t" "getUTCDate t" "t mod msPerDay"]
    time_fields [of t] by (simp add: setUTCFullYear_def)
qed

lemma month_part:
  assumes "n = 1 / 4 \<or> n = 1 / 2" "0 \<le> carry"
  shows "v + 1 \<le> fst (time_next n Month v carry) \<and> 0 \<le> snd (time_next n Month v carry)"
proof -
  define start where "start = setUTCDate 1 v"
  define len where "len = setUTCMonth (of_int (getUTCMonth start + 1)) start - start"
  define d where "d = to_int (of_int v + of_int carry * timeUnitSize Hour + of_int len * n)"
  have "28 * msPerDay \<le> len" 
    using setUTCMonth_after [of start "of_int (getUTCMonth start + 1)", unfolded to_int_of_int, OF order_refl]
    unfolding len_def by linarith
  then have "28 * 86400000 \<le> (of_int len :: real)" by (simp add: msPerDay_def)
  then have "7 * 86400000 \<le> of_int len * n" using assms(1) by (elim disjE; simp only: ; linarith)
  moreover have "0 \<le> of_int carry * timeUnitSize Hour" using assms(2) by (simp add: timeUnitSize_def)
  ultimately have "v + 7 * 86400000 \<le> d" unfolding d_def by (intro to_int_ge) simp
  moreover have "d - 24 * 3600000 \<le> setUTCHours 0 d" using clock_fields(2) [of d] by (simp add: setUTCHours_def)
  ultimately have "v + 1 \<le> setUTCHours 0 d" by linarith
  moreover have "time_next n Month v carry = (setUTCHours 0 d, getUTCHours d)"
    using assms(1) by (auto simp: time_next_def Let_def d_def len_def start_def)
  ultimately show ?thesis using clock_fields(1) by simp
qed

lemma time_next_progress:
  assumes "moving n u" "0 \<le> carry"
  shows "v + 1 \<le> fst (time_next n u v carry) \<and> 0 \<le> snd (time_next n u v carry)"
proof -
  have plain: "v + 1 \<le> to_int (of_int v + n * timeUnitSize u)" if "1 \<le> n * timeUnitSize u"
    using that by (intro to_int_ge) simp
  have month: "v + 1 \<le> setUTCMonth (of_int (getUTCMonth v) + n) v" if "1 \<le> n"
    using setUTCMonth_after [of v "of_int (getUTCMonth v) + n"] to_int_ge [of "getUTCMonth v + 1" "of_int (getUTCMonth v) + n"] that
    by (simp add: msPerDay_def)
  have year: "v + 1 \<le> setUTCFullYear (of_int (getUTCFullYear v) + n) v" if "1 \<le> n"
    using setUTCFullYear_after [of v "of_int (getUTCFullYear v) + n"] to_int_ge [of "getUTCFullYear v + 1" "of_int (getUTCFullYear v) + n"] that
    by (simp add: msPerDay_def)
  show ?thesis
  proof (cases "u = Month \<and> n < 1")
    case True
    then show ?thesis using month_part assms by (auto simp: moving_def)
  next
    case False
    then show ?thesis using assms plain month year by (cases u) (auto simp: moving_def time_next_def)
  qed
qed

lemma time_loop_ticks:
  assumes "moving n u" "0 \<le> carry" "\<And>p. prev = Some p \<Longrightarrow> p < v"
  shows "\<exists>ts. time_loop n u mx v prev carry = Some ts \<and> ts \<noteq> [] \<and> hd ts = v \<and> sorted_wrt (<) ts
    \<and> mx \<le> of_int (last ts) \<and> (\<forall>t \<in> set (butlast ts). of_int t < mx)"
  using assms(2,3)
proof (induction "nat (\<lceil>mx\<rceil> - v)" arbitrary: v prev carry rule: less_induct)
  case less
  show ?case
  proof (cases "of_int v < mx")
    case True
    let ?v = "fst (time_next n u v carry)" and ?c = "snd (time_next n u v carry)"
    have next': "v + 1 \<le> ?v" "0 \<le> ?c" using time_next_progress [OF assms(1) less.prems(1)] by auto
    have "v < \<lceil>mx\<rceil>" using True by linarith
    then have m: "nat (\<lceil>mx\<rceil> - ?v) < nat (\<lceil>mx\<rceil> - v)" using next'(1) by linarith
    obtain ts where ts: "time_loop n u mx ?v (Some v) ?c = Some ts" "ts \<noteq> []" "hd ts = ?v" "sorted_wrt (<) ts"
      "mx \<le> of_int (last ts)" "\<forall>t \<in> set (butlast ts). of_int t < mx"
      using less.hyps [OF m next'(2), of "Some v"] next'(1) by auto
    have "prev \<noteq> Some v" using less.prems(2) by blast
    then have "time_loop n u mx v prev carry = Some (v # ts)"
      using True ts(1) by (subst time_loop.simps) simp
    moreover have "\<forall>t \<in> set ts. v < t"
      using ts(2-4) next'(1) by (cases ts) auto
    ultimately show ?thesis using ts True by auto
  next
    case False
    then show ?thesis by (subst time_loop.simps) simp
  qed
qed

section \<open>Automatic sizes\<close>

lemma pick_spec_mem: "ps \<noteq> [] \<Longrightarrow> pick_spec delta m ps \<in> set ps"
  by (induction delta m ps rule: pick_spec.induct) auto

text \<open>Up to half a year every size of the table moves on.\<close>

lemma spec_moving: "(n, u) \<in> set spec \<Longrightarrow> u \<noteq> Year \<Longrightarrow> moving n u \<and> 0 < n"
  unfolding spec_def by (auto simp: moving_def timeUnitSize_def)

text \<open>Years are only picked from three quarters of a year on, roughly.\<close>

lemma pick_spec_large:
  "pick_spec delta (Some 0) ps = (n, Year) \<Longrightarrow> Suc 0 < length ps \<Longrightarrow> \<forall>p \<in> set (butlast ps). snd p \<noteq> Year \<and> 0 \<le> spec_ms p
    \<Longrightarrow> (spec_ms (ps ! (length ps - 2)) + spec_ms (last ps)) / 2 \<le> delta"
proof (induction ps rule: induct_list012)
  case (3 p q ps)
  then show ?case by (cases ps) (auto split: if_splits)
qed simp_all

lemma pick_year: "pick_spec delta (Some 0) spec = (n, Year) \<Longrightarrow> (6 * timeUnitSize Month + timeUnitSize Year) / 2 \<le> delta"
proof -
  assume p: "pick_spec delta (Some 0) spec = (n, Year)"
  have "\<forall>p \<in> set (butlast spec). snd p \<noteq> Year \<and> 0 \<le> spec_ms p" by (simp add: spec_def spec_ms_def timeUnitSize_def)
  from pick_spec_large [OF p _ this] show ?thesis by (simp add: spec_def spec_ms_def)
qed

lemma year_size_ge:
  assumes "3 / 4 * timeUnitSize Year \<le> delta"
  shows "1 \<le> year_size delta"
proof -
  define q where "q = delta / timeUnitSize Year"
  define e where "e = log10_floor q"
  have q: "3 / 4 \<le> q" using assms by (simp add: q_def timeUnitSize_def)
  then have b: "10 powr of_int e \<le> q" "q < 10 powr (of_int e + 1)" using log10_floor_bounds [of q] by (simp_all add: e_def)
  have r: "year_size delta = (if q / 10 powr of_int e < 1.5 then 1 else if q / 10 powr of_int e < 3 then 2
      else if q / 10 powr of_int e < 7.5 then 5 else 10) * 10 powr of_int e"
    by (simp add: year_size_def Let_def q_def e_def)
  show ?thesis
  proof (cases "0 \<le> e")
    case True
    then have "1 \<le> 10 powr real_of_int e" using ge_one_powr_ge_zero by simp
    then show ?thesis unfolding r by auto
  next
    case False
    have "- 1 \<le> e"
    proof (rule ccontr)
      assume "\<not> - 1 \<le> e"
      then have "10 powr (of_int e + 1) \<le> 10 powr (- 1 :: real)" by (intro powr_mono) linarith+
      then show False using b(2) q by (simp add: powr_minus_divide)
    qed
    then have "e = - 1" using False by simp
    then have m: "10 powr of_int e = (1 / 10 :: real)" by (simp add: powr_minus_divide)
    show ?thesis unfolding r m using q by simp
  qed
qed

text \<open>The walk returns even where it may stand still: then the loop sees the same tick twice.\<close>

lemma time_loop_returns:
  assumes "\<And>v carry. 0 \<le> carry \<Longrightarrow> (fst (time_next n u v carry) = v \<or> v + 1 \<le> fst (time_next n u v carry)) \<and> 0 \<le> snd (time_next n u v carry)"
    and "0 \<le> carry"
  shows "time_loop n u mx v prev carry \<noteq> None"
  using assms(2)
proof (induction "nat (\<lceil>mx\<rceil> - v)" arbitrary: v prev carry rule: less_induct)
  case less
  let ?v = "fst (time_next n u v carry)" and ?c = "snd (time_next n u v carry)"
  have "time_loop n u mx ?v (Some v) ?c \<noteq> None" if "of_int v < mx"
  proof (cases "?v = v")
    case True
    then show ?thesis by (subst time_loop.simps) simp
  next
    case False
    then have "v + 1 \<le> ?v" "0 \<le> ?c" using assms(1) [OF less.prems, of v] by auto
    moreover have "v < \<lceil>mx\<rceil>" using that by linarith
    ultimately show ?thesis by (intro less.hyps) linarith+
  qed
  then show ?case by (subst time_loop.simps) auto
qed

lemma year_stands_or_moves:
  assumes "0 \<le> n"
  shows "fst (time_next n Year v carry) = v \<or> v + 1 \<le> fst (time_next n Year v carry)"
proof -
  have "getUTCFullYear v \<le> to_int (of_int (getUTCFullYear v) + n)" using assms by (intro to_int_ge) simp
  then consider "to_int (of_int (getUTCFullYear v) + n) = getUTCFullYear v" | "getUTCFullYear v + 1 \<le> to_int (of_int (getUTCFullYear v) + n)"
    by linarith
  then show ?thesis
  proof cases
    case 1
    then show ?thesis using time_fields [of v] by (simp add: time_next_def setUTCFullYear_def)
  next
    case 2
    then show ?thesis using setUTCFullYear_after [of v "of_int (getUTCFullYear v) + n"] by (simp add: time_next_def msPerDay_def)
  qed
qed

lemma time_ticks_returns:
  assumes "opt_tickSize (ax_options a) = None" "opt_minTickSize (ax_options a) = None" "ax_tickSize a = time_size delta (ax_options a)"
  shows "time_ticks a \<noteq> None"
proof -
  obtain n u where p: "pick_spec delta (Some 0) spec = (n, u)" by fastforce
  define n' where "n' = (if u = Year then year_size delta else n)"
  have size: "ax_tickSize a = UnitSize n' u"
    using assms p by (simp add: time_size_def min_size_def n'_def Let_def)
  have "(n, u) \<in> set spec" using pick_spec_mem [of spec delta "Some 0"] p by (simp add: spec_def)
  have "0 \<le> year_size delta" by (simp add: year_size_def Let_def)
  then have "(fst (time_next n' u v carry) = v \<or> v + 1 \<le> fst (time_next n' u v carry)) \<and> 0 \<le> snd (time_next n' u v carry)"
    if "0 \<le> carry" for v carry
    using year_stands_or_moves [of n' v carry] time_next_progress [of n' u carry v] spec_moving \<open>(n, u) \<in> set spec\<close> that
    by (cases "u = Year") (auto simp: n'_def time_next_def)
  from time_loop_returns [OF this, of 0] show ?thesis by (simp add: time_ticks_def size)
qed

text \<open>
  C35. Automatic ticks on a time axis. Unless the distance wanted between ticks falls into the narrow gap just below three
  quarters of a year, the walk through the calendar ends; the ticks are strictly increasing; the
  first one is not after the lower bound; and the last one is the only one that reaches the upper bound.
  This holds for whole seconds, minutes, hours and days as well as for parts of months, months and years of any length.
\<close>

theorem time_ticks_cover:
  assumes "opt_tickSize (ax_options a) = None" "opt_minTickSize (ax_options a) = None"
    and "ax_tickSize a = time_size delta (ax_options a)"
    and "delta \<notin> {(6 * timeUnitSize Month + timeUnitSize Year) / 2 ..< 3 / 4 * timeUnitSize Year}"
  shows "\<exists>ts. time_ticks a = Some ts \<and> ts \<noteq> [] \<and> sorted_wrt (<) ts \<and> hd ts \<le> of_int (to_int (ax_min a))
    \<and> ax_max a \<le> last ts \<and> (\<forall>t \<in> set (butlast ts). t < ax_max a)"
proof -
  obtain n u where p: "pick_spec delta (Some 0) spec = (n, u)" by fastforce
  define n' where "n' = (if u = Year then year_size delta else n)"
  have size: "ax_tickSize a = UnitSize n' u"
    using assms(1-3) p by (simp add: time_size_def min_size_def n'_def Let_def)
  have "(n, u) \<in> set spec" using pick_spec_mem [of spec delta "Some 0"] p by (simp add: spec_def)
  then have m: "moving n' u" "0 < n'"
  proof (atomize (full), cases "u = Year")
    case True
    then have "(6 * timeUnitSize Month + timeUnitSize Year) / 2 \<le> delta" using pick_year p by simp
    then have "3 / 4 * timeUnitSize Year \<le> delta" using assms(4) by auto
    then show "moving n' u \<and> 0 < n'" using True year_size_ge [of delta] by (simp add: n'_def moving_def)
  next
    case False
    then show "moving n' u \<and> 0 < n'" using spec_moving \<open>(n, u) \<in> set spec\<close> by (simp add: n'_def)
  qed
  obtain ts where ts: "time_loop n' u (ax_max a) (time_start n' u (ax_min a)) None 0 = Some ts" "ts \<noteq> []"
    "hd ts = time_start n' u (ax_min a)" "sorted_wrt (<) ts" "ax_max a \<le> of_int (last ts)" "\<forall>t \<in> set (butlast ts). of_int t < ax_max a"
    using time_loop_ticks [OF m(1), of 0 None "time_start n' u (ax_min a)" "ax_max a"] by auto
  have "time_ticks a = Some (map of_int ts)" by (simp add: time_ticks_def size ts(1))
  moreover have "hd (map of_int ts) \<le> (of_int (to_int (ax_min a)) :: real)"
    using ts(2,3) time_start_le [OF m(2), of u "ax_min a"] by (simp add: hd_map)
  ultimately show ?thesis using ts by (auto simp: sorted_wrt_map last_map map_butlast [symmetric])
qed

definition demo_time :: axis where
  "demo_time = (new_axis 1 X (demo_options\<lparr>opt_time := True\<rparr>))
     \<lparr>ax_min := 1325376000000, ax_max := 1330000000000, ax_tickSize := time_size 1000000000 demo_options\<rparr>"

theorem time_ticks_cover_witness:
  "\<exists>ts. time_ticks demo_time = Some ts \<and> ts \<noteq> [] \<and> ax_max demo_time \<le> last ts"
  using time_ticks_cover [of demo_time 1000000000]
  by (auto simp: demo_time_def new_axis_def demo_options_def timeUnitSize_def time_size_def min_size_def)

section \<open>Where the walk goes wrong\<close>

text \<open>In the gap the size is half a year, which setting the year truncates away: the same tick is made twice, and no other.\<close>

lemma half_year_stuck:
  assumes "0 \<le> getUTCFullYear v" "of_int v < mx"
  shows "time_loop (1 / 2) Year mx v None 0 = Some [v, v]"
proof -
  have "to_int (of_int (getUTCFullYear v) + 1 / 2) = getUTCFullYear v" using assms(1) by (simp add: to_int_def)
  then have "time_next (1 / 2) Year v 0 = (v, 0)"
    using time_fields [of v] by (simp add: time_next_def setUTCFullYear_def)
  moreover from this have "time_loop (1 / 2) Year mx v (Some v) 0 = Some [v]" by (subst time_loop.simps) simp
  ultimately show ?thesis using assms(2) by (subst time_loop.simps) simp
qed

text \<open>
  The month is rounded down before the date is reset: on the 31st the shorter month runs over. Ticks every two months
  from 31 December 2011 begin on 1 December and not on 1 November.
\<close>

lemma month_runs_over:
  defines "t \<equiv> 1325289600000"
  shows "(getUTCFullYear t, getUTCMonth t, getUTCDate t) = (2011, 11, 31)"
    and "let s = time_start 2 Month (of_int t) in (getUTCFullYear s, getUTCMonth s, getUTCDate s) = (2011, 11, 1)"
proof -
  have calendar: "year_of 15339 = 2011" "year_of 15309 = 2011" "leap 2011 \<longleftrightarrow> False" "day_from_year 2011 = 14975"
    by (simp_all add: year_of_def day_from_year_def leap_def Let_def)
  have m: "month_of 15339 = 11" "month_of 15309 = 11"
    by (simp_all add: month_of_def calendar eval_nat_numeral month_start_def)
  have f: "t div msPerDay = 15339" "t mod msPerDay = 0" by (simp_all add: t_def msPerDay_def)
  show "(getUTCFullYear t, getUTCMonth t, getUTCDate t) = (2011, 11, 31)"
    by (simp add: getUTCFullYear_def getUTCMonth_def getUTCDate_def date_of_def f m calendar month_start_def)
  then have g: "getUTCFullYear t = 2011" "getUTCMonth t = 11" "getUTCDate t = 31" by simp_all
  have "floor_unit 2 Month t = 15309 * msPerDay"
    by (simp add: floor_unit_def setUTCMonth_def g f floorInBase_def make_day_def calendar month_start_def)
  then have fl: "floor_unit 2 Month t = 1322697600000" by (simp add: msPerDay_def)
  have d: "1322697600000 div msPerDay = 15309" "1322697600000 mod msPerDay = 0" by (simp_all add: msPerDay_def)
  have same: "setUTCMilliseconds 0 1322697600000 = 1322697600000" "setUTCSeconds 0 1322697600000 = 1322697600000"
    "setUTCMinutes 0 1322697600000 = 1322697600000" "setUTCHours 0 1322697600000 = 1322697600000"
    by (simp_all add: setUTCMilliseconds_def setUTCSeconds_def getUTCSeconds_def setUTCMinutes_def getUTCMinutes_def
        setUTCHours_def getUTCHours_def d)
  have date: "setUTCDate 1 1322697600000 = 1322697600000"
    by (simp add: setUTCDate_def getUTCFullYear_def getUTCMonth_def d m calendar make_day_def month_start_def) (simp add: msPerDay_def)
  have units: "2 * timeUnitSize Month \<ge> timeUnitSize Minute" "2 * timeUnitSize Month \<ge> timeUnitSize Hour"
    "2 * timeUnitSize Month \<ge> timeUnitSize Day" "2 * timeUnitSize Month \<ge> timeUnitSize Day * 4" "\<not> 2 * timeUnitSize Month \<ge> timeUnitSize Year"
    by (simp_all add: timeUnitSize_def)
  have "time_start 2 Month (of_int t) = 1322697600000"
    unfolding time_start_def to_int_of_int fl reset_smaller_def Let_def using units by (simp add: same date)
  then show "let s = time_start 2 Month (of_int t) in (getUTCFullYear s, getUTCMonth s, getUTCDate s) = (2011, 11, 1)"
    by (simp add: getUTCFullYear_def getUTCMonth_def getUTCDate_def date_of_def d m calendar month_start_def)
qed

end
