(* ===== verification/Tick_Setup.thy ===== *)
theory Tick_Setup
  imports Time_Ticks
begin

text \<open>
  Preparing the ticks of an axis, \<open>static/flot/jquery.flot.js\<close>: \<open>setupTickGeneration\<close> as a whole with the alignment
  to another axis, and \<open>setTicks\<close>. \<open>None\<close> is an error that stops the plot, or a value that is NaN in the code and
  that no finite number can stand for (an empty range, a tick size without its unit on a time axis that is aligned).
\<close>

section \<open>Generators\<close>

text \<open>The ticks of another axis at the same fractions of this axis' range; an error if it has none yet.\<close>

definition aligned_ticks :: "axis \<Rightarrow> axis \<Rightarrow> real list option" where
  "aligned_ticks other a =
     (if ax_max other = ax_min other then None
      else map_option (map (\<lambda>t. ax_min a + (fst t - ax_min other) / (ax_max other - ax_min other) * (ax_max a - ax_min a)))
             (ax_ticks other))"

definition generate :: "axes \<Rightarrow> axis \<Rightarrow> real list option" where
  "generate all a =
     (case ax_tickGenerator a of
        DecimalTicks \<Rightarrow> decimal_ticks a
      | TimeTicks \<Rightarrow> time_ticks a
      | TicksOf k \<Rightarrow> (case axis_at all (k - 1) of None \<Rightarrow> None | Some other \<Rightarrow> aligned_ticks other a))"

text \<open>Whether the generator makes numbers only.\<close>

definition numeric_ticks :: "axis \<Rightarrow> bool" where
  "numeric_ticks a =
     (case (ax_tickGenerator a, ax_tickSize a) of
        (DecimalTicks, Size s) \<Rightarrow> s \<noteq> 0 | (TimeTicks, UnitSize _ _) \<Rightarrow> True | _ \<Rightarrow> False)"

text \<open>The pattern \<open>/\..*0$/\<close>.\<close>

definition ends_in_zero :: "string \<Rightarrow> bool" where
  "ends_in_zero t \<longleftrightarrow> CHR ''.'' \<in> set (butlast t) \<and> t \<noteq> [] \<and> last t = CHR ''0''"

section \<open>Setting up the generator\<close>

definition base_generation :: "real \<Rightarrow> axis \<Rightarrow> axis option" where
  "base_generation delta a =
     (if opt_time (ax_options a) then
        (if delta \<le> 0 \<and> snd (pick_spec delta (min_size (ax_options a)) spec) = Year then None
         else Some (a\<lparr>ax_tickSize := time_size delta (ax_options a), ax_tickGenerator := TimeTicks, ax_tickFormatter := TimeFormat\<rparr>))
      else if delta \<le> 0 then None
      else
        let (size, decimals) = decimal_size delta (ax_options a)
        in Some (a\<lparr>ax_tickSize := size, ax_tickDecimals := decimals, ax_tickGenerator := DecimalTicks, ax_tickFormatter := DecimalFormat\<rparr>))"

text \<open>The range is widened to the outermost nice ticks before the ticks of the other axis are taken over.\<close>

definition widen_to_ticks :: "real list \<Rightarrow> axis \<Rightarrow> axis" where
  "widen_to_ticks ts a =
     (if ts = [] then a
      else
        let a1 = (if opt_min (ax_options a) = None then a\<lparr>ax_min := min (ax_min a) (hd ts)\<rparr> else a)
        in (if opt_max (ax_options a) = None \<and> length ts > 1 then a1\<lparr>ax_max := max (ax_max a1) (last ts)\<rparr> else a1))"

text \<open>
  One more decimal, unless the distance of the ticks then ends in a zero. (The code tests \<open>axis.mode\<close>, which
  is never set, so that it does the same on a time axis.)
\<close>

definition extra_decimal :: "(real \<Rightarrow> string) \<Rightarrow> real \<Rightarrow> real list \<Rightarrow> axis \<Rightarrow> axis option" where
  "extra_decimal ns delta ts a =
     (if opt_tickDecimals (ax_options a) \<noteq> None then Some a
      else if delta \<le> 0 then None
      else
        let extraDec = max 0 (- log10_floor delta + 1)
        in if length ts > 1 then
             map_option (\<lambda>m. if ends_in_zero (flatten ns m) then a else a\<lparr>ax_tickDecimals := extraDec\<rparr>)
               (toFixed (ts ! 1 - ts ! 0) extraDec)
           else Some (a\<lparr>ax_tickDecimals := extraDec\<rparr>))"

definition align_ticks :: "(real \<Rightarrow> string) \<Rightarrow> real \<Rightarrow> axes \<Rightarrow> axis \<Rightarrow> axis option" where
  "align_ticks ns delta all a =
     (case opt_alignTicksWithAxis (ax_options a) of
        None \<Rightarrow> Some a
      | Some k \<Rightarrow>
          (case axis_at all (k - 1) of
             None \<Rightarrow> Some a
           | Some other \<Rightarrow>
               if \<not> ax_used other \<or> ax_n other = ax_n a then Some a
               else if \<not> numeric_ticks a then None
               else
                 Option.bind (generate all a) (\<lambda>nice.
                   let a1 = (widen_to_ticks nice a)\<lparr>ax_tickGenerator := TicksOf k\<rparr>
                   in Option.bind (aligned_ticks other a1) (\<lambda>ts. extra_decimal ns delta ts a1))))"

definition setupTickGeneration :: "(real \<Rightarrow> string) \<Rightarrow> real \<Rightarrow> real \<Rightarrow> axes \<Rightarrow> axis \<Rightarrow> axis option" where
  "setupTickGeneration ns canvasWidth canvasHeight all a =
     (let delta = tick_delta canvasWidth canvasHeight a
      in Option.bind (base_generation delta a) (\<lambda>a1.
           map_option (\<lambda>a2. if opt_tickFormatter (ax_options a) \<noteq> None then a2\<lparr>ax_tickFormatter := OptionFormat\<rparr> else a2)
             (align_ticks ns delta all a1)))"

section \<open>Setting the ticks\<close>

text \<open>The label of a value; \<open>None\<close> is the error of a number of decimals out of range. A value that is NaN has a label, which is dropped.\<close>

definition tick_label :: "axis \<Rightarrow> real option \<Rightarrow> markup option" where
  "tick_label a v =
     (case ax_tickFormatter a of
        DecimalFormat \<Rightarrow>
          (case v of
             Some x \<Rightarrow> toFixed x (ax_tickDecimals a)
           | None \<Rightarrow> if ax_tickDecimals a < 0 \<or> 20 < ax_tickDecimals a then None else Some [])
      | TimeFormat \<Rightarrow> Some (case v of Some x \<Rightarrow> [T (time_label a x)] | None \<Rightarrow> [])
      | OptionFormat \<Rightarrow>
          Some (case (opt_tickFormatter (ax_options a), v) of (Some f, Some x) \<Rightarrow> f x | _ \<Rightarrow> []))"

definition raw_ticks :: "axes \<Rightarrow> axis \<Rightarrow> (real option \<times> markup option) list option" where
  "raw_ticks all a =
     (let generated = map_option (map (\<lambda>v. (Some v, None))) (generate all a)
      in case opt_ticks (ax_options a) of
           AutoTicks \<Rightarrow> generated
         | TickCount n \<Rightarrow> if n > 0 then generated else Some []
         | NoTicks \<Rightarrow> Some []
         | TickList l \<Rightarrow> Some l
         | TickFun f \<Rightarrow> Some (f (ax_min a) (ax_max a)))"

fun label_ticks :: "axis \<Rightarrow> (real option \<times> markup option) list \<Rightarrow> (real \<times> markup) list option" where
  "label_ticks a [] = Some []"
| "label_ticks a ((v, l) # ts) =
     (case (case l of Some t \<Rightarrow> Some t | None \<Rightarrow> tick_label a v) of
        None \<Rightarrow> None
      | Some t \<Rightarrow> map_option (\<lambda>r. case v of Some x \<Rightarrow> (x, t) # r | None \<Rightarrow> r) (label_ticks a ts))"

definition setTicks :: "axes \<Rightarrow> axis \<Rightarrow> axis option" where
  "setTicks all a =
     Option.bind (raw_ticks all a) (\<lambda>ts. map_option (\<lambda>r. a\<lparr>ax_ticks := Some r\<rparr>) (label_ticks a ts))"

section \<open>Aligned axes share their grid\<close>

lemma p2c_fraction:
  assumes "ax_min a < ax_max a" "opt_transform (ax_options a) = None"
  shows "ax_p2c (setTransformationHelpers w h a) (ax_min a + r * (ax_max a - ax_min a))
    = (case ax_direction a of X \<Rightarrow> r * w | Y \<Rightarrow> (1 - r) * h)"
proof -
  define d where "d = ax_max a - ax_min a"
  have d: "0 < d" "ax_max a = ax_min a + d" using assms(1) by (simp_all add: d_def)
  show ?thesis
    unfolding setTransformationHelpers_maps map_offset_def map_factor_def map_fun_def assms(2) Let_def
    using d(1) by (simp add: d(2) field_simps split: direction.splits)
qed



section \<open>Ticks that are ready\<close>

lemma label_ticks_all:
  assumes "\<And>v. v \<in> set vs \<Longrightarrow> \<exists>t. tick_label a (Some v) = Some t \<and> P v t"
  shows "\<exists>r. label_ticks a (map (\<lambda>v. (Some v, None)) vs) = Some r \<and> map fst r = vs \<and> (\<forall>(v, t) \<in> set r. P v t)"
  using assms
proof (induction vs)
  case (Cons v vs)
  then obtain r where "label_ticks a (map (\<lambda>v. (Some v, None)) vs) = Some r" "map fst r = vs" "\<forall>(v, t) \<in> set r. P v t" by auto
  moreover obtain t where "tick_label a (Some v) = Some t" "P v t" using Cons.prems by auto
  ultimately show ?case by auto
qed simp

text \<open>An axis whose decimal ticks are automatic, in a range that numbers with 20 digits can show.\<close>

definition automatic :: "real \<Rightarrow> real \<Rightarrow> axis \<Rightarrow> bool" where
  "automatic w h a \<longleftrightarrow>
     (let o' = ax_options a; delta = tick_delta w h a in
        \<not> opt_time o' \<and> opt_ticks o' \<in> {AutoTicks} \<union> {TickCount n | n. n > 0} \<and> opt_tickDecimals o' = None \<and> opt_tickSize o' = None
        \<and> opt_minTickSize o' = None \<and> opt_alignTicksWithAxis o' = None \<and> opt_tickFormatter o' = None
        \<and> 0 < w \<and> 0 < h \<and> ax_min a < ax_max a \<and> 1 / 10 ^ 19 \<le> delta
        \<and> \<bar>ax_min a\<bar> + 2 * delta < 10 ^ 21 \<and> \<bar>ax_max a\<bar> + 2 * delta < 10 ^ 21)"

text \<open>Ticks in even steps lie between the first and the last one.\<close>

lemma even_steps:
  fixes s :: real
  assumes "0 < s" "ts = map (\<lambda>i. of_int (k + int i) * s) [0..<length ts]" "v \<in> set ts"
  shows "hd ts \<le> v \<and> v \<le> last ts"
proof -
  have "sorted ts" using assms(1) by (subst assms(2)) (simp add: sorted_wrt_map sorted_wrt_upt mult_right_mono sorted_iff_nth_mono)
  then show ?thesis using assms(3) by (induction ts) auto
qed

text \<open>Ticks in even steps with labels that are exact are set as they are.\<close>

lemma exact_ticks_set:
  assumes "raw_ticks all a = Some (map (\<lambda>v. (Some v, None)) ts)"
    and "\<And>v. v \<in> set ts \<Longrightarrow> \<exists>l. tick_label a (Some v) = Some l \<and> (\<exists>t. l = [T t] \<and> label_value t = Some v)"
  shows "\<exists>r. setTicks all a = Some (a\<lparr>ax_ticks := Some r\<rparr>) \<and> map fst r = ts \<and> (\<forall>(v, l) \<in> set r. \<exists>t. l = [T t] \<and> label_value t = Some v)"
proof -
  obtain r where "label_ticks a (map (\<lambda>v. (Some v, None)) ts) = Some r" "map fst r = ts"
    "\<forall>(v, l) \<in> set r. \<exists>t. l = [T t] \<and> label_value t = Some v"
    using label_ticks_all [of ts a "\<lambda>v l. \<exists>t. l = [T t] \<and> label_value t = Some v"] assms(2) by blast
  then show ?thesis using assms(1) by (intro exI [of _ r]) (auto simp: setTicks_def)
qed

text \<open>
  C34. From range to ticks. For a decimal axis with automatic ticks the whole preparation succeeds: the ticks are
  consecutive multiples of a step that is 1, 2, 2.5, 5 or 10 times a power of ten, from the last one
  at or below the lower bound to the first at or above the upper one; there are about as many as
  wanted; every label says exactly the value of its tick; and snapping a range with a margin makes the
  first and the last tick its bounds.
\<close>

theorem automatic_ticks_ready:
  assumes "automatic w h a"
  shows "\<exists>a1 a2 ticks s k. setupTickGeneration ns w h all a = Some a1 \<and> setTicks all a1 = Some a2 \<and> ax_ticks a2 = Some ticks
    \<and> map fst ticks = map (\<lambda>i. of_int (k + int i) * s) [0..<length ticks]
    \<and> (\<exists>c \<in> {1, 2, 5 / 2, 5, 10}. \<exists>e :: int. s = c * 10 powr of_int e)
    \<and> fst (hd ticks) \<le> ax_min a \<and> ax_min a < fst (hd ticks) + s \<and> ax_max a \<le> fst (last ticks) \<and> fst (last ticks) < ax_max a + s
    \<and> 3 / 5 * noTicks w h a + 1 \<le> real (length ticks) \<and> real (length ticks) < 3 / 2 * noTicks w h a + 3
    \<and> (\<forall>(v, l) \<in> set ticks. \<exists>t. l = [T t] \<and> label_value t = Some v)
    \<and> (opt_min (ax_options a) = None \<longrightarrow> opt_max (ax_options a) = None \<longrightarrow> opt_autoscaleMargin (ax_options a) \<notin> {None, Some 0}
        \<longrightarrow> ax_min (snapRangeToTicks a2 ticks) = fst (hd ticks) \<and> ax_max (snapRangeToTicks a2 ticks) = fst (last ticks))"
proof -
  let ?delta = "tick_delta w h a" and ?o = "ax_options a"
  have o': "\<not> opt_time ?o" "opt_tickDecimals ?o = None" "opt_tickSize ?o = None" "opt_minTickSize ?o = None"
    "opt_alignTicksWithAxis ?o = None" "opt_tickFormatter ?o = None" and wh: "0 < w" "0 < h" "ax_min a < ax_max a"
    and ot: "opt_ticks ?o \<in> {AutoTicks} \<union> {TickCount n | n. n > 0}"
    and b: "1 / 10 ^ 19 \<le> ?delta" "\<bar>ax_min a\<bar> + 2 * ?delta < 10 ^ 21" "\<bar>ax_max a\<bar> + 2 * ?delta < 10 ^ 21"
    using assms unfolding automatic_def Let_def by blast+
  have delta: "0 < ?delta" using b(1) by (rule less_le_trans [rotated]) simp
  from decimal_ticks_cover [OF wh o'(2-4)] obtain s d ts k where size: "decimal_size ?delta ?o = (Size s, d)"
    and ts: "decimal_ticks (a\<lparr>ax_tickSize := Size s\<rparr>) = Some ts" "ts = map (\<lambda>i. of_int (k + int i) * s) [0..<length ts]"
    "hd ts \<le> ax_min a" "ax_min a < hd ts + s" "ax_max a \<le> last ts" "last ts < ax_max a + s"
    and round: "\<exists>c \<in> {1, 2, 5 / 2, 5, 10}. \<exists>e :: int. s = c * 10 powr of_int e"
    and len: "3 / 5 * noTicks w h a + 1 \<le> real (length ts)" "real (length ts) < 3 / 2 * noTicks w h a + 3" by blast
  define a1 where "a1 = a\<lparr>ax_tickSize := Size s, ax_tickDecimals := d, ax_tickGenerator := DecimalTicks, ax_tickFormatter := DecimalFormat\<rparr>"
  have gen: "setupTickGeneration ns w h all a = Some a1"
    using o' size delta by (simp add: setupTickGeneration_def base_generation_def align_ticks_def a1_def)
  have "s \<le> 5 / 3 * ?delta" "0 < s"
    using size round_size_cases [OF delta, of s] delta o'(2-4) by (auto simp: decimal_size_def Let_def split: prod.splits)
  then have small: "\<bar>v\<bar> < 10 ^ 21" if "v \<in> set ts" for v
    using even_steps [OF \<open>0 < s\<close> ts(2) that] ts(3-6) b(2,3) \<open>s \<le> 5 / 3 * ?delta\<close> delta by linarith
  have label: "\<exists>l. tick_label a1 (Some v) = Some l \<and> (\<exists>t. l = [T t] \<and> label_value t = Some v)" if v: "v \<in> set ts" for v
  proof -
    obtain i where "v = of_int (k + int i) * s" using v by (subst (asm) ts(2)) auto
    then show ?thesis
      using tick_labels_exact [OF delta o'(2-4) size, of "k + int i"] decimal_size_decimals [OF b(1) o'(2) size] small [OF v]
      by (auto simp: tick_label_def a1_def)
  qed
  have "decimal_ticks a1 = Some ts" using ts(1) \<open>0 < s\<close> by (simp add: a1_def decimal_ticks_def)
  then have "raw_ticks all a1 = Some (map (\<lambda>v. (Some v, None)) ts)"
    using ot by (auto simp: raw_ticks_def generate_def a1_def)
  then obtain r where set: "setTicks all a1 = Some (a1\<lparr>ax_ticks := Some r\<rparr>)" and r: "map fst r = ts"
    "\<forall>(v, l) \<in> set r. \<exists>t. l = [T t] \<and> label_value t = Some v"
    using exact_ticks_set [OF _ label] by blast
  have "0 < noTicks w h a" using wh by (auto simp: noTicks_def split: tick_option.splits direction.splits)
  then have "1 < length ts" using len(1) by linarith
  then have ends: "fst (hd r) = hd ts" "fst (last r) = last ts" "length r = length ts" "r \<noteq> []" "1 < length r"
    using r(1) by (cases r; auto simp: last_map)+
  have "ax_min (snapRangeToTicks (a1\<lparr>ax_ticks := Some r\<rparr>) r) = fst (hd r) \<and> ax_max (snapRangeToTicks (a1\<lparr>ax_ticks := Some r\<rparr>) r) = fst (last r)"
    if "opt_min ?o = None" "opt_max ?o = None" "opt_autoscaleMargin ?o \<notin> {None, Some 0}"
    using that ends ts(3,5) by (auto simp: snapRangeToTicks_def a1_def)
  then show ?thesis using gen set ts(2-6) round len r ends by (intro exI [of _ a1] exI [of _ "a1\<lparr>ax_ticks := Some r\<rparr>"] exI [of _ r] exI [of _ s] exI [of _ k]) simp
qed

definition demo_ticked :: axis where
  "demo_ticked = (new_axis 1 Y (demo_options\<lparr>opt_ticks := TickCount 5, opt_autoscaleMargin := Some (1 / 50)\<rparr>))\<lparr>ax_min := 2, ax_max := 12\<rparr>"

lemma demo_automatic: "automatic 400 300 demo_ticked"
  by (simp add: automatic_def demo_ticked_def new_axis_def demo_options_def tick_delta_def noTicks_def)

theorem automatic_ticks_ready_witness:
  "\<exists>a1 a2 ticks. setupTickGeneration (\<lambda>_. ''0'') 400 300 [] demo_ticked = Some a1 \<and> setTicks [] a1 = Some a2 \<and> ax_ticks a2 = Some ticks
    \<and> ax_max (snapRangeToTicks a2 ticks) = fst (last ticks)"
proof -
  have "opt_min (ax_options demo_ticked) = None" "opt_max (ax_options demo_ticked) = None"
    "opt_autoscaleMargin (ax_options demo_ticked) \<notin> {None, Some 0}"
    by (simp_all add: demo_ticked_def new_axis_def demo_options_def)
  with automatic_ticks_ready [OF demo_automatic] show ?thesis by blast
qed

end
