(* ===== verification/Labels.thy ===== *)
theory Labels
  imports Tick_Setup Plot_Options
begin

text \<open>
  The markup a plot puts into the page, \<open>static/flot/jquery.flot.js\<close>: measuring tick labels, placing them
  (\<open>measureTickLabels\<close>, \<open>insertAxisLabels\<close>) and the legend (\<open>insertLegend\<close>). The sizes the browser measures and the
  background it computes are arguments; text is kept in pieces, numbers apart.
\<close>

section \<open>Measuring labels\<close>

text \<open>What the page answers: heights and widths of a piece of markup.\<close>

record page =
  pg_height :: "markup \<Rightarrow> real"
  pg_child_width :: "markup \<Rightarrow> real"
  pg_label_height :: "markup \<Rightarrow> real"

definition axis_class :: "axis \<Rightarrow> string" where
  "axis_class a = dir_char (ax_direction a) # ''Axis '' @ dir_char (ax_direction a) # nat_str (ax_n a) @ ''Axis''"

definition dummyDiv :: "axis \<Rightarrow> markup list \<Rightarrow> string \<Rightarrow> markup" where
  "dummyDiv a labels width =
     [T (''<div style=\"position:absolute;top:-10000px;'' @ width @ ''font-size:smaller\">''
         @ ''<div class=\"'' @ axis_class a @ ''\">'')] @ concat labels @ [T ''</div></div>'']"

definition has_text :: "(real \<Rightarrow> string) \<Rightarrow> markup \<Rightarrow> bool" where
  "has_text ns l \<longleftrightarrow> flatten ns l \<noteq> []"

definition shown_labels :: "(real \<Rightarrow> string) \<Rightarrow> axis \<Rightarrow> markup list" where
  "shown_labels ns a = filter (has_text ns) (map snd (case ax_ticks a of None \<Rightarrow> [] | Some ts \<Rightarrow> ts))"

definition measureTickLabels :: "(real \<Rightarrow> string) \<Rightarrow> page \<Rightarrow> real \<Rightarrow> axis \<Rightarrow> axis" where
  "measureTickLabels ns page cw a =
     (let opts = ax_options a; n = length (case ax_ticks a of None \<Rightarrow> [] | Some ts \<Rightarrow> ts); ls = shown_labels ns a
      in case ax_direction a of
           X \<Rightarrow>
             let w = (case opt_labelWidth opts of Some w \<Rightarrow> w | None \<Rightarrow> of_int \<lfloor>cw / real (if n > 0 then n else 1)\<rfloor>);
                 boxes = map (\<lambda>l. [T ''<div class=\"tickLabel\" style=\"float:left;width:'', V w, T ''px\">''] @ l @ [T ''</div>'']) ls
             in a\<lparr>ax_labelWidth := w,
                  ax_labelHeight :=
                    (case opt_labelHeight opts of
                       Some h \<Rightarrow> h
                     | None \<Rightarrow> if boxes = [] then 0
                               else pg_height page (dummyDiv a (boxes @ [[T ''<div style=\"clear:left\"></div>'']]) ''width:10000px;''))\<rparr>
         | Y \<Rightarrow>
             let boxes = map (\<lambda>l. [T ''<div class=\"tickLabel\">''] @ l @ [T ''</div>'']) ls; div' = dummyDiv a boxes []
             in a\<lparr>ax_labelWidth :=
                    (case opt_labelWidth opts of Some w \<Rightarrow> w | None \<Rightarrow> if boxes = [] then 0 else pg_child_width page div'),
                  ax_labelHeight :=
                    (case opt_labelHeight opts of Some h \<Rightarrow> h | None \<Rightarrow> if boxes = [] then 0 else pg_label_height page div')\<rparr>)"

section \<open>Placing labels\<close>

text \<open>The place of a label, as the properties of a style in the order they are written, and its alignment.\<close>

definition label_place :: "plot_geometry \<Rightarrow> axis \<Rightarrow> real \<Rightarrow> (string \<times> real) list \<times> string" where
  "label_place g a v =
     (let b = ax_box a
      in case ax_direction a of
           X \<Rightarrow>
             ([(''left'', jsround (plotLeft g + ax_p2c a v - ax_labelWidth a / 2)),
               (if ax_position a = ''bottom'' then (''top'', box_top b + box_padding b)
                else (''bottom'', canvasHeight g - (box_top b + box_height b - box_padding b))),
               (''width'', ax_labelWidth a)], ''center'')
         | Y \<Rightarrow>
             ([(''top'', jsround (plotTop g + ax_p2c a v - ax_labelHeight a / 2)),
               (if ax_position a = ''left'' then (''right'', canvasWidth g - (box_left b + box_width b - box_padding b))
                else (''left'', box_left b + box_padding b)),
               (''width'', ax_labelWidth a)], if ax_position a = ''left'' then ''right'' else ''left''))"

definition style_text :: "(string \<times> real) list \<Rightarrow> string \<Rightarrow> markup" where
  "style_text pos align =
     T (''position:absolute;text-align:'' @ align) # concat (map (\<lambda>(k, x). [T ('';'' @ k @ '':''), V x, T ''px'']) pos)"

text \<open>Labels of ticks inside the range only, and only of axes that are shown.\<close>

definition label_box :: "(real \<Rightarrow> string) \<Rightarrow> plot_geometry \<Rightarrow> axis \<Rightarrow> real \<times> markup \<Rightarrow> markup" where
  "label_box ns g a t =
     (if \<not> has_text ns (snd t) \<or> fst t < ax_min a \<or> fst t > ax_max a then []
      else
        let (pos, align) = label_place g a (fst t)
        in [T ''<div class=\"tickLabel\" style=\"''] @ style_text pos align @ [T ''\">''] @ snd t @ [T ''</div>''])"

text \<open>An axis that is shown without ticks is the error of reading their number.\<close>

definition axis_labels :: "(real \<Rightarrow> string) \<Rightarrow> plot_geometry \<Rightarrow> axis \<Rightarrow> markup option" where
  "axis_labels ns g a =
     (if \<not> ax_show a then Some []
      else case ax_ticks a of
        None \<Rightarrow> None
      | Some ts \<Rightarrow>
          Some ([T (''<div class=\"'' @ axis_class a @ ''\" style=\"color:'' @ opt_color (ax_options a) @ ''\">'')]
            @ concat (map (label_box ns g a) ts) @ [T ''</div>'']))"

fun all_some :: "'a option list \<Rightarrow> 'a list option" where
  "all_some [] = Some []"
| "all_some (x # xs) = (case x of None \<Rightarrow> None | Some y \<Rightarrow> map_option (\<lambda>ys. y # ys) (all_some xs))"

definition insertAxisLabels :: "(real \<Rightarrow> string) \<Rightarrow> plot_geometry \<Rightarrow> axes \<Rightarrow> axes \<Rightarrow> markup option" where
  "insertAxisLabels ns g xs ys =
     map_option (\<lambda>parts. [T ''<div class=\"tickLabels\" style=\"font-size:smaller\">''] @ concat parts @ [T ''</div>''])
       (all_some (map (axis_labels ns g) (allAxes xs ys)))"

section \<open>The legend\<close>

definition legend_entry :: "legend_options \<Rightarrow> series \<Rightarrow> markup \<Rightarrow> markup" where
  "legend_entry o' s label =
     [T ''<td class=\"legendColorBox\"><div style=\"border:1px solid ''] @ lg_labelBoxBorderColor o'
     @ [T '';padding:1px\"><div style=\"width:4px;height:0;border:5px solid ''] @ series_color s
     @ [T '';overflow:hidden\"></div></div></td><td class=\"legendLabel\">''] @ label @ [T ''</td>'']"

text \<open>
  The fragments of the table: the number of a series, whether a row is open, and the fragments so far go through the loop.
  With no columns the remainder is NaN and no row begins.
\<close>

fun legend_rows :: "(real \<Rightarrow> string) \<Rightarrow> legend_options \<Rightarrow> nat \<Rightarrow> bool \<Rightarrow> series list \<Rightarrow> markup list" where
  "legend_rows ns o' i rowStarted [] = (if rowStarted then [[T ''</tr>'']] else [])"
| "legend_rows ns o' i rowStarted (s # ss) =
     (case sr_label s of
        None \<Rightarrow> legend_rows ns o' (Suc i) rowStarted ss
      | Some l \<Rightarrow>
          if \<not> has_text ns l then legend_rows ns o' (Suc i) rowStarted ss
          else
            let new_row = (lg_noColumns o' \<noteq> 0 \<and> i mod lg_noColumns o' = 0);
                label = (case lg_labelFormatter o' of Some f \<Rightarrow> f l s | None \<Rightarrow> l)
            in (if new_row then (if rowStarted then [[T ''</tr>'']] else []) @ [[T ''<tr>'']] else [])
               @ [legend_entry o' s label] @ legend_rows ns o' (Suc i) (rowStarted \<or> new_row) ss)"

definition starts_with :: "char \<Rightarrow> nat \<Rightarrow> string \<Rightarrow> bool" where
  "starts_with c i p \<longleftrightarrow> i < length p \<and> p ! i = c"

definition legend_pos :: "legend_options \<Rightarrow> plot_geometry \<Rightarrow> markup" where
  "legend_pos o' g =
     (let p = lg_position o'; (mx, my) = (case lg_margin o' of Margin m \<Rightarrow> (m, m) | Margins a b \<Rightarrow> (a, b))
      in (if starts_with (CHR ''n'') 0 p then [T ''top:'', V (my + plotTop g), T ''px;'']
          else if starts_with (CHR ''s'') 0 p then [T ''bottom:'', V (my + plotBottom g), T ''px;''] else [])
         @ (if starts_with (CHR ''e'') 1 p then [T ''right:'', V (mx + plotRight g), T ''px;'']
            else if starts_with (CHR ''w'') 1 p then [T ''left:'', V (mx + plotLeft g), T ''px;''] else []))"

text \<open>The background of the legend: its option, the background of the grid, or what the page computes.\<close>

definition legend_background :: "(real \<Rightarrow> string) \<Rightarrow> legend_options \<Rightarrow> grid_options \<Rightarrow> color option \<Rightarrow> markup option" where
  "legend_background ns o' grid computed =
     (case lg_backgroundColor o' of
        Some c \<Rightarrow> Some c
      | None \<Rightarrow>
          map_option (\<lambda>c. toString (c\<lparr>alpha := 1\<rparr>))
            (case gr_backgroundColor grid of
               FillText t \<Rightarrow> if has_text ns t then Some (parse_css ns t) else computed
             | _ \<Rightarrow> computed))"

text \<open>
  What is inserted: nothing, the table into a container, or a box on the plot with its background
  (\<open>None\<close> if the background is switched off), prepared with the measured size of the table.
\<close>

datatype legend =
    NoLegend
  | InContainer markup
  | OnPlot markup "(markup \<times> real) option"

definition insertLegend ::
  "(real \<Rightarrow> string) \<Rightarrow> legend_options \<Rightarrow> grid_options \<Rightarrow> plot_geometry \<Rightarrow> color option \<Rightarrow> real \<times> real \<Rightarrow> series list \<Rightarrow> legend option" where
  "insertLegend ns o' grid g computed dims ss =
     (if \<not> lg_show o' then Some NoLegend
      else
        let fragments = legend_rows ns o' 0 False ss
        in if fragments = [] then Some NoLegend
           else
             let rest = [T ''font-size:smaller;color:''] @ gr_color grid @ [T ''\">''] @ concat fragments @ [T ''</table>''];
                 pos = legend_pos o' g
             in if lg_container o' then Some (InContainer ([T ''<table style=\"''] @ rest))
                else
                  let box = [T ''<div class=\"legend\"><table style=\"position:absolute;''] @ pos @ [T '';''] @ rest @ [T ''</div>'']
                  in if lg_backgroundOpacity o' = 0 then Some (OnPlot box None)
                     else
                       map_option (\<lambda>c. OnPlot box (Some
                           ([T ''<div style=\"position:absolute;width:'', V (fst dims), T ''px;height:'', V (snd dims), T ''px;''] @ pos
                            @ [T ''background-color:''] @ c @ [T '';\"> </div>''], lg_backgroundOpacity o')))
                         (legend_background ns o' grid computed))"

section \<open>The table is well formed\<close>

text \<open>Rows opened and closed: \<open>None\<close> when a row is closed that is not open or opened inside another.\<close>

fun rows_nested :: "bool \<Rightarrow> markup list \<Rightarrow> bool option" where
  "rows_nested opened [] = Some opened"
| "rows_nested opened (f # fs) =
     (if f = [T ''<tr>''] then (if opened then None else rows_nested True fs)
      else if f = [T ''</tr>''] then (if opened then rows_nested False fs else None)
      else rows_nested opened fs)"

lemma legend_entry_no_row: "legend_entry o' s l \<noteq> [T ''<tr>'']" "legend_entry o' s l \<noteq> [T ''</tr>'']"
  by (simp_all add: legend_entry_def)

lemma legend_rows_nested: "rows_nested started (legend_rows ns o' i started ss) = Some False"
proof (induction ss arbitrary: i started)
  case (Cons s ss)
  then show ?case using legend_entry_no_row by (auto simp: Let_def split: option.split)
qed simp

end
