(* ===== verification/Layout.thy ===== *)
theory Layout
  imports Labels
begin

text \<open>
  Laying out a plot, \<open>static/flot/jquery.flot.js\<close>: \<open>setupGrid\<close> with the two phases that give every axis
  a box around the plot area (\<open>allocateAxisBoxFirstPhase\<close>, \<open>allocateAxisBoxSecondPhase\<close>).
\<close>

section \<open>The plot\<close>

record plot =
  pl_grid :: grid_options
  pl_legend :: legend_options
  pl_series :: "series list"
  pl_xaxes :: axes
  pl_yaxes :: axes
  pl_geometry :: plot_geometry

text \<open>An axis is referred to by its direction and its number.\<close>

type_synonym axis_id = "direction \<times> nat"

definition axis_id :: "axis \<Rightarrow> axis_id" where
  "axis_id a = (ax_direction a, ax_n a)"

definition axes_of :: "direction \<Rightarrow> axes \<times> axes \<Rightarrow> axes" where
  "axes_of d p = (case d of X \<Rightarrow> fst p | Y \<Rightarrow> snd p)"

definition get_axis :: "axis_id \<Rightarrow> axes \<times> axes \<Rightarrow> axis option" where
  "get_axis i p = axis_at (axes_of (fst i) p) (snd i - 1)"

definition set_axis :: "axis \<Rightarrow> axes \<times> axes \<Rightarrow> axes \<times> axes" where
  "set_axis a p =
     (case ax_direction a of
        X \<Rightarrow> ((fst p)[ax_n a - 1 := Some a], snd p)
      | Y \<Rightarrow> (fst p, (snd p)[ax_n a - 1 := Some a]))"

section \<open>Boxes\<close>

text \<open>The place of an axis among those that a condition selects; the length of the list stands for -1.\<close>

definition place_among :: "(axis \<Rightarrow> bool) \<Rightarrow> axis \<Rightarrow> axes \<Rightarrow> nat \<times> nat" where
  "place_among sel a all =
     (let same = filter sel (map the (filter (\<lambda>x. x \<noteq> None) all))
      in (length (takeWhile (\<lambda>b. ax_n b \<noteq> ax_n a) same), length same))"

definition allocateAxisBoxFirstPhase :: "grid_options \<Rightarrow> axes \<Rightarrow> axis \<Rightarrow> plot_geometry \<Rightarrow> axis \<times> plot_geometry" where
  "allocateAxisBoxFirstPhase grid all a g =
     (let pos = opt_position (ax_options a);
          (i, n) = place_among (\<lambda>b. opt_position (ax_options b) = pos \<and> ax_reserveSpace b) a all;
          axismargin = (if int i = int n - 1 then 0 else gr_axisMargin grid);
          tl0 = (case opt_tickLength (ax_options a) of None \<Rightarrow> Full | Some t \<Rightarrow> t);
          innermost = (let (k, m) = place_among ax_reserveSpace a all in k = 0 \<and> 0 < m);
          tl = (if \<not> innermost \<and> tl0 = Full then Len 5 else tl0);
          padding = gr_labelMargin grid + (case tl of Len x \<Rightarrow> x | Full \<Rightarrow> 0);
          lh = ax_labelHeight a + padding; lw = ax_labelWidth a + padding;
          (b, g') =
            (case ax_direction a of
               X \<Rightarrow>
                 if pos = ''bottom'' then
                   (let off = plotBottom g + (lh + axismargin)
                    in (empty_box\<lparr>box_top := canvasHeight g - off, box_height := lh\<rparr>, g\<lparr>plotBottom := off\<rparr>))
                 else
                   (empty_box\<lparr>box_top := plotTop g + axismargin, box_height := lh\<rparr>, g\<lparr>plotTop := plotTop g + (lh + axismargin)\<rparr>)
             | Y \<Rightarrow>
                 if pos = ''left'' then
                   (empty_box\<lparr>box_left := plotLeft g + axismargin, box_width := lw\<rparr>, g\<lparr>plotLeft := plotLeft g + (lw + axismargin)\<rparr>)
                 else
                   (let off = plotRight g + (lw + axismargin)
                    in (empty_box\<lparr>box_left := canvasWidth g - off, box_width := lw\<rparr>, g\<lparr>plotRight := off\<rparr>)))
      in (a\<lparr>ax_box := b\<lparr>box_padding := padding\<rparr>, ax_position := pos, ax_tickLength := tl, ax_innermost := innermost\<rparr>, g'))"

definition allocateAxisBoxSecondPhase :: "plot_geometry \<Rightarrow> axis \<Rightarrow> axis" where
  "allocateAxisBoxSecondPhase g a =
     (case ax_direction a of
        X \<Rightarrow> a\<lparr>ax_box := (ax_box a)\<lparr>box_left := plotLeft g, box_width := plotWidth g\<rparr>\<rparr>
      | Y \<Rightarrow> a\<lparr>ax_box := (ax_box a)\<lparr>box_top := plotTop g, box_height := plotHeight g\<rparr>\<rparr>)"

section \<open>The steps of the layout\<close>

definition show_axis :: "axis \<Rightarrow> axis" where
  "show_axis a =
     (let sh = (case opt_show (ax_options a) of Some b \<Rightarrow> b | None \<Rightarrow> ax_used a)
      in setRange (a\<lparr>ax_show := sh, ax_reserveSpace := (sh \<or> opt_reserveSpace (ax_options a))\<rparr>))"

text \<open>Ticks and label sizes of one axis; a later axis may read the ticks of an earlier one.\<close>

definition prepare_axis :: "(real \<Rightarrow> string) \<Rightarrow> page \<Rightarrow> plot_geometry \<Rightarrow> axes \<Rightarrow> axis \<Rightarrow> axis option" where
  "prepare_axis ns page g all a =
     Option.bind (setupTickGeneration ns (canvasWidth g) (canvasHeight g) all a) (\<lambda>a1.
       map_option (\<lambda>a2. measureTickLabels ns page (canvasWidth g)
           (snapRangeToTicks a2 (case ax_ticks a2 of None \<Rightarrow> [] | Some ts \<Rightarrow> ts)))
         (setTicks all a1))"

fun prepare_axes :: "(real \<Rightarrow> string) \<Rightarrow> page \<Rightarrow> plot_geometry \<Rightarrow> axis_id list \<Rightarrow> axes \<times> axes \<Rightarrow> (axes \<times> axes) option" where
  "prepare_axes ns page g [] p = Some p"
| "prepare_axes ns page g (i # is) p =
     (case get_axis i p of
        None \<Rightarrow> None
      | Some a \<Rightarrow>
          (case prepare_axis ns page g (axes_of (fst i) p) a of
             None \<Rightarrow> None
           | Some a' \<Rightarrow> prepare_axes ns page g is (set_axis a' p)))"

text \<open>The boxes, in the order of the list.\<close>

fun allocate_boxes :: "grid_options \<Rightarrow> axis_id list \<Rightarrow> axes \<times> axes \<Rightarrow> plot_geometry \<Rightarrow> (axes \<times> axes) \<times> plot_geometry" where
  "allocate_boxes grid [] p g = (p, g)"
| "allocate_boxes grid (i # is) p g =
     (case get_axis i p of
        None \<Rightarrow> allocate_boxes grid is p g
      | Some a \<Rightarrow>
          (let (a', g') = allocateAxisBoxFirstPhase grid (axes_of (fst i) p) a g
           in allocate_boxes grid is (set_axis a' p) g'))"

definition min_margin :: "grid_options \<Rightarrow> series list \<Rightarrow> real" where
  "min_margin grid ss =
     (case gr_minBorderMargin grid of
        Some m \<Rightarrow> m
      | None \<Rightarrow> fold (\<lambda>s m. max m (pt_radius (sr_points s) + pt_width (sr_points s) / 2)) ss 0)"

definition add_border :: "grid_options \<Rightarrow> series list \<Rightarrow> plot_geometry \<Rightarrow> plot_geometry" where
  "add_border grid ss g =
     (let m = min_margin grid ss; bw = gr_borderWidth grid
      in g\<lparr>plotLeft := max m (plotLeft g + bw), plotRight := max m (plotRight g + bw),
           plotTop := max m (plotTop g + bw), plotBottom := max m (plotBottom g + bw)\<rparr>)"

definition plot_area :: "plot_geometry \<Rightarrow> plot_geometry" where
  "plot_area g =
     g\<lparr>plotWidth := canvasWidth g - plotLeft g - plotRight g, plotHeight := canvasHeight g - plotBottom g - plotTop g\<rparr>"

definition no_offsets :: "plot_geometry \<Rightarrow> plot_geometry" where
  "no_offsets g = g\<lparr>plotLeft := 0, plotRight := 0, plotTop := 0, plotBottom := 0\<rparr>"

definition on_axes :: "(axis \<Rightarrow> axis) \<Rightarrow> axes \<times> axes \<Rightarrow> axes \<times> axes" where
  "on_axes f p = (map (map_option f) (fst p), map (map_option f) (snd p))"

text \<open>
  The whole: the plot with its new geometry and axes, the markup of the labels (if the grid is
  shown) and the legend. The legend's measured size and computed background are arguments.
\<close>

definition setupGrid ::
  "(real \<Rightarrow> string) \<Rightarrow> page \<Rightarrow> color option \<Rightarrow> real \<times> real \<Rightarrow> plot \<Rightarrow> (plot \<times> markup option \<times> legend) option" where
  "setupGrid ns page computed dims pl =
     (let p1 = on_axes show_axis (pl_xaxes pl, pl_yaxes pl);
          allocated = map axis_id (filter ax_reserveSpace (allAxes (fst p1) (snd p1)));
          g0 = no_offsets (pl_geometry pl)
      in case (if gr_show (pl_grid pl) then
                 map_option (\<lambda>p2. let (p3, g1) = allocate_boxes (pl_grid pl) (rev allocated) p2 g0
                                  in (p3, add_border (pl_grid pl) (pl_series pl) g1))
                   (prepare_axes ns page g0 allocated p1)
               else Some (p1, g0)) of
           None \<Rightarrow> None
         | Some (p4, g2) \<Rightarrow>
             let g = plot_area g2;
                 p5 = on_axes (setTransformationHelpers (plotWidth g) (plotHeight g)) p4;
                 p6 = (if gr_show (pl_grid pl)
                       then on_axes (\<lambda>a. if axis_id a \<in> set allocated then allocateAxisBoxSecondPhase g a else a) p5 else p5);
                 pl' = pl\<lparr>pl_xaxes := fst p6, pl_yaxes := snd p6, pl_geometry := g\<rparr>
             in case (if gr_show (pl_grid pl) then map_option Some (insertAxisLabels ns g (fst p6) (snd p6)) else Some None) of
                  None \<Rightarrow> None
                | Some labels \<Rightarrow>
                    map_option (\<lambda>lg. (pl', labels, lg)) (insertLegend ns (pl_legend pl) (pl_grid pl) g computed dims (pl_series pl)))"

section \<open>Reading back axes\<close>

text \<open>Both arrays are well formed.\<close>

definition both_ok :: "axes \<times> axes \<Rightarrow> bool" where
  "both_ok p \<longleftrightarrow> axes_ok X (fst p) \<and> axes_ok Y (snd p)"

lemma get_axis_id:
  assumes "both_ok p" "get_axis i p = Some a" "0 < snd i"
  shows "axis_id a = i"
  using assms by (cases i; cases "fst i") (auto simp: both_ok_def get_axis_def axes_of_def axes_okI axis_id_def)

lemma axis_at_update: "axis_at (axes[k := v]) j = (if j = k \<and> k < length axes then v else axis_at axes j)"
  by (auto simp: axis_at_def)

lemma get_set_axis:
  assumes "get_axis (axis_id a) p \<noteq> None" "0 < ax_n a" "0 < snd i"
  shows "get_axis i (set_axis a p) = (if i = axis_id a then Some a else get_axis i p)"
  using assms
  by (cases i) (auto simp: get_axis_def set_axis_def axes_of_def axis_id_def axis_at_update axis_at_def split: direction.splits if_splits)

lemma set_axis_ok:
  assumes "both_ok p" "0 < ax_n a"
  shows "both_ok (set_axis a p)"
  using assms by (auto simp: both_ok_def set_axis_def axes_okI axis_at_update split: direction.splits if_splits)

lemma get_on_axes: "get_axis i (on_axes f p) = map_option f (get_axis i p)"
  by (auto simp: get_axis_def on_axes_def axes_of_def axis_at_def split: direction.splits)

lemma on_axes_ok:
  assumes "both_ok p" "\<And>a. ax_n (f a) = ax_n a \<and> ax_direction (f a) = ax_direction a"
  shows "both_ok (on_axes f p)"
  using assms unfolding both_ok_def on_axes_def axes_okI axis_at_def by (fastforce split: if_splits)

section \<open>Strips around the plot area\<close>

text \<open>The side of an axis, and the interval its box occupies across that side.\<close>

definition near_side :: "axis \<Rightarrow> bool" where
  "near_side a \<longleftrightarrow> opt_position (ax_options a) = (case ax_direction a of X \<Rightarrow> ''bottom'' | Y \<Rightarrow> ''left'')"

definition side_of :: "axis \<Rightarrow> direction \<times> bool" where
  "side_of a = (ax_direction a, near_side a)"

definition zone :: "axis \<Rightarrow> real \<times> real" where
  "zone a =
     (case ax_direction a of
        X \<Rightarrow> (box_top (ax_box a), box_top (ax_box a) + box_height (ax_box a))
      | Y \<Rightarrow> (box_left (ax_box a), box_left (ax_box a) + box_width (ax_box a)))"

text \<open>The strip between the edge of the canvas and the plot area at a side.\<close>

definition strip :: "plot_geometry \<Rightarrow> direction \<times> bool \<Rightarrow> real \<times> real" where
  "strip g sd =
     (case sd of
        (X, True) \<Rightarrow> (canvasHeight g - plotBottom g, canvasHeight g)
      | (X, False) \<Rightarrow> (0, plotTop g)
      | (Y, True) \<Rightarrow> (0, plotLeft g)
      | (Y, False) \<Rightarrow> (canvasWidth g - plotRight g, canvasWidth g))"

definition within_interval :: "real \<times> real \<Rightarrow> real \<times> real \<Rightarrow> bool" where
  "within_interval a b \<longleftrightarrow> fst b \<le> fst a \<and> snd a \<le> snd b"

definition apart :: "real \<times> real \<Rightarrow> real \<times> real \<Rightarrow> bool" where
  "apart a b \<longleftrightarrow> snd a \<le> fst b \<or> snd b \<le> fst a"

lemma apart_within: "apart a b \<Longrightarrow> within_interval c b \<Longrightarrow> apart a c"
  by (auto simp: apart_def within_interval_def)

lemma apart_sym: "apart a b = apart b a"
  by (auto simp: apart_def)

lemma within_trans: "within_interval a b \<Longrightarrow> within_interval b c \<Longrightarrow> within_interval a c"
  by (auto simp: within_interval_def)

text \<open>Sizes that are not negative.\<close>

definition roomy :: "grid_options \<Rightarrow> axis \<Rightarrow> bool" where
  "roomy grid a \<longleftrightarrow> 0 \<le> ax_labelWidth a \<and> 0 \<le> ax_labelHeight a \<and> 0 \<le> gr_axisMargin grid \<and> 0 \<le> gr_labelMargin grid
     \<and> (\<forall>x. opt_tickLength (ax_options a) = Some (Len x) \<longrightarrow> 0 \<le> x)"

definition offsets_ok :: "plot_geometry \<Rightarrow> bool" where
  "offsets_ok g \<longleftrightarrow> 0 \<le> plotLeft g \<and> 0 \<le> plotRight g \<and> 0 \<le> plotTop g \<and> 0 \<le> plotBottom g"

lemma first_phase_frame:
  assumes "allocateAxisBoxFirstPhase grid all a g = (a', g')"
  shows "ax_n a' = ax_n a" "ax_direction a' = ax_direction a" "ax_options a' = ax_options a"
    "canvasWidth g' = canvasWidth g" "canvasHeight g' = canvasHeight g" "side_of a' = side_of a" "ax_reserveSpace a' = ax_reserveSpace a"
  using assms by (auto simp: allocateAxisBoxFirstPhase_def side_of_def near_side_def Let_def split: prod.splits direction.splits if_splits)

lemma first_phase_box:
  assumes "allocateAxisBoxFirstPhase grid all a g = (a', g')" "roomy grid a" "offsets_ok g"
  shows "offsets_ok g' \<and> within_interval (zone a') (strip g' (side_of a)) \<and> apart (zone a') (strip g (side_of a))
    \<and> (\<forall>sd. within_interval (strip g sd) (strip g' sd))"
proof -
  define pad where "pad = box_padding (ax_box a')"
  define mg where "mg = (let (i, n) = place_among (\<lambda>b. opt_position (ax_options b) = opt_position (ax_options a) \<and> ax_reserveSpace b) a all
     in if int i = int n - 1 then 0 else gr_axisMargin grid)"
  have pad: "0 \<le> pad" using assms
    by (auto simp: pad_def allocateAxisBoxFirstPhase_def roomy_def Let_def split: prod.splits direction.splits if_splits option.splits tick_length.splits)
  have mg: "0 \<le> mg" using assms(2) by (simp add: mg_def roomy_def split: prod.splits)
  have sizes: "0 \<le> ax_labelWidth a" "0 \<le> ax_labelHeight a" using assms(2) by (simp_all add: roomy_def)
  have g': "g' = (case side_of a of
      (X, True) \<Rightarrow> g\<lparr>plotBottom := plotBottom g + (ax_labelHeight a + pad + mg)\<rparr>
    | (X, False) \<Rightarrow> g\<lparr>plotTop := plotTop g + (ax_labelHeight a + pad + mg)\<rparr>
    | (Y, True) \<Rightarrow> g\<lparr>plotLeft := plotLeft g + (ax_labelWidth a + pad + mg)\<rparr>
    | (Y, False) \<Rightarrow> g\<lparr>plotRight := plotRight g + (ax_labelWidth a + pad + mg)\<rparr>)"
    and z: "zone a' = (case side_of a of
      (X, True) \<Rightarrow> (canvasHeight g - plotBottom g - ax_labelHeight a - pad - mg, canvasHeight g - plotBottom g - mg)
    | (X, False) \<Rightarrow> (plotTop g + mg, plotTop g + mg + ax_labelHeight a + pad)
    | (Y, True) \<Rightarrow> (plotLeft g + mg, plotLeft g + mg + ax_labelWidth a + pad)
    | (Y, False) \<Rightarrow> (canvasWidth g - plotRight g - ax_labelWidth a - pad - mg, canvasWidth g - plotRight g - mg))"
    using assms(1) unfolding pad_def mg_def
    by (auto simp: allocateAxisBoxFirstPhase_def side_of_def near_side_def zone_def Let_def algebra_simps split: prod.splits direction.splits if_splits)
  show ?thesis unfolding g' z using pad mg sizes assms(3)
    by (auto simp: offsets_ok_def strip_def within_interval_def apart_def split: prod.splits direction.splits bool.splits)
qed

text \<open>A symmetric relation on the pairs of a set with one more element.\<close>

lemma pairs_insert:
  assumes "\<forall>k \<in> S. \<forall>j \<in> S. k \<noteq> j \<longrightarrow> P k j" "\<forall>k \<in> S. P i k" "\<And>k j. P k j \<Longrightarrow> P j k"
  shows "\<forall>k \<in> insert i S. \<forall>j \<in> insert i S. k \<noteq> j \<longrightarrow> P k j"
  using assms by blast

text \<open>All the boxes: every one lies in the strip of its side, and two of the same side do not overlap.\<close>

lemma allocate_boxes_strips:
  assumes "allocate_boxes grid is p g = (p', g')" "distinct is" "both_ok p" "offsets_ok g"
    and "\<And>i. i \<in> set is \<Longrightarrow> 0 < snd i \<and> (\<exists>a. get_axis i p = Some a \<and> roomy grid a)"
  shows "both_ok p' \<and> offsets_ok g' \<and> canvasWidth g' = canvasWidth g \<and> canvasHeight g' = canvasHeight g
    \<and> (\<forall>sd. within_interval (strip g sd) (strip g' sd))
    \<and> (\<forall>i. i \<notin> set is \<longrightarrow> 0 < snd i \<longrightarrow> get_axis i p' = get_axis i p)
    \<and> (\<forall>i \<in> set is. \<exists>a b. get_axis i p = Some a \<and> get_axis i p' = Some b \<and> side_of b = side_of a \<and> ax_reserveSpace b = ax_reserveSpace a
         \<and> within_interval (zone b) (strip g' (side_of b)) \<and> apart (zone b) (strip g (side_of b)))
    \<and> (\<forall>i \<in> set is. \<forall>j \<in> set is. i \<noteq> j \<longrightarrow> (\<forall>a b. get_axis i p' = Some a \<longrightarrow> get_axis j p' = Some b
         \<longrightarrow> side_of a = side_of b \<longrightarrow> apart (zone a) (zone b)))"
  using assms
proof (induction "is" arbitrary: p g)
  case Nil
  then show ?case by (simp add: within_interval_def)
next
  case (Cons i "is")
  obtain a where a: "get_axis i p = Some a" "roomy grid a" "0 < snd i"
    using Cons.prems(5) [OF list.set_intros(1)] by blast
  obtain a1 g1 where f: "allocateAxisBoxFirstPhase grid (axes_of (fst i) p) a g = (a1, g1)" by fastforce
  note fr = first_phase_frame [OF f] and bx = first_phase_box [OF f a(2) Cons.prems(4)]
  have id: "axis_id a1 = i" "0 < ax_n a1"
    using get_axis_id [OF Cons.prems(3) a(1,3)] fr(1,2) a(3) by (auto simp: axis_id_def)
  let ?p = "set_axis a1 p"
  have get: "get_axis k ?p = (if k = i then Some a1 else get_axis k p)" if "0 < snd k" for k
    using get_set_axis [of a1 p k] id a(1) that by simp
  have rest: "allocate_boxes grid is ?p g1 = (p', g')" using Cons.prems(1) a(1) f by simp
  have pre: "0 < snd k \<and> (\<exists>b. get_axis k ?p = Some b \<and> roomy grid b)" if "k \<in> set is" for k
    using Cons.prems(2,5) that get [of k] by auto
  note IH = Cons.IH [OF rest _ set_axis_ok [OF Cons.prems(3) id(2)] _ pre]
  have d: "distinct is" "i \<notin> set is" using Cons.prems(2) by simp_all
  note ih = IH [OF d(1) conjunct1 [OF bx]]
  have keep: "get_axis k p' = get_axis k ?p" if "k \<notin> set is" "0 < snd k" for k using ih that by blast
  have ai: "get_axis i p' = Some a1" using keep d(2) get [OF a(3)] a(3) by simp
  have zi: "within_interval (zone a1) (strip g' (side_of a1))"
    using bx ih fr(6) within_trans by metis
  have ot: "\<exists>b c. get_axis k p = Some b \<and> get_axis k p' = Some c \<and> side_of c = side_of b \<and> ax_reserveSpace c = ax_reserveSpace b
      \<and> within_interval (zone c) (strip g' (side_of c)) \<and> apart (zone c) (strip g1 (side_of c))" if "k \<in> set is" for k
  proof -
    have "get_axis k ?p = get_axis k p" using get pre [OF that] that d(2) by auto
    moreover have "\<exists>b c. get_axis k ?p = Some b \<and> get_axis k p' = Some c \<and> side_of c = side_of b \<and> ax_reserveSpace c = ax_reserveSpace b
      \<and> within_interval (zone c) (strip g' (side_of c)) \<and> apart (zone c) (strip g1 (side_of c))" using ih that by blast
    ultimately show ?thesis by simp
  qed
  have "apart (zone a1) (zone c)" if "k \<in> set is" "get_axis k p' = Some c" "side_of c = side_of a1" for k c
  proof -
    have "apart (zone c) (strip g1 (side_of a1))" using ot [OF that(1)] that(2,3) by auto
    then show ?thesis using bx fr(6) apart_within apart_sym by metis
  qed
  then have pair: "\<forall>k \<in> set is. \<forall>c. get_axis k p' = Some c \<longrightarrow> side_of c = side_of a1 \<longrightarrow> apart (zone a1) (zone c)" by blast
  have apart_g: "apart (zone c) (strip g (side_of c))" if "k \<in> set is" "get_axis k p' = Some c" for k c
    using ot [OF that(1)] that(2) bx apart_within by fastforce
  have strips: "\<forall>sd. within_interval (strip g sd) (strip g' sd)" using bx ih within_trans by blast
  show ?case
  proof (intro conjI)
    show "\<forall>k. k \<notin> set (i # is) \<longrightarrow> 0 < snd k \<longrightarrow> get_axis k p' = get_axis k p" using keep get by simp
    show "\<forall>k \<in> set (i # is). \<exists>b c. get_axis k p = Some b \<and> get_axis k p' = Some c \<and> side_of c = side_of b \<and> ax_reserveSpace c = ax_reserveSpace b
        \<and> within_interval (zone c) (strip g' (side_of c)) \<and> apart (zone c) (strip g (side_of c))"
      using a(1) ai zi fr(6,7) bx ot apart_g by fastforce
    show "\<forall>k \<in> set (i # is). \<forall>j \<in> set (i # is). k \<noteq> j \<longrightarrow> (\<forall>b c. get_axis k p' = Some b \<longrightarrow> get_axis j p' = Some c
        \<longrightarrow> side_of b = side_of c \<longrightarrow> apart (zone b) (zone c))"
      unfolding list.set using ih pair ai apart_sym
      by (intro pairs_insert [where P = "\<lambda>k j. \<forall>b c. get_axis k p' = Some b \<longrightarrow> get_axis j p' = Some c
        \<longrightarrow> side_of b = side_of c \<longrightarrow> apart (zone b) (zone c)"]) (blast, simp, metis)
  qed (use ih fr strips in auto)
qed

section \<open>Preparing the axes\<close>

named_theorems axis_frame "what the steps of the layout keep of an axis"

text \<open>The part of an axis that preparing its ticks does not touch.\<close>

definition same_frame :: "axis \<Rightarrow> axis \<Rightarrow> bool" where
  "same_frame a b \<longleftrightarrow> ax_n b = ax_n a \<and> ax_direction b = ax_direction a \<and> ax_options b = ax_options a \<and> ax_reserveSpace b = ax_reserveSpace a"

lemma same_frame_refl [simp]: "same_frame a a"
  by (simp add: same_frame_def)

lemma same_frame_trans: "same_frame a b \<Longrightarrow> same_frame b c \<Longrightarrow> same_frame a c"
  by (simp add: same_frame_def)

lemma base_generation_frame: "base_generation delta a = Some b \<Longrightarrow> same_frame a b"
  by (auto simp: base_generation_def same_frame_def Let_def split: if_splits prod.splits)

lemma widen_to_ticks_frame: "same_frame a (widen_to_ticks ts a)"
  by (simp add: widen_to_ticks_def same_frame_def Let_def)

lemma extra_decimal_frame:
  assumes "extra_decimal ns delta ts a = Some b"
  shows "same_frame a b"
proof -
  define e where "e = max 0 (- log10_floor delta + 1)"
  define r where "r = toFixed (ts ! 1 - ts ! 0) e"
  show ?thesis using assms unfolding extra_decimal_def Let_def e_def [symmetric] r_def [symmetric]
    by (auto simp: same_frame_def split: if_splits)
qed

lemma same_frame_generator [simp]:
  "same_frame a (b\<lparr>ax_tickGenerator := k\<rparr>) = same_frame a b" "same_frame a (b\<lparr>ax_tickFormatter := f\<rparr>) = same_frame a b"
  by (simp_all add: same_frame_def)

lemma align_ticks_frame:
  assumes "align_ticks ns delta all a = Some b"
  shows "same_frame a b"
proof (cases "a = b")
  case False
  then obtain k nice ts where "extra_decimal ns delta ts ((widen_to_ticks nice a)\<lparr>ax_tickGenerator := TicksOf k\<rparr>) = Some b"
    using assms unfolding align_ticks_def Let_def by (auto simp: bind_eq_Some_conv split: option.splits if_splits)
  then have "same_frame ((widen_to_ticks nice a)\<lparr>ax_tickGenerator := TicksOf k\<rparr>) b" by (rule extra_decimal_frame)
  then show ?thesis using widen_to_ticks_frame same_frame_trans same_frame_generator(1) by blast
qed simp

lemma setupTickGeneration_frame:
  assumes "setupTickGeneration ns w h all a = Some b"
  shows "same_frame a b"
proof -
  obtain a1 a2 where a: "base_generation (tick_delta w h a) a = Some a1" "align_ticks ns (tick_delta w h a) all a1 = Some a2"
    "b = (if opt_tickFormatter (ax_options a) \<noteq> None then a2\<lparr>ax_tickFormatter := OptionFormat\<rparr> else a2)"
    using assms unfolding setupTickGeneration_def Let_def bind_eq_Some_conv by auto
  then have "same_frame a a2" using base_generation_frame align_ticks_frame same_frame_trans by blast
  then show ?thesis using a(3) by simp
qed

lemma setTicks_frame: "setTicks all a = Some b \<Longrightarrow> same_frame a b"
  by (auto simp: setTicks_def bind_eq_Some_conv same_frame_def)

lemma snapRangeToTicks_frame: "same_frame a (snapRangeToTicks a ts)"
  by (simp add: snapRangeToTicks_def same_frame_def Let_def)

lemma measureTickLabels_frame: "same_frame a (measureTickLabels ns page w a)"
  by (simp add: measureTickLabels_def same_frame_def Let_def split: direction.split)

lemma prepare_axis_frame: "prepare_axis ns page g all a = Some b \<Longrightarrow> same_frame a b"
  unfolding prepare_axis_def
  by (auto simp: bind_eq_Some_conv) (meson setupTickGeneration_frame setTicks_frame snapRangeToTicks_frame measureTickLabels_frame same_frame_trans)

text \<open>Sizes of the options and of the page that are not negative.\<close>

definition sizes_ok :: "page \<Rightarrow> grid_options \<Rightarrow> axis_options \<Rightarrow> bool" where
  "sizes_ok page grid opts \<longleftrightarrow>
     (\<forall>m. 0 \<le> pg_height page m \<and> 0 \<le> pg_child_width page m \<and> 0 \<le> pg_label_height page m)
     \<and> 0 \<le> gr_axisMargin grid \<and> 0 \<le> gr_labelMargin grid \<and> 0 \<le> gr_borderWidth grid
     \<and> (\<forall>x. opt_labelWidth opts = Some x \<longrightarrow> 0 \<le> x) \<and> (\<forall>x. opt_labelHeight opts = Some x \<longrightarrow> 0 \<le> x)
     \<and> (\<forall>x. opt_tickLength opts = Some (Len x) \<longrightarrow> 0 \<le> x)"

lemma measureTickLabels_roomy:
  assumes "sizes_ok page grid (ax_options a)" "0 \<le> w"
  shows "roomy grid (measureTickLabels ns page w a)"
proof -
  have "0 \<le> ax_labelWidth (measureTickLabels ns page w a)" "0 \<le> ax_labelHeight (measureTickLabels ns page w a)"
    using assms by (auto simp: measureTickLabels_def sizes_ok_def Let_def split: direction.split option.split)
  moreover have "ax_options (measureTickLabels ns page w a) = ax_options a" using measureTickLabels_frame by (simp add: same_frame_def)
  ultimately show ?thesis using assms(1) by (simp add: roomy_def sizes_ok_def)
qed

lemma prepare_axis_roomy:
  assumes "prepare_axis ns page g all a = Some b" "sizes_ok page grid (ax_options a)" "0 \<le> canvasWidth g"
  shows "roomy grid b"
proof -
  obtain c where "b = measureTickLabels ns page (canvasWidth g) c"
    using assms(1) by (auto simp: prepare_axis_def bind_eq_Some_conv)
  moreover from this have "ax_options c = ax_options a"
    using prepare_axis_frame [OF assms(1)] measureTickLabels_frame [of c ns page "canvasWidth g"] by (simp add: same_frame_def)
  ultimately show ?thesis using measureTickLabels_roomy assms(2,3) by metis
qed

lemma prepare_axes_ok:
  assumes "prepare_axes ns page g is p = Some p'" "both_ok p" "distinct is" "0 \<le> canvasWidth g"
    and "\<And>i. i \<in> set is \<Longrightarrow> 0 < snd i \<and> (\<exists>a. get_axis i p = Some a \<and> sizes_ok page grid (ax_options a))"
  shows "both_ok p' \<and> (\<forall>i. i \<notin> set is \<longrightarrow> 0 < snd i \<longrightarrow> get_axis i p' = get_axis i p)
    \<and> (\<forall>i \<in> set is. \<exists>a b. get_axis i p = Some a \<and> get_axis i p' = Some b \<and> same_frame a b \<and> roomy grid b)"
  using assms
proof (induction "is" arbitrary: p)
  case (Cons i "is")
  obtain a where a: "get_axis i p = Some a" "sizes_ok page grid (ax_options a)" "0 < snd i"
    using Cons.prems(5) [OF list.set_intros(1)] by blast
  obtain b where b: "prepare_axis ns page g (axes_of (fst i) p) a = Some b" and rest: "prepare_axes ns page g is (set_axis b p) = Some p'"
    using Cons.prems(1) a(1) by (auto split: option.splits)
  have fr: "same_frame a b" by (rule prepare_axis_frame [OF b])
  then have id: "axis_id b = i" "0 < ax_n b"
    using get_axis_id [OF Cons.prems(2) a(1,3)] a(3) by (auto simp: axis_id_def same_frame_def)
  have get: "get_axis k (set_axis b p) = (if k = i then Some b else get_axis k p)" if "0 < snd k" for k
    using get_set_axis [of b p k] id a(1) that by simp
  have pre: "0 < snd k \<and> (\<exists>c. get_axis k (set_axis b p) = Some c \<and> sizes_ok page grid (ax_options c))" if "k \<in> set is" for k
    using Cons.prems(3) Cons.prems(5) [of k] that get [of k] by auto
  have d: "distinct is" "i \<notin> set is" using Cons.prems(3) by simp_all
  note ih = Cons.IH [OF rest set_axis_ok [OF Cons.prems(2) id(2)] d(1) Cons.prems(4) pre]
  have keep: "get_axis k p' = get_axis k (set_axis b p)" if "k \<notin> set is" "0 < snd k" for k using ih that by blast
  have "\<exists>c e. get_axis k p = Some c \<and> get_axis k p' = Some e \<and> same_frame c e \<and> roomy grid e" if "k \<in> set is" for k
  proof -
    have "get_axis k (set_axis b p) = get_axis k p" using get pre [OF that] that d(2) by auto
    moreover have "\<exists>c e. get_axis k (set_axis b p) = Some c \<and> get_axis k p' = Some e \<and> same_frame c e \<and> roomy grid e" using ih that by blast
    ultimately show ?thesis by simp
  qed
  moreover have "get_axis i p' = Some b" using keep d(2) a(3) get by simp
  moreover have "roomy grid b" by (rule prepare_axis_roomy [OF b a(2) Cons.prems(4)])
  moreover have "both_ok p'" using ih by blast
  ultimately show ?case using keep get a(1) fr by simp
qed simp

section \<open>The layout of a plot\<close>

text \<open>The axes of both arrays are told apart by direction and number.\<close>

lemma axes_ids:
  assumes "axes_ok d axes"
  shows "map axis_id (map the (filter (\<lambda>a. a \<noteq> None) axes)) = map (\<lambda>i. (d, Suc i)) (filter (\<lambda>i. axes ! i \<noteq> None) [0..<length axes])"
proof -
  have "filter (\<lambda>a. a \<noteq> None) axes = map ((!) axes) (filter (\<lambda>i. axes ! i \<noteq> None) [0..<length axes])"
    by (subst map_nth [of axes, symmetric], subst filter_map) (simp add: comp_def)
  moreover have "axis_id (the (axes ! i)) = (d, Suc i)" if "i < length axes" "axes ! i \<noteq> None" for i
    using assms that by (auto simp: axes_ok_def axis_id_def)
  ultimately show ?thesis by simp
qed

lemma all_ids_distinct:
  assumes "both_ok p"
  shows "distinct (map axis_id (allAxes (fst p) (snd p)))"
proof -
  have ok: "axes_ok X (fst p)" "axes_ok Y (snd p)" using assms by (simp_all add: both_ok_def)
  show ?thesis unfolding allAxes_def filter_append map_append axes_ids [OF ok(1)] axes_ids [OF ok(2)]
    by (auto simp: distinct_map inj_on_def)
qed

lemma get_axis_mem:
  assumes "both_ok p"
  shows "a \<in> set (allAxes (fst p) (snd p)) \<longleftrightarrow> get_axis (axis_id a) p = Some a \<and> 0 < ax_n a"
proof -
  have one: "Some a \<in> set axes \<longleftrightarrow> axis_at axes (ax_n a - 1) = Some a \<and> 0 < ax_n a \<and> ax_direction a = d"
    if "axes_ok d axes" for d axes
  proof
    assume "Some a \<in> set axes"
    then obtain i where i: "i < length axes" "axes ! i = Some a" by (auto simp: in_set_conv_nth)
    then have at: "axis_at axes i = Some a" by (simp add: axis_at_def)
    then have "ax_n a = Suc i" "ax_direction a = d" using that unfolding axes_okI by blast+
    then show "axis_at axes (ax_n a - 1) = Some a \<and> 0 < ax_n a \<and> ax_direction a = d" using at by simp
  next
    assume "axis_at axes (ax_n a - 1) = Some a \<and> 0 < ax_n a \<and> ax_direction a = d"
    then have "ax_n a - 1 < length axes" "axes ! (ax_n a - 1) = Some a" by (simp_all add: axis_at_def split: if_splits)
    then show "Some a \<in> set axes" using nth_mem [of "ax_n a - 1" axes] by simp
  qed
  have some: "a \<in> set (map the (filter (\<lambda>x. x \<noteq> None) xs)) \<longleftrightarrow> Some a \<in> set xs" for xs
    by (auto simp: image_iff)
  have "a \<in> set (allAxes (fst p) (snd p)) \<longleftrightarrow> Some a \<in> set (fst p) \<or> Some a \<in> set (snd p)"
    using some [of "fst p @ snd p"] by (simp only: allAxes_def set_append Un_iff)
  also have "\<dots> \<longleftrightarrow> (axis_at (fst p) (ax_n a - 1) = Some a \<and> ax_direction a = X \<or> axis_at (snd p) (ax_n a - 1) = Some a \<and> ax_direction a = Y) \<and> 0 < ax_n a"
    using one [of X "fst p"] one [of Y "snd p"] assms unfolding both_ok_def by blast
  also have "\<dots> \<longleftrightarrow> get_axis (axis_id a) p = Some a \<and> 0 < ax_n a"
    by (cases "ax_direction a") (simp_all add: get_axis_def axis_id_def axes_of_def)
  finally show ?thesis .
qed

lemma show_axis_frame: "ax_n (show_axis a) = ax_n a" "ax_direction (show_axis a) = ax_direction a" "ax_options (show_axis a) = ax_options a"
  by (simp_all add: show_axis_def Let_def)

lemma strip_border:
  assumes "0 \<le> gr_borderWidth grid"
  shows "within_interval (strip g sd) (strip (plot_area (add_border grid ss g)) sd)"
  using assms by (cases sd) (auto simp: strip_def within_interval_def plot_area_def add_border_def Let_def split: direction.split bool.split)

lemma final_zone:
  "zone (allocateAxisBoxSecondPhase g (setTransformationHelpers w h a)) = zone a"
  "side_of (allocateAxisBoxSecondPhase g (setTransformationHelpers w h a)) = side_of a"
  "ax_reserveSpace (allocateAxisBoxSecondPhase g (setTransformationHelpers w h a)) = ax_reserveSpace a"
  by (auto simp: allocateAxisBoxSecondPhase_def setTransformationHelpers_def zone_def side_of_def near_side_def Let_def split: direction.split)

lemma second_phase_axes:
  assumes "get_axis i p = Some a" "axis_id a = i"
  shows "get_axis i (on_axes (\<lambda>a. if axis_id a \<in> set ids then allocateAxisBoxSecondPhase g a else a) (on_axes (setTransformationHelpers w h) p))
    = Some (if i \<in> set ids then allocateAxisBoxSecondPhase g (setTransformationHelpers w h a) else setTransformationHelpers w h a)"
  using assms by (simp add: get_on_axes axis_id_def)

section \<open>The steps of the layout\<close>

text \<open>
  The axes with their initial range, the axes for which space is reserved, the axes with ticks and the space taken by their boxes, and
  the last loop over the axes.
\<close>

definition shown_axes :: "plot \<Rightarrow> axes \<times> axes" where
  "shown_axes pl = on_axes show_axis (pl_xaxes pl, pl_yaxes pl)"

definition box_ids :: "plot \<Rightarrow> axis_id list" where
  "box_ids pl = map axis_id (filter ax_reserveSpace (allAxes (fst (shown_axes pl)) (snd (shown_axes pl))))"

definition boxed_axes :: "(real \<Rightarrow> string) \<Rightarrow> page \<Rightarrow> plot \<Rightarrow> ((axes \<times> axes) \<times> plot_geometry) option" where
  "boxed_axes ns page pl =
     (if gr_show (pl_grid pl) then
        map_option (\<lambda>p2. let (p3, g1) = allocate_boxes (pl_grid pl) (rev (box_ids pl)) p2 (no_offsets (pl_geometry pl))
                         in (p3, add_border (pl_grid pl) (pl_series pl) g1))
          (prepare_axes ns page (no_offsets (pl_geometry pl)) (box_ids pl) (shown_axes pl))
      else Some (shown_axes pl, no_offsets (pl_geometry pl)))"

definition finish_axes :: "bool \<Rightarrow> axis_id list \<Rightarrow> plot_geometry \<Rightarrow> axes \<times> axes \<Rightarrow> axes \<times> axes" where
  "finish_axes show ids g p =
     (let p5 = on_axes (setTransformationHelpers (plotWidth g) (plotHeight g)) p
      in if show then on_axes (\<lambda>a. if axis_id a \<in> set ids then allocateAxisBoxSecondPhase g a else a) p5 else p5)"

lemma setupGrid_steps:
  "setupGrid ns page computed dims pl =
     (case boxed_axes ns page pl of
        None \<Rightarrow> None
      | Some (p4, g2) \<Rightarrow>
          let p6 = finish_axes (gr_show (pl_grid pl)) (box_ids pl) (plot_area g2) p4
          in case (if gr_show (pl_grid pl) then map_option Some (insertAxisLabels ns (plot_area g2) (fst p6) (snd p6)) else Some None) of
               None \<Rightarrow> None
             | Some labels \<Rightarrow>
                 map_option (\<lambda>lg. (pl\<lparr>pl_xaxes := fst p6, pl_yaxes := snd p6, pl_geometry := plot_area g2\<rparr>, labels, lg))
                   (insertLegend ns (pl_legend pl) (pl_grid pl) (plot_area g2) computed dims (pl_series pl)))"
  unfolding setupGrid_def boxed_axes_def finish_axes_def box_ids_def shown_axes_def Let_def by (rule refl)

lemma setupGrid_result:
  assumes "setupGrid ns page computed dims pl = Some (pl', labels, lg)"
  obtains p4 g2 where "boxed_axes ns page pl = Some (p4, g2)"
    and "pl' = pl\<lparr>pl_xaxes := pl_xaxes pl', pl_yaxes := pl_yaxes pl', pl_geometry := plot_area g2\<rparr>"
    and "(pl_xaxes pl', pl_yaxes pl') = finish_axes (gr_show (pl_grid pl)) (box_ids pl) (plot_area g2) p4"
proof -
  obtain p4 g2 where b: "boxed_axes ns page pl = Some (p4, g2)"
    using assms unfolding setupGrid_steps by (auto split: option.splits)
  let ?p6 = "finish_axes (gr_show (pl_grid pl)) (box_ids pl) (plot_area g2) p4"
  have "pl' = pl\<lparr>pl_xaxes := fst ?p6, pl_yaxes := snd ?p6, pl_geometry := plot_area g2\<rparr>"
    using assms unfolding setupGrid_steps b option.case prod.case Let_def by (auto split: option.splits)
  then show ?thesis using that [OF b] by simp
qed

lemma boxed_axes_shown:
  assumes "gr_show (pl_grid pl)" "boxed_axes ns page pl = Some (p4, g2)"
  obtains p2 g1 where "prepare_axes ns page (no_offsets (pl_geometry pl)) (box_ids pl) (shown_axes pl) = Some p2"
    and "allocate_boxes (pl_grid pl) (rev (box_ids pl)) p2 (no_offsets (pl_geometry pl)) = (p4, g1)"
    and "g2 = add_border (pl_grid pl) (pl_series pl) g1"
proof -
  obtain p2 where p2: "prepare_axes ns page (no_offsets (pl_geometry pl)) (box_ids pl) (shown_axes pl) = Some p2"
    using assms unfolding boxed_axes_def by (cases "prepare_axes ns page (no_offsets (pl_geometry pl)) (box_ids pl) (shown_axes pl)") simp_all
  obtain p3 g1 where p3: "allocate_boxes (pl_grid pl) (rev (box_ids pl)) p2 (no_offsets (pl_geometry pl)) = (p3, g1)" by fastforce
  have "p3 = p4" "g2 = add_border (pl_grid pl) (pl_series pl) g1" using assms p2 p3 by (simp_all add: boxed_axes_def)
  then show ?thesis using that p2 p3 by blast
qed

lemma shown_axes_ok: "both_ok (pl_xaxes pl, pl_yaxes pl) \<Longrightarrow> both_ok (shown_axes pl)"
  unfolding shown_axes_def by (rule on_axes_ok) (simp_all add: show_axis_frame)

lemma box_ids_distinct: "both_ok (pl_xaxes pl, pl_yaxes pl) \<Longrightarrow> distinct (box_ids pl)"
  unfolding box_ids_def using all_ids_distinct [OF shown_axes_ok] by (simp add: distinct_map_filter)

lemma box_ids_iff:
  assumes "both_ok (pl_xaxes pl, pl_yaxes pl)"
  shows "i \<in> set (box_ids pl) \<longleftrightarrow> (\<exists>a. get_axis i (shown_axes pl) = Some a \<and> ax_reserveSpace a \<and> 0 < snd i)"
proof -
  note ok = shown_axes_ok [OF assms]
  have "get_axis i (shown_axes pl) = Some a \<and> 0 < snd i \<longleftrightarrow> i = axis_id a \<and> a \<in> set (allAxes (fst (shown_axes pl)) (snd (shown_axes pl)))" for a
    using get_axis_id [OF ok, of i a] get_axis_mem [OF ok, of a] by (auto simp: axis_id_def)
  then show ?thesis unfolding box_ids_def by fastforce
qed

lemma box_ids_axis:
  assumes "both_ok (pl_xaxes pl, pl_yaxes pl)" "i \<in> set (box_ids pl)"
  shows "0 < snd i \<and> (\<exists>a. a \<in> set (allAxes (pl_xaxes pl) (pl_yaxes pl)) \<and> get_axis i (shown_axes pl) = Some (show_axis a))"
proof -
  obtain b where b: "get_axis i (shown_axes pl) = Some b" "0 < snd i" using box_ids_iff [OF assms(1)] assms(2) by blast
  then obtain a where a: "get_axis i (pl_xaxes pl, pl_yaxes pl) = Some a" "b = show_axis a" by (auto simp: shown_axes_def get_on_axes)
  have "axis_id a = i" by (rule get_axis_id [OF assms(1) a(1) b(2)])
  then have "a \<in> set (allAxes (pl_xaxes pl) (pl_yaxes pl))" using get_axis_mem [OF assms(1), of a] a(1) b(2) by (auto simp: axis_id_def)
  then show ?thesis using a(2) b by blast
qed

lemma finish_axes_ok: "both_ok p \<Longrightarrow> both_ok (finish_axes show ids g p)"
  unfolding finish_axes_def Let_def
  by (auto intro!: on_axes_ok simp: allocateAxisBoxSecondPhase_def split: direction.split)

text \<open>An axis that has space in the end had space before its box was placed.\<close>

lemma finished_zone:
  assumes "both_ok (pl_xaxes pl, pl_yaxes pl)" "both_ok p4" "\<forall>i. i \<notin> set (box_ids pl) \<longrightarrow> 0 < snd i \<longrightarrow> get_axis i p4 = get_axis i (shown_axes pl)"
    and "p6 = finish_axes True (box_ids pl) g p4" "a \<in> set (allAxes (fst p6) (snd p6))" "ax_reserveSpace a"
  shows "\<exists>c. get_axis (axis_id a) p4 = Some c \<and> axis_id a \<in> set (box_ids pl) \<and> zone a = zone c \<and> side_of a = side_of c"
proof -
  let ?i = "axis_id a"
  have i: "get_axis ?i p6 = Some a" "0 < snd ?i"
    using assms(5) get_axis_mem [OF finish_axes_ok [OF assms(2)], of a True "box_ids pl" g] unfolding assms(4) by (auto simp: axis_id_def)
  then obtain c where c: "get_axis ?i p4 = Some c" by (auto simp: assms(4) finish_axes_def Let_def get_on_axes)
  have "axis_id c = ?i" by (rule get_axis_id [OF assms(2) c i(2)])
  then have e: "a = (if ?i \<in> set (box_ids pl) then allocateAxisBoxSecondPhase g (setTransformationHelpers (plotWidth g) (plotHeight g) c)
      else setTransformationHelpers (plotWidth g) (plotHeight g) c)"
    using i(1) second_phase_axes [OF c, of "box_ids pl" g "plotWidth g" "plotHeight g"] unfolding assms(4) finish_axes_def Let_def by simp
  have "?i \<in> set (box_ids pl)"
  proof (rule ccontr)
    assume n: "?i \<notin> set (box_ids pl)"
    then have "a = setTransformationHelpers (plotWidth g) (plotHeight g) c" using e by simp
    then have "ax_reserveSpace c" using assms(6) by (simp add: setTransformationHelpers_def Let_def)
    moreover have "get_axis ?i (shown_axes pl) = Some c" using assms(3) n i(2) c by metis
    ultimately show False using n box_ids_iff [OF assms(1)] i(2) by blast
  qed
  then have "zone a = zone c" "side_of a = side_of c" using e final_zone by (metis (full_types))+
  then show ?thesis using c \<open>?i \<in> set (box_ids pl)\<close> by blast
qed

text \<open>
  C7. The layout of a plot with a grid. The plot area and the offsets at its four sides fill the canvas exactly. Every axis for which
  space is reserved has its box in the strip between the canvas and the plot area, at its own side, and two boxes
  at the same side do not overlap, however many axes there are and whatever the browser measures for the labels.
\<close>

theorem setupGrid_boxes:
  assumes "setupGrid ns page computed dims pl = Some (pl', labels, lg)" "gr_show (pl_grid pl)"
    and "axes_ok X (pl_xaxes pl)" "axes_ok Y (pl_yaxes pl)" "0 \<le> canvasWidth (pl_geometry pl)"
    and "\<And>a. a \<in> set (allAxes (pl_xaxes pl) (pl_yaxes pl)) \<Longrightarrow> sizes_ok page (pl_grid pl) (ax_options a)"
  shows "(let g = pl_geometry pl' in plotLeft g + plotWidth g + plotRight g = canvasWidth g \<and> plotTop g + plotHeight g + plotBottom g = canvasHeight g
      \<and> canvasWidth g = canvasWidth (pl_geometry pl) \<and> canvasHeight g = canvasHeight (pl_geometry pl))
    \<and> (\<forall>a b. a \<in> set (allAxes (pl_xaxes pl') (pl_yaxes pl')) \<longrightarrow> b \<in> set (allAxes (pl_xaxes pl') (pl_yaxes pl'))
        \<longrightarrow> ax_reserveSpace a \<longrightarrow> ax_reserveSpace b
        \<longrightarrow> within_interval (zone a) (strip (pl_geometry pl') (side_of a)) \<and> (axis_id a \<noteq> axis_id b \<longrightarrow> side_of a = side_of b \<longrightarrow> apart (zone a) (zone b)))"
proof -
  let ?g0 = "no_offsets (pl_geometry pl)" and ?ids = "box_ids pl" and ?all = "allAxes (pl_xaxes pl') (pl_yaxes pl')"
  obtain p4 g2 where p4: "boxed_axes ns page pl = Some (p4, g2)"
    and pl': "pl' = pl\<lparr>pl_xaxes := pl_xaxes pl', pl_yaxes := pl_yaxes pl', pl_geometry := plot_area g2\<rparr>"
    and p6: "(pl_xaxes pl', pl_yaxes pl') = finish_axes True ?ids (plot_area g2) p4"
    using setupGrid_result [OF assms(1)] assms(2) by metis
  obtain p2 g1 where p2: "prepare_axes ns page ?g0 ?ids (shown_axes pl) = Some p2"
    and p3: "allocate_boxes (pl_grid pl) (rev ?ids) p2 ?g0 = (p4, g1)" and g2: "g2 = add_border (pl_grid pl) (pl_series pl) g1"
    by (rule boxed_axes_shown [OF assms(2) p4])
  have g: "pl_geometry pl' = plot_area (add_border (pl_grid pl) (pl_series pl) g1)" using arg_cong [OF pl', of pl_geometry] g2 by simp
  have ok: "both_ok (pl_xaxes pl, pl_yaxes pl)" using assms(3,4) by (simp add: both_ok_def)
  have pre: "0 < snd i \<and> (\<exists>a. get_axis i (shown_axes pl) = Some a \<and> sizes_ok page (pl_grid pl) (ax_options a))" if "i \<in> set ?ids" for i
    using box_ids_axis [OF ok that] assms(6) by (auto simp: show_axis_frame)
  have g0: "0 \<le> canvasWidth ?g0" "offsets_ok ?g0" using assms(5) by (simp_all add: no_offsets_def offsets_ok_def)
  note prep = prepare_axes_ok [OF p2 shown_axes_ok [OF ok] box_ids_distinct [OF ok] g0(1) pre]
  have "\<exists>a. get_axis i p2 = Some a \<and> roomy (pl_grid pl) a" if "i \<in> set (rev ?ids)" for i using prep that by fastforce
  then have room: "0 < snd i \<and> (\<exists>a. get_axis i p2 = Some a \<and> roomy (pl_grid pl) a)" if "i \<in> set (rev ?ids)" for i
    using that pre by simp
  have "distinct (rev ?ids)" using box_ids_distinct [OF ok] by simp
  note boxes = allocate_boxes_strips [OF p3 this conjunct1 [OF prep] g0(2) room]
  have kept: "\<forall>i. i \<notin> set ?ids \<longrightarrow> 0 < snd i \<longrightarrow> get_axis i p4 = get_axis i (shown_axes pl)" using boxes prep by (metis set_rev)
  have final: "\<exists>c. get_axis (axis_id a) p4 = Some c \<and> axis_id a \<in> set ?ids \<and> zone a = zone c \<and> side_of a = side_of c"
    if "a \<in> set ?all" "ax_reserveSpace a" for a
    using finished_zone [OF ok conjunct1 [OF boxes] kept p6] that by simp
  have "within_interval (zone a) (strip (pl_geometry pl') (side_of a))" if m: "a \<in> set ?all" "ax_reserveSpace a" for a
  proof -
    obtain c where c: "get_axis (axis_id a) p4 = Some c" "axis_id a \<in> set ?ids" "zone a = zone c" "side_of a = side_of c"
      using final [OF m] by blast
    have bw: "0 \<le> gr_borderWidth (pl_grid pl)" using pre [OF c(2)] by (auto simp: sizes_ok_def)
    have "within_interval (zone c) (strip g1 (side_of c))" using boxes c(1,2) by fastforce
    then show ?thesis unfolding c(3,4) g using strip_border [OF bw] within_trans by blast
  qed
  moreover have "apart (zone a) (zone b)"
    if m: "a \<in> set ?all" "ax_reserveSpace a" "b \<in> set ?all" "ax_reserveSpace b" "axis_id a \<noteq> axis_id b" "side_of a = side_of b" for a b
  proof -
    obtain c e where c: "get_axis (axis_id a) p4 = Some c" "axis_id a \<in> set ?ids" "zone a = zone c" "side_of a = side_of c"
      and e: "get_axis (axis_id b) p4 = Some e" "axis_id b \<in> set ?ids" "zone b = zone e" "side_of b = side_of e"
      using final [OF m(1,2)] final [OF m(3,4)] by blast
    then show ?thesis using boxes m(5,6) by (metis set_rev)
  qed
  moreover have "canvasWidth g1 = canvasWidth ?g0" "canvasHeight g1 = canvasHeight ?g0" using boxes by blast+
  ultimately show ?thesis unfolding g by (auto simp: plot_area_def add_border_def Let_def no_offsets_def)
qed

text \<open>A plot with one axis of each direction and no ticks.\<close>

definition plain_axis :: "direction \<Rightarrow> string \<Rightarrow> axis" where
  "plain_axis d pos =
     new_axis 1 d (demo_options\<lparr>opt_show := Some True, opt_position := pos, opt_min := Some 0, opt_max := Some 10, opt_ticks := NoTicks\<rparr>)"

definition demo_plot :: plot where
  "demo_plot =
     \<lparr>pl_grid = default_grid, pl_legend = default_legend\<lparr>lg_show := False\<rparr>, pl_series = [demo_series\<lparr>dp_pointsize := Some 2\<rparr>],
      pl_xaxes = [Some (plain_axis X ''bottom'')], pl_yaxes = [Some (plain_axis Y ''left'')],
      pl_geometry = \<lparr>plotLeft = 0, plotTop = 0, plotWidth = 0, plotHeight = 0, plotRight = 0, plotBottom = 0,
        canvasWidth = 400, canvasHeight = 300\<rparr>\<rparr>"

definition demo_page :: page where
  "demo_page = \<lparr>pg_height = (\<lambda>_. 12), pg_child_width = (\<lambda>_. 30), pg_label_height = (\<lambda>_. 12)\<rparr>"

lemma prepare_plain_axis:
  assumes "canvasWidth g = 400" "canvasHeight g = 300"
  shows "\<exists>a. prepare_axis ns page g all (show_axis (plain_axis d pos)) = Some a \<and> ax_ticks a = Some []
    \<and> ax_n a = 1 \<and> ax_direction a = d \<and> ax_min a = 0 \<and> ax_max a = 10"
proof -
  let ?a = "show_axis (plain_axis d pos)"
  have "0 < tick_delta 400 300 ?a"
    by (cases d) (simp_all add: tick_delta_def noTicks_def show_axis_def plain_axis_def new_axis_def demo_options_def setRange_def Let_def)
  moreover have o: "\<not> opt_time (ax_options ?a)" "opt_alignTicksWithAxis (ax_options ?a) = None" "opt_tickFormatter (ax_options ?a) = None"
      "opt_ticks (ax_options ?a) = NoTicks" "opt_autoscaleMargin (ax_options ?a) = None" "ax_n ?a = 1" "ax_direction ?a = d"
      "ax_min ?a = 0" "ax_max ?a = 10"
    by (simp_all add: show_axis_def plain_axis_def new_axis_def demo_options_def Let_def setRange_def)
  moreover obtain sz dc where "decimal_size (tick_delta 400 300 ?a) (ax_options ?a) = (sz, dc)" by fastforce
  ultimately obtain b where b: "setupTickGeneration ns 400 300 all ?a = Some b" "ax_options b = ax_options ?a" "ax_n b = 1"
      "ax_direction b = d" "ax_min b = 0" "ax_max b = 10"
    by (simp add: setupTickGeneration_def base_generation_def align_ticks_def Let_def)
  have "opt_ticks (ax_options b) = NoTicks" "opt_autoscaleMargin (ax_options b) = None" by (simp_all add: b(2) o)
  then have "prepare_axis ns page g all ?a = Some (measureTickLabels ns page 400 (b\<lparr>ax_ticks := Some []\<rparr>))"
    by (simp add: prepare_axis_def assms b(1) setTicks_def raw_ticks_def snapRangeToTicks_def)
  then show ?thesis using b
    by (cases d) (simp_all add: measureTickLabels_def Let_def)
qed

lemma first_phase_ticks: "allocateAxisBoxFirstPhase grid all a g = (a', g') \<Longrightarrow> ax_ticks a' = ax_ticks a \<and> ax_min a' = ax_min a \<and> ax_max a' = ax_max a"
  by (auto simp: allocateAxisBoxFirstPhase_def Let_def split: prod.splits direction.splits if_splits)

lemma final_ticks: "ax_ticks (allocateAxisBoxSecondPhase g a) = ax_ticks a" "ax_ticks (setTransformationHelpers w h a) = ax_ticks a"
  "ax_min (allocateAxisBoxSecondPhase g a) = ax_min a" "ax_max (allocateAxisBoxSecondPhase g a) = ax_max a"
  "ax_n (allocateAxisBoxSecondPhase g a) = ax_n a" "ax_direction (allocateAxisBoxSecondPhase g a) = ax_direction a"
  by (simp_all add: allocateAxisBoxSecondPhase_def setTransformationHelpers_def Let_def split: direction.split)

lemma demo_plot_setup: "\<exists>pl' labels lg. setupGrid ns page None (0, 0) demo_plot = Some (pl', labels, lg)
    \<and> (\<exists>a b. pl_xaxes pl' = [Some a] \<and> pl_yaxes pl' = [Some b] \<and> ax_n a = 1 \<and> ax_n b = 1 \<and> ax_direction a = X \<and> ax_direction b = Y
        \<and> ax_min a = 0 \<and> ax_max a = 10 \<and> ax_min b = 0 \<and> ax_max b = 10)
    \<and> pl_series pl' = pl_series demo_plot \<and> pl_grid pl' = pl_grid demo_plot"
proof -
  let ?g = "no_offsets (pl_geometry demo_plot)"
  let ?x = "show_axis (plain_axis X ''bottom'')" and ?y = "show_axis (plain_axis Y ''left'')"
  have g: "canvasWidth ?g = 400" "canvasHeight ?g = 300" by (simp_all add: demo_plot_def no_offsets_def)
  obtain a where a: "prepare_axis ns page ?g [Some ?x] ?x = Some a" "ax_ticks a = Some []" "ax_n a = 1" "ax_direction a = X" "ax_min a = 0" "ax_max a = 10"
    using prepare_plain_axis [OF g] by blast
  obtain b where b: "prepare_axis ns page ?g [Some ?y] ?y = Some b" "ax_ticks b = Some []" "ax_n b = 1" "ax_direction b = Y" "ax_min b = 0" "ax_max b = 10"
    using prepare_plain_axis [OF g] by blast
  have r: "ax_reserveSpace ?x" "ax_reserveSpace ?y" "axis_id ?x = (X, 1)" "axis_id ?y = (Y, 1)"
    by (simp_all add: show_axis_def plain_axis_def new_axis_def demo_options_def axis_id_def setRange_def Let_def)
  have p: "prepare_axes ns page ?g [(X, 1), (Y, 1)] ([Some ?x], [Some ?y]) = Some ([Some a], [Some b])"
    using a b by (simp add: get_axis_def axes_of_def axis_at_def set_axis_def)
  obtain b' g1 where fb: "allocateAxisBoxFirstPhase (pl_grid demo_plot) [Some b] b ?g = (b', g1)" by fastforce
  obtain a' g2 where fa: "allocateAxisBoxFirstPhase (pl_grid demo_plot) [Some a] a g1 = (a', g2)" by fastforce
  have t: "ax_ticks a' = Some []" "ax_ticks b' = Some []" "ax_n a' = 1" "ax_n b' = 1" "ax_direction a' = X" "ax_direction b' = Y"
      "ax_min a' = 0" "ax_max a' = 10" "ax_min b' = 0" "ax_max b' = 10"
    using first_phase_ticks [OF fa] first_phase_ticks [OF fb] first_phase_frame [OF fa] first_phase_frame [OF fb] a b by simp_all
  then have al: "allocate_boxes (pl_grid demo_plot) [(Y, 1), (X, 1)] ([Some a], [Some b]) ?g = (([Some a'], [Some b']), g2)"
    using fa fb by (simp add: get_axis_def axes_of_def axis_at_def set_axis_def)
  have d: "pl_xaxes demo_plot = [Some (plain_axis X ''bottom'')]" "pl_yaxes demo_plot = [Some (plain_axis Y ''left'')]"
      "gr_show (pl_grid demo_plot)" "\<not> lg_show (pl_legend demo_plot)"
    by (simp_all add: demo_plot_def default_grid_def)
  show ?thesis
    using p al t r
    by (simp add: setupGrid_def on_axes_def d allAxes_def Let_def insertAxisLabels_def axis_labels_def insertLegend_def final_ticks)
qed

theorem setupGrid_boxes_witness:
  "\<exists>pl' labels lg. setupGrid (\<lambda>_. ''1'') demo_page None (0, 0) demo_plot = Some (pl', labels, lg)
    \<and> plotLeft (pl_geometry pl') + plotWidth (pl_geometry pl') + plotRight (pl_geometry pl') = 400"
proof -
  obtain pl' labels lg where s: "setupGrid (\<lambda>_. ''1'') demo_page None (0, 0) demo_plot = Some (pl', labels, lg)"
    using demo_plot_setup by blast
  have ok: "axes_ok X (pl_xaxes demo_plot)" "axes_ok Y (pl_yaxes demo_plot)" "gr_show (pl_grid demo_plot)"
      "canvasWidth (pl_geometry demo_plot) = 400"
    by (simp_all add: demo_plot_def axes_ok_def plain_axis_def new_axis_def default_grid_def)
  have sz: "sizes_ok demo_page (pl_grid demo_plot) (ax_options a)" if "a \<in> set (allAxes (pl_xaxes demo_plot) (pl_yaxes demo_plot))" for a
    using that by (auto simp: demo_plot_def demo_page_def allAxes_def sizes_ok_def plain_axis_def new_axis_def default_grid_def demo_options_def)
  show ?thesis using setupGrid_boxes [OF s ok(3,1,2) _ sz] ok(4) s by (simp add: Let_def)
qed

end
