(* ===== verification/Grid.thy ===== *)
theory Grid
  imports Layout
begin

text \<open>
  Drawing a plot, \<open>static/flot/jquery.flot.js\<close>: \<open>draw\<close>, the background, and the grid with its markings, ticks and
  border (\<open>extractRange\<close>, \<open>drawBackground\<close>, \<open>drawGrid\<close>). \<open>None\<close> is an error that stops the drawing.
\<close>

section \<open>Markings\<close>

text \<open>The range a marking gives for an axis of a direction: the first axis it has an entry for.\<close>

fun find_range :: "axis list \<Rightarrow> direction \<Rightarrow> marking \<Rightarrow> (axis \<times> real option \<times> real option) option" where
  "find_range [] d m = None"
| "find_range (a # as) d m =
     (if ax_direction a \<noteq> d then find_range as d m
      else
        let full = dir_char d # nat_str (ax_n a) @ ''axis'';
            key = (if map_of (mk_ranges m) full = None \<and> ax_n a = 1 then dir_char d # ''axis'' else full)
        in case map_of (mk_ranges m) key of
             Some (from_v, to_v) \<Rightarrow> Some (a, from_v, to_v)
           | None \<Rightarrow> find_range as d m)"

definition in_order :: "real option \<times> real option \<Rightarrow> real option \<times> real option" where
  "in_order r = (case r of (Some f, Some t) \<Rightarrow> if f > t then (Some t, Some f) else r | _ \<Rightarrow> r)"

text \<open>\<open>None\<close> when there is no first axis, which the caller reads.\<close>

definition extractRange :: "axes \<Rightarrow> axes \<Rightarrow> marking \<Rightarrow> direction \<Rightarrow> (axis \<times> real option \<times> real option) option" where
  "extractRange xs ys m d =
     map_option (\<lambda>(a, r). (a, in_order r))
       (case find_range (allAxes xs ys) d m of
          Some r \<Rightarrow> Some r
        | None \<Rightarrow>
            map_option (\<lambda>a. (a, map_of (mk_coords m) [dir_char d, CHR ''1''], map_of (mk_coords m) [dir_char d, CHR ''2'']))
              (axis_at (case d of X \<Rightarrow> xs | Y \<Rightarrow> ys) 0))"

text \<open>A range with its missing ends filled in; whether it lies outside the axis; and what is left of it.\<close>

definition fill_range :: "axis \<times> real option \<times> real option \<Rightarrow> real \<times> real" where
  "fill_range r =
     (case r of (a, f, t) \<Rightarrow> (case f of Some v \<Rightarrow> v | None \<Rightarrow> ax_min a, case t of Some v \<Rightarrow> v | None \<Rightarrow> ax_max a))"

definition outside_axis :: "axis \<Rightarrow> real \<times> real \<Rightarrow> bool" where
  "outside_axis a r \<longleftrightarrow> snd r < ax_min a \<or> fst r > ax_max a"

definition clip_range :: "axis \<Rightarrow> real \<times> real \<Rightarrow> real \<times> real" where
  "clip_range a r = (max (fst r) (ax_min a), min (snd r) (ax_max a))"

definition marking_style :: "(real \<Rightarrow> string) \<Rightarrow> grid_options \<Rightarrow> marking \<Rightarrow> markup" where
  "marking_style ns grid m =
     (case mk_color m of Some c \<Rightarrow> if has_text ns c then c else gr_markingsColor grid | None \<Rightarrow> gr_markingsColor grid)"

definition marking_width :: "grid_options \<Rightarrow> marking \<Rightarrow> real" where
  "marking_width grid m =
     (case mk_lineWidth m of Some w \<Rightarrow> if w \<noteq> 0 then w else gr_markingsLineWidth grid | None \<Rightarrow> gr_markingsLineWidth grid)"

definition draw_marking :: "(real \<Rightarrow> string) \<Rightarrow> grid_options \<Rightarrow> axes \<Rightarrow> axes \<Rightarrow> marking \<Rightarrow> drawing option" where
  "draw_marking ns grid xs ys m =
     (case (extractRange xs ys m X, extractRange xs ys m Y) of
        (Some rx, Some ry) \<Rightarrow>
          let ax = fst rx; ay = fst ry; x = fill_range rx; y = fill_range ry
          in if outside_axis ax x \<or> outside_axis ay y then Some []
             else
               let cx = clip_range ax x; cy = clip_range ay y
               in if fst cx = snd cx \<and> fst cy = snd cy then Some []
                  else
                    let xf = ax_p2c ax (fst cx); xt = ax_p2c ax (snd cx); yf = ax_p2c ay (fst cy); yt = ax_p2c ay (snd cy)
                    in Some (if xf = xt \<or> yf = yt then
                               [BeginPath, StrokeStyle (Css (marking_style ns grid m)), LineWidth (marking_width grid m),
                                MoveTo xf yf, LineTo xt yt, Stroke]
                             else [FillStyle (Css (marking_style ns grid m)), FillRect xf yt (xt - xf) (yf - yt)])
      | _ \<Rightarrow> None)"

text \<open>The markings: a list, or a function of the named axes and of the ends of the first two.\<close>

definition the_markings :: "grid_options \<Rightarrow> axes \<Rightarrow> axes \<Rightarrow> marking list option" where
  "the_markings grid xs ys =
     (case gr_markings grid of
        NoMarkings \<Rightarrow> Some []
      | Markings ms \<Rightarrow> Some ms
      | MarkingsFun f \<Rightarrow>
          let axes = getAxes xs ys
          in case (map_of axes ''xaxis'', map_of axes ''yaxis'') of
               (Some x, Some y) \<Rightarrow>
                 Some (f axes [(''xmin'', ax_min x), (''xmax'', ax_max x), (''ymin'', ax_min y), (''ymax'', ax_max y)])
             | _ \<Rightarrow> None)"

section \<open>Ticks\<close>

definition crisp :: "real \<Rightarrow> real" where
  "crisp v = of_int \<lfloor>v\<rfloor> + 1 / 2"

text \<open>\<open>axis.options.tickColor || \<dots>\<close>\<close>

definition tick_style :: "axis \<Rightarrow> markup" where
  "tick_style a =
     (case opt_tickColor (ax_options a) of
        Some c \<Rightarrow> if c \<noteq> [] then [T c] else toString (scale ''a'' 0.22 (parse (opt_color (ax_options a))))
      | None \<Rightarrow> toString (scale ''a'' 0.22 (parse (opt_color (ax_options a)))))"

text \<open>Where the tick bar begins.\<close>

definition tick_origin :: "plot_geometry \<Rightarrow> axis \<Rightarrow> real \<times> real" where
  "tick_origin g a =
     (let b = ax_box a; far = (ax_position a = (case ax_direction a of X \<Rightarrow> ''top'' | Y \<Rightarrow> ''left''))
      in case ax_direction a of
           X \<Rightarrow> (0, if ax_tickLength a = Full then (if far then 0 else plotHeight g)
                    else box_top b - plotTop g + (if far then box_height b else 0))
         | Y \<Rightarrow> (if ax_tickLength a = Full then (if far then 0 else plotWidth g)
                 else box_left b - plotLeft g + (if far then box_width b else 0), 0))"

text \<open>The bar, and the position the ticks start from, which drawing the bar moves to the middle of a pixel.\<close>

definition tick_bar :: "plot_geometry \<Rightarrow> axis \<Rightarrow> drawing \<times> real \<times> real" where
  "tick_bar g a =
     (let (x, y) = tick_origin g a
      in if ax_innermost a then ([], x, y)
         else
           let x' = crisp x; y' = crisp y
           in ([BeginPath, MoveTo x' y',
                LineTo (x' + (case ax_direction a of X \<Rightarrow> plotWidth g | Y \<Rightarrow> 0)) (y' + (case ax_direction a of X \<Rightarrow> 0 | Y \<Rightarrow> plotHeight g)),
                Stroke], x', y'))"

definition skipped_tick :: "grid_options \<Rightarrow> axis \<Rightarrow> real \<Rightarrow> bool" where
  "skipped_tick grid a v \<longleftrightarrow>
     v < ax_min a \<or> v > ax_max a
     \<or> (ax_tickLength a = Full \<and> gr_borderWidth grid > 0 \<and> (v = ax_min a \<or> v = ax_max a))"

definition draw_tick :: "plot_geometry \<Rightarrow> axis \<Rightarrow> real \<Rightarrow> real \<Rightarrow> real \<Rightarrow> drawing" where
  "draw_tick g a x y v =
     (case ax_direction a of
        X \<Rightarrow>
          let off = (case ax_tickLength a of Full \<Rightarrow> - plotHeight g | Len t \<Rightarrow> t);
              yoff = (if ax_position a = ''top'' then - off else off); x' = crisp (ax_p2c a v)
          in [MoveTo x' y, LineTo x' (y + yoff)]
      | Y \<Rightarrow>
          let off = (case ax_tickLength a of Full \<Rightarrow> - plotWidth g | Len t \<Rightarrow> t);
              xoff = (if ax_position a = ''left'' then - off else off); y' = crisp (ax_p2c a v)
          in [MoveTo x y', LineTo (x + xoff) y'])"

text \<open>An axis that is shown and has no ticks at all is the error of reading their number.\<close>

definition draw_axis_ticks :: "grid_options \<Rightarrow> plot_geometry \<Rightarrow> axis \<Rightarrow> drawing option" where
  "draw_axis_ticks grid g a =
     (if \<not> ax_show a then Some []
      else case ax_ticks a of
        None \<Rightarrow> None
      | Some ts \<Rightarrow>
          if ts = [] then Some []
          else
            let (bar, x, y) = tick_bar g a
            in Some ([StrokeStyle (Css (tick_style a)), LineWidth 1] @ bar @ [BeginPath]
                 @ concat (map (\<lambda>t. if skipped_tick grid a (fst t) then [] else draw_tick g a x y (fst t)) ts) @ [Stroke]))"

definition draw_border :: "grid_options \<Rightarrow> plot_geometry \<Rightarrow> drawing" where
  "draw_border grid g =
     (let bw = gr_borderWidth grid
      in if bw = 0 then []
         else [LineWidth bw] @ (case gr_borderColor grid of Some c \<Rightarrow> [StrokeStyle (Css c)] | None \<Rightarrow> [])
              @ [StrokeRect (- (bw / 2)) (- (bw / 2)) (plotWidth g + bw) (plotHeight g + bw)])"

section \<open>The grid and the plot\<close>

definition drawBackground :: "(real \<Rightarrow> string) \<Rightarrow> grid_options \<Rightarrow> plot_geometry \<Rightarrow> drawing option" where
  "drawBackground ns grid g =
     map_option (\<lambda>st. [Save, Translate (plotLeft g) (plotTop g), FillStyle st, FillRect 0 0 (plotWidth g) (plotHeight g), Restore])
       (getColorOrGradient ns (gr_backgroundColor grid) (Some (plotHeight g)) (Some 0) [T ''rgba(255, 255, 255, 0)''])"

definition drawGrid :: "(real \<Rightarrow> string) \<Rightarrow> grid_options \<Rightarrow> plot_geometry \<Rightarrow> axes \<Rightarrow> axes \<Rightarrow> drawing option" where
  "drawGrid ns grid g xs ys =
     in_plot (geometry.truncate g)
       (then_draw (Option.bind (the_markings grid xs ys) (\<lambda>ms. all_drawings (map (draw_marking ns grid xs ys) ms)))
         (then_draw (all_drawings (map (draw_axis_ticks grid g) (allAxes xs ys))) (Some (draw_border grid g))))"

text \<open>
  The whole plot. The hooks are drawings of their own; a hook that changes the plot while it is drawn is not modelled.
\<close>

definition draw :: "(real \<Rightarrow> string) \<Rightarrow> (series \<Rightarrow> drawing option) list \<Rightarrow> drawing option list \<Rightarrow> plot \<Rightarrow> drawing option" where
  "draw ns series_hooks draw_hooks pl =
     (let g = pl_geometry pl; grid = pl_grid pl; the_grid = drawGrid ns grid g (pl_xaxes pl) (pl_yaxes pl)
      in then_draw (Some [ClearRect 0 0 (canvasWidth g) (canvasHeight g)])
           (then_draw (if gr_show grid \<and> has_fill_color ns (gr_backgroundColor grid) then drawBackground ns grid g else Some [])
             (then_draw (if gr_show grid \<and> \<not> gr_aboveData grid then the_grid else Some [])
               (then_draw
                 (all_drawings (map (\<lambda>s. then_draw (all_drawings (map (\<lambda>h. h s) series_hooks))
                    (drawSeries ns (geometry.truncate g) (pl_xaxes pl) (pl_yaxes pl) s)) (pl_series pl)))
                 (then_draw (all_drawings draw_hooks)
                   (if gr_show grid \<and> gr_aboveData grid then the_grid else Some []))))))"

section \<open>A marking paints exactly what it marks\<close>

text \<open>An axis laid out over an area, without a transformation.\<close>

definition laid_out :: "real \<Rightarrow> real \<Rightarrow> axis \<Rightarrow> bool" where
  "laid_out w h a \<longleftrightarrow> 0 < w \<and> 0 < h \<and> ax_min a < ax_max a
     \<and> (let d = ax_max a - ax_min a
        in case ax_direction a of
             X \<Rightarrow> ax_p2c a = (\<lambda>p. (p - ax_min a) * (w / d)) \<and> ax_c2p a = (\<lambda>c. ax_min a + c / (w / d))
           | Y \<Rightarrow> ax_p2c a = (\<lambda>p. (ax_max a - p) * (h / d)) \<and> ax_c2p a = (\<lambda>c. ax_max a - c / (h / d)))"

lemma setTransformationHelpers_laid_out:
  assumes "0 < w" "0 < h" "ax_min a < ax_max a" "opt_transform (ax_options a) = None" "opt_inverseTransform (ax_options a) = None"
  shows "laid_out w h (setTransformationHelpers w h a)"
  using assms
  by (auto simp: laid_out_def setTransformationHelpers_maps map_offset_def map_factor_def map_fun_def Let_def fun_eq_iff
      field_simps split: direction.split)

lemma laid_out_linear: "laid_out w h a \<Longrightarrow> linear_axis a"
proof -
  assume a: "laid_out w h a"
  show ?thesis
  proof (cases "ax_direction a")
    case X
    then show ?thesis using a unfolding linear_axis_def laid_out_def Let_def
      by (intro exI [of _ "ax_min a"] exI [of _ "w / (ax_max a - ax_min a)"]) auto
  next
    case Y
    define k where "k = h / (ax_max a - ax_min a)"
    have "k \<noteq> 0" using a Y by (auto simp: laid_out_def k_def)
    moreover have "ax_p2c a = (\<lambda>p. (ax_max a - p) * k)" "ax_c2p a = (\<lambda>c. ax_max a - c / k)"
      using a Y by (simp_all add: laid_out_def k_def Let_def)
    ultimately show ?thesis unfolding linear_axis_def
      by (intro exI [of _ "ax_max a"] exI [of _ "- k"]) (simp add: fun_eq_iff algebra_simps)
  qed
qed

text \<open>Both maps keep the order along the horizontal direction and turn it around along the vertical one.\<close>

lemma laid_out_x:
  assumes "laid_out w h a" "ax_direction a = X"
  shows "ax_p2c a u \<le> c \<longleftrightarrow> u \<le> ax_c2p a c" "c \<le> ax_p2c a u \<longleftrightarrow> ax_c2p a c \<le> u" "ax_p2c a (ax_min a) = 0" "ax_p2c a (ax_max a) = w"
  using assms by (auto simp: laid_out_def Let_def field_simps)

lemma laid_out_y:
  assumes "laid_out w h a" "ax_direction a = Y"
  shows "ax_p2c a u \<le> c \<longleftrightarrow> ax_c2p a c \<le> u" "c \<le> ax_p2c a u \<longleftrightarrow> u \<le> ax_c2p a c" "ax_p2c a (ax_max a) = 0" "ax_p2c a (ax_min a) = h"
  using assms by (auto simp: laid_out_def Let_def field_simps)

text \<open>The values of an axis that a range marks.\<close>

definition marked :: "axis \<times> real option \<times> real option \<Rightarrow> real \<Rightarrow> bool" where
  "marked r v \<longleftrightarrow> fst (fill_range r) \<le> v \<and> v \<le> snd (fill_range r) \<and> ax_min (fst r) \<le> v \<and> v \<le> ax_max (fst r)"

text \<open>The rectangle that a drawing of a marking covers.\<close>

fun rects :: "drawing \<Rightarrow> (real \<times> real \<times> real \<times> real) list" where
  "rects [] = []"
| "rects (FillRect x y w h # cs) = (x, x + w, y, y + h) # rects cs"
| "rects (_ # cs) = rects cs"

definition painted_rect :: "drawing \<Rightarrow> (real \<times> real \<times> real \<times> real) option" where
  "painted_rect cs =
     (case rects cs of
        r # _ \<Rightarrow> Some r
      | [] \<Rightarrow> (case vertices cs of (a, b) # (c, d) # _ \<Rightarrow> Some (min a c, max a c, min b d, max b d) | _ \<Rightarrow> None))"

lemma allAxes_mem: "a \<in> set (allAxes xs ys) \<longleftrightarrow> Some a \<in> set xs \<or> Some a \<in> set ys"
proof -
  have "a \<in> set (map the (filter (\<lambda>x. x \<noteq> None) zs)) \<longleftrightarrow> Some a \<in> set zs" for zs :: axes by (auto simp: image_iff)
  from this [of "xs @ ys"] show ?thesis by (simp only: allAxes_def set_append Un_iff)
qed

lemma extractRange_axis:
  assumes "axes_ok X xs" "axes_ok Y ys" "axis_at xs 0 \<noteq> None" "axis_at ys 0 \<noteq> None"
  shows "\<exists>r. extractRange xs ys m d = Some r \<and> fst r \<in> set (allAxes xs ys) \<and> ax_direction (fst r) = d
    \<and> (\<forall>f t. snd r = (Some f, Some t) \<longrightarrow> f \<le> t)"
proof -
  have found: "fst r \<in> set as \<and> ax_direction (fst r) = d" if "find_range as d m = Some r" for as r
    using that by (induction as d m rule: find_range.induct) (auto simp: Let_def split: if_splits option.splits)
  have first: "a \<in> set (allAxes xs ys) \<and> ax_direction a = d" if at: "axis_at (case d of X \<Rightarrow> xs | Y \<Rightarrow> ys) 0 = Some a" for a
  proof -
    have "Some a \<in> set (case d of X \<Rightarrow> xs | Y \<Rightarrow> ys)" using at by (metis axis_at_def nth_mem option.distinct(1))
    moreover have "ax_direction a = d" using at assms(1,2) by (cases d) (auto simp: axes_okI)
    ultimately show ?thesis by (cases d) (simp_all add: allAxes_mem)
  qed
  have ord: "fst q \<le> snd q" if "in_order r = (Some (fst q), Some (snd q))" for r q
    using that by (auto simp: in_order_def split: prod.splits option.splits if_splits)
  have ordered: "f \<le> t" if "in_order r = (Some f, Some t)" for r f t using ord [of r "(f, t)"] that by simp
  show ?thesis
  proof (cases "find_range (allAxes xs ys) d m")
    case None
    obtain a where "axis_at (case d of X \<Rightarrow> xs | Y \<Rightarrow> ys) 0 = Some a" using assms(3,4) by (cases d) auto
    then show ?thesis using None first ordered by (auto simp: extractRange_def)
  next
    case (Some r)
    then show ?thesis using found [OF Some] ordered by (cases r) (auto simp: extractRange_def)
  qed
qed

text \<open>What is left of a range after clipping is what it marks.\<close>

lemma clip_range_marks:
  assumes "ax_min (fst r) < ax_max (fst r)" "\<forall>f t. snd r = (Some f, Some t) \<longrightarrow> f \<le> t"
  shows "outside_axis (fst r) (fill_range r) \<Longrightarrow> \<not> marked r v"
    and "\<not> outside_axis (fst r) (fill_range r) \<Longrightarrow>
      fst (clip_range (fst r) (fill_range r)) \<le> snd (clip_range (fst r) (fill_range r))
      \<and> ax_min (fst r) \<le> fst (clip_range (fst r) (fill_range r)) \<and> snd (clip_range (fst r) (fill_range r)) \<le> ax_max (fst r)
      \<and> (marked r v \<longleftrightarrow> fst (clip_range (fst r) (fill_range r)) \<le> v \<and> v \<le> snd (clip_range (fst r) (fill_range r)))"
  using assms by (auto simp: outside_axis_def fill_range_def clip_range_def marked_def split: option.splits prod.splits)

text \<open>What is drawn of a marking that is not clipped away: its rectangle, or the line that is left of it.\<close>

lemma marking_painted:
  assumes "extractRange xs ys m X = Some rx" "extractRange xs ys m Y = Some ry"
    and "\<not> (outside_axis (fst rx) (fill_range rx) \<or> outside_axis (fst ry) (fill_range ry))"
    and "cx = clip_range (fst rx) (fill_range rx)" "cy = clip_range (fst ry) (fill_range ry)" "\<not> (fst cx = snd cx \<and> fst cy = snd cy)"
    and "l = ax_p2c (fst rx) (fst cx)" "r = ax_p2c (fst rx) (snd cx)" "b = ax_p2c (fst ry) (fst cy)" "t = ax_p2c (fst ry) (snd cy)"
    and "l \<le> r" "t \<le> b"
  shows "\<exists>d. draw_marking ns grid xs ys m = Some d \<and> painted_rect d = Some (l, r, t, b)"
proof -
  note dm = draw_marking_def assms(1,2) option.case prod.case Let_def assms(4,5) [symmetric]
  let ?line = "[BeginPath, StrokeStyle (Css (marking_style ns grid m)), LineWidth (marking_width grid m), MoveTo l b, LineTo r t, Stroke]"
  let ?area = "[FillStyle (Css (marking_style ns grid m)), FillRect l t (r - l) (b - t)]"
  have "draw_marking ns grid xs ys m = Some (if l = r \<or> b = t then ?line else ?area)"
    unfolding dm if_not_P [OF assms(3)] if_not_P [OF assms(6)] assms(7-10) by simp
  moreover have "painted_rect ?line = Some (l, r, t, b)" "painted_rect ?area = Some (l, r, t, b)"
    using assms(11,12) by (simp_all add: painted_rect_def min_absorb2 max_absorb2 min_absorb1 max_absorb1)
  ultimately show ?thesis by (cases "l = r \<or> b = t") simp_all
qed

text \<open>
  C8. A marking paints the part of the plot area whose coordinates lie in its ranges and in the ranges of the axes: a pixel
  position is inside the rectangle (or the line, for a range of a single value) exactly if both coordinates are marked,
  so that nothing is painted outside the plot area. If nothing is drawn, at most one point was marked.
\<close>

theorem marking_exact:
  assumes "axes_ok X xs" "axes_ok Y ys" "axis_at xs 0 \<noteq> None" "axis_at ys 0 \<noteq> None"
    and "\<forall>a \<in> set (allAxes xs ys). laid_out w h a"
  shows "\<exists>d rx ry. draw_marking ns grid xs ys m = Some d \<and> extractRange xs ys m X = Some rx \<and> extractRange xs ys m Y = Some ry
    \<and> (case painted_rect d of
         Some (l, r, t, b) \<Rightarrow> 0 \<le> l \<and> r \<le> w \<and> 0 \<le> t \<and> b \<le> h
           \<and> (\<forall>x y. l \<le> x \<and> x \<le> r \<and> t \<le> y \<and> y \<le> b \<longleftrightarrow> marked rx (ax_c2p (fst rx) x) \<and> marked ry (ax_c2p (fst ry) y))
       | None \<Rightarrow> d = [] \<and> (\<forall>u v u' v'. marked rx u \<and> marked ry v \<and> marked rx u' \<and> marked ry v' \<longrightarrow> u = u' \<and> v = v'))"
proof -
  obtain rx where rx: "extractRange xs ys m X = Some rx" "fst rx \<in> set (allAxes xs ys)" "ax_direction (fst rx) = X"
      "\<forall>f t. snd rx = (Some f, Some t) \<longrightarrow> f \<le> t"
    using extractRange_axis [OF assms(1-4), of m X] by blast
  obtain ry where ry: "extractRange xs ys m Y = Some ry" "fst ry \<in> set (allAxes xs ys)" "ax_direction (fst ry) = Y"
      "\<forall>f t. snd ry = (Some f, Some t) \<longrightarrow> f \<le> t"
    using extractRange_axis [OF assms(1-4), of m Y] by blast
  have lx: "laid_out w h (fst rx)" "ax_min (fst rx) < ax_max (fst rx)" and ly: "laid_out w h (fst ry)" "ax_min (fst ry) < ax_max (fst ry)"
    using assms(5) rx(2) ry(2) by (auto simp: laid_out_def)
  note X = laid_out_x [OF lx(1) rx(3)] and Y = laid_out_y [OF ly(1) ry(3)]
  let ?ox = "outside_axis (fst rx) (fill_range rx)" and ?oy = "outside_axis (fst ry) (fill_range ry)"
  define cx where "cx = clip_range (fst rx) (fill_range rx)"
  define cy where "cy = clip_range (fst ry) (fill_range ry)"
  note mx = clip_range_marks [OF lx(2) rx(4), folded cx_def] and my = clip_range_marks [OF ly(2) ry(4), folded cy_def]
  note dm = draw_marking_def rx(1) ry(1) option.case prod.case Let_def cx_def [symmetric] cy_def [symmetric]
  consider "?ox \<or> ?oy" | "\<not> ?ox" "\<not> ?oy" "fst cx = snd cx" "fst cy = snd cy" | "\<not> ?ox" "\<not> ?oy" "\<not> (fst cx = snd cx \<and> fst cy = snd cy)"
    by blast
  then show ?thesis
  proof cases
    case 1
    have "draw_marking ns grid xs ys m = Some []" unfolding dm using 1 by simp
    moreover have "\<not> (marked rx u \<and> marked ry v)" for u v using 1 mx(1) my(1) by blast
    ultimately show ?thesis using rx(1) ry(1) by (auto simp: painted_rect_def)
  next
    case 2
    have "draw_marking ns grid xs ys m = Some []" unfolding dm using 2 by simp
    moreover have "marked rx u \<Longrightarrow> u = snd cx" "marked ry v \<Longrightarrow> v = snd cy" for u v
      using 2 mx(2) [of u] my(2) [of v] by auto
    ultimately show ?thesis using rx(1) ry(1) by (auto simp: painted_rect_def)
  next
    case 3
    let ?l = "ax_p2c (fst rx) (fst cx)" and ?r = "ax_p2c (fst rx) (snd cx)"
    let ?b = "ax_p2c (fst ry) (fst cy)" and ?t = "ax_p2c (fst ry) (snd cy)"
    note m = mx(2) [OF 3(1)] and n = my(2) [OF 3(2)]
    have inv: "ax_c2p (fst rx) (ax_p2c (fst rx) u) = u" "ax_c2p (fst ry) (ax_p2c (fst ry) u) = u" for u
      using laid_out_linear [OF lx(1)] laid_out_linear [OF ly(1)] by (auto simp: linear.from_to)
    have ord: "?l \<le> ?r" "?t \<le> ?b" "0 \<le> ?l" "?r \<le> w" "0 \<le> ?t" "?b \<le> h"
      using m n X(1,2) Y(1,2) inv X(3,4) Y(3,4) by metis+
    have no: "\<not> (?ox \<or> ?oy)" using 3 by simp
    obtain d where d: "draw_marking ns grid xs ys m = Some d" "painted_rect d = Some (?l, ?r, ?t, ?b)"
      using marking_painted [OF rx(1) ry(1) no cx_def cy_def 3(3) refl refl refl refl ord(1,2)] by blast
    have "(?l \<le> x \<and> x \<le> ?r \<and> ?t \<le> y \<and> y \<le> ?b) \<longleftrightarrow> marked rx (ax_c2p (fst rx) x) \<and> marked ry (ax_c2p (fst ry) y)" for x y
      using m [of "ax_c2p (fst rx) x"] n [of "ax_c2p (fst ry) y"] X(1,2) Y(1,2) by auto
    then show ?thesis using d rx(1) ry(1) ord by (intro exI [of _ d] exI [of _ rx] exI [of _ ry]) simp
  qed
qed

theorem marking_exact_witness:
  "\<exists>d. draw_marking (\<lambda>_. ''1'') default_grid [Some (demo_axis X)] [Some (demo_axis Y)]
      \<lparr>mk_ranges = [(''xaxis'', (Some 3, Some 5))], mk_coords = [], mk_color = None, mk_lineWidth = None\<rparr> = Some d"
proof -
  have "laid_out 400 300 (demo_axis d)" for d
    unfolding demo_axis_def by (rule setTransformationHelpers_laid_out) (simp_all add: new_axis_def demo_options_def)
  then show ?thesis
    using marking_exact [of "[Some (demo_axis X)]" "[Some (demo_axis Y)]" 400 300 "\<lambda>_. ''1''" default_grid
        "\<lparr>mk_ranges = [(''xaxis'', (Some 3, Some 5))], mk_coords = [], mk_color = None, mk_lineWidth = None\<rparr>"]
    by (auto simp: axes_ok_def demo_axis_facts allAxes_def axis_at_def)
qed

section \<open>A laid out plot can be drawn\<close>

text \<open>Drawings that succeed and leave the saved states as they were.\<close>

definition clean_drawing :: "drawing option \<Rightarrow> bool" where
  "clean_drawing d \<longleftrightarrow> (\<exists>x. d = Some x \<and> balanced x)"

named_theorems clean_intros "drawings that succeed and restore what they save"

lemma clean_Some [clean_intros]: "flat x \<Longrightarrow> clean_drawing (Some x)"
  by (simp add: clean_drawing_def flat_balanced)

lemma clean_then_draw [clean_intros]: "clean_drawing a \<Longrightarrow> clean_drawing b \<Longrightarrow> clean_drawing (then_draw a b)"
  by (auto simp: clean_drawing_def then_draw_def balanced_append)

lemma clean_if [clean_intros]: "(c \<Longrightarrow> clean_drawing a) \<Longrightarrow> (\<not> c \<Longrightarrow> clean_drawing b) \<Longrightarrow> clean_drawing (if c then a else b)"
  by simp

lemma clean_all_drawings [clean_intros]: "(\<And>d. d \<in> set ds \<Longrightarrow> clean_drawing d) \<Longrightarrow> clean_drawing (all_drawings ds)"
proof (induction ds)
  case (Cons d ds)
  then obtain x y where "d = Some x" "balanced x" "all_drawings ds = Some y" "balanced y"
    by (force simp: clean_drawing_def)
  then show ?case by (simp add: clean_drawing_def balanced_append)
qed (simp add: clean_drawing_def)

lemma clean_in_plot [clean_intros]: "clean_drawing d \<Longrightarrow> clean_drawing (in_plot g d)"
  using balanced_save [of "Translate (plotLeft g) (plotTop g) # the d"]
  by (auto simp: clean_drawing_def in_plot_def balanced_Cons)

lemma draw_tick_flat [simp]: "flat (draw_tick g a x y v)"
  by (simp add: draw_tick_def Let_def split: direction.split)

lemma tick_bar_flat: "tick_bar g a = (d, x, y) \<Longrightarrow> flat d"
  by (auto simp: tick_bar_def Let_def split: prod.splits if_splits)

lemma draw_axis_ticks_clean [clean_intros]:
  assumes "ax_show a \<longrightarrow> ax_ticks a \<noteq> None"
  shows "clean_drawing (draw_axis_ticks grid g a)"
proof (cases "ax_show a \<and> ax_ticks a \<noteq> Some []")
  case True
  then obtain ts where ts: "ax_ticks a = Some ts" "ts \<noteq> []" using assms by auto
  obtain bar x y where bar: "tick_bar g a = (bar, x, y)" by (cases "tick_bar g a")
  have "flat (concat (map (\<lambda>t. if skipped_tick grid a (fst t) then [] else draw_tick g a x y (fst t)) ts))"
    by (auto simp: list_all_iff)
  then show ?thesis using True ts bar tick_bar_flat [OF bar] by (simp add: draw_axis_ticks_def clean_drawing_def flat_balanced)
next
  case False
  then show ?thesis using assms by (auto simp: draw_axis_ticks_def clean_drawing_def)
qed

lemma draw_border_flat: "flat (draw_border grid g)"
  by (simp add: draw_border_def Let_def split: option.split)

lemma draw_marking_clean:
  assumes "axes_ok X xs" "axes_ok Y ys" "axis_at xs 0 \<noteq> None" "axis_at ys 0 \<noteq> None"
  shows "clean_drawing (draw_marking ns grid xs ys m)"
proof -
  obtain rx ry where r: "extractRange xs ys m X = Some rx" "extractRange xs ys m Y = Some ry"
    using extractRange_axis [OF assms, of m X] extractRange_axis [OF assms, of m Y] by blast
  then show ?thesis by (auto simp: draw_marking_def Let_def intro!: clean_intros)
qed

text \<open>The first axis of a direction has a name among all axes.\<close>

lemma set_keys_defined:
  "map_of r k \<noteq> None \<or> k \<in> f ` set as \<Longrightarrow> map_of (foldl (\<lambda>r a. set_key (f a) (g a) r) r as) k \<noteq> None"
proof (induction as arbitrary: r)
  case (Cons a as)
  then have "map_of (set_key (f a) (g a) r) k \<noteq> None \<or> k \<in> f ` set as" by (auto simp: map_of_set_key)
  then show ?case unfolding foldl_Cons by (rule Cons.IH)
qed simp

lemma getAxes_first:
  assumes "axes_ok X xs" "axes_ok Y ys" "axis_at xs 0 \<noteq> None" "axis_at ys 0 \<noteq> None"
  shows "map_of (getAxes xs ys) ''xaxis'' \<noteq> None" "map_of (getAxes xs ys) ''yaxis'' \<noteq> None"
proof -
  obtain a b where ab: "axis_at xs 0 = Some a" "axis_at ys 0 = Some b" using assms(3,4) by blast
  then have "a \<in> set (allAxes xs ys)" "b \<in> set (allAxes xs ys)" unfolding allAxes_mem by (metis axis_at_def nth_mem option.distinct(1))+
  moreover have "axis_name a = ''xaxis''" "axis_name b = ''yaxis''"
    using ab assms(1,2) by (auto simp: axes_okI axis_name_def dir_char_def)
  ultimately have n: "''xaxis'' \<in> axis_name ` set (allAxes xs ys)" "''yaxis'' \<in> axis_name ` set (allAxes xs ys)" by force+
  show "map_of (getAxes xs ys) ''xaxis'' \<noteq> None" unfolding getAxes_def by (rule set_keys_defined [OF disjI2 [OF n(1)]])
  show "map_of (getAxes xs ys) ''yaxis'' \<noteq> None" unfolding getAxes_def by (rule set_keys_defined [OF disjI2 [OF n(2)]])
qed

lemma drawGrid_clean:
  assumes "axes_ok X xs" "axes_ok Y ys" "axis_at xs 0 \<noteq> None" "axis_at ys 0 \<noteq> None"
    and "\<And>a. a \<in> set (allAxes xs ys) \<Longrightarrow> ax_show a \<Longrightarrow> ax_ticks a \<noteq> None"
  shows "clean_drawing (drawGrid ns grid g xs ys)"
proof -
  obtain ms where ms: "the_markings grid xs ys = Some ms"
    using getAxes_first [OF assms(1-4)] by (cases "gr_markings grid") (auto simp: the_markings_def Let_def)
  show ?thesis unfolding drawGrid_def ms Option.bind.bind_lunit
    by (intro clean_intros) (auto intro!: draw_marking_clean draw_axis_ticks_clean assms(1-4) draw_border_flat simp del: not_None_eq dest: assms(5))
qed

text \<open>Laying out a plot gives every axis that is shown its ticks.\<close>

lemma all_some_mem: "all_some ds = Some xs \<Longrightarrow> d \<in> set ds \<Longrightarrow> d \<noteq> None"
  by (induction ds arbitrary: xs) (auto split: option.splits)

lemma setupGrid_ticks:
  assumes "setupGrid ns page computed dims pl = Some (pl', labels, lg)" "gr_show (pl_grid pl)"
    and "a \<in> set (allAxes (pl_xaxes pl') (pl_yaxes pl'))" "ax_show a"
  shows "ax_ticks a \<noteq> None"
proof -
  obtain g parts where p: "all_some (map (axis_labels ns g) (allAxes (pl_xaxes pl') (pl_yaxes pl'))) = Some parts"
    using assms(1,2) by (auto simp: setupGrid_def Let_def insertAxisLabels_def split: option.splits prod.splits)
  have "axis_labels ns g a \<noteq> None" by (rule all_some_mem [OF p]) (use assms(3) in simp)
  then show ?thesis using assms(4) by (cases "ax_ticks a") (simp_all add: axis_labels_def)
qed

text \<open>What drawing needs apart from the layout.\<close>

definition well_equipped :: "(real \<Rightarrow> string) \<Rightarrow> plot \<Rightarrow> bool" where
  "well_equipped ns pl \<longleftrightarrow>
     axes_ok X (pl_xaxes pl) \<and> axes_ok Y (pl_yaxes pl) \<and> axis_at (pl_xaxes pl) 0 \<noteq> None \<and> axis_at (pl_yaxes pl) 0 \<noteq> None
     \<and> fill_ok True (gr_backgroundColor (pl_grid pl))
     \<and> (\<forall>a \<in> set (allAxes (pl_xaxes pl) (pl_yaxes pl)). ax_min a \<le> ax_max a)
     \<and> (\<forall>s \<in> set (pl_series pl). drawable s
          \<and> axis_at (pl_xaxes pl) (axisNumber (sr_xaxis s) - 1) \<noteq> None \<and> axis_at (pl_yaxes pl) (axisNumber (sr_yaxis s) - 1) \<noteq> None)"

lemma series_clean:
  assumes "well_equipped ns pl" "s \<in> set (pl_series pl)"
  shows "clean_drawing (drawSeries ns g (pl_xaxes pl) (pl_yaxes pl) s)"
proof -
  obtain ax ay where a: "axis_at (pl_xaxes pl) (axisNumber (sr_xaxis s) - 1) = Some ax" "axis_at (pl_yaxes pl) (axisNumber (sr_yaxis s) - 1) = Some ay"
    using assms unfolding well_equipped_def by blast
  then have "ax \<in> set (allAxes (pl_xaxes pl) (pl_yaxes pl))" "ay \<in> set (allAxes (pl_xaxes pl) (pl_yaxes pl))"
    unfolding allAxes_mem by (metis axis_at_def nth_mem option.distinct(1))+
  then show ?thesis using assms drawable_drawing [OF _ a] unfolding clean_drawing_def well_equipped_def by blast
qed

lemma laid_out_draws:
  assumes "setupGrid ns page computed dims pl = Some (pl', labels, lg)" "gr_show (pl_grid pl)" "well_equipped ns pl'"
    and "\<And>h s. h \<in> set series_hooks \<Longrightarrow> s \<in> set (pl_series pl') \<Longrightarrow> clean_drawing (h s)"
    and "\<And>d. d \<in> set draw_hooks \<Longrightarrow> clean_drawing d"
  shows "\<exists>d. draw ns series_hooks draw_hooks pl' = Some (ClearRect 0 0 (canvasWidth (pl_geometry pl')) (canvasHeight (pl_geometry pl')) # d)
    \<and> balanced d"
proof -
  have grid: "clean_drawing (drawGrid ns (pl_grid pl') (pl_geometry pl') (pl_xaxes pl') (pl_yaxes pl'))"
    using assms(3) setupGrid_ticks [OF assms(1,2)] by (intro drawGrid_clean) (auto simp: well_equipped_def)
  have "getColorOrGradient ns (gr_backgroundColor (pl_grid pl')) (Some (plotHeight (pl_geometry pl'))) (Some 0) c \<noteq> None"
    if "has_fill_color ns (gr_backgroundColor (pl_grid pl'))" for c
    using that assms(3) by (auto simp: well_equipped_def fill_ok_def has_fill_color_def getColorOrGradient_def split: fill_color.splits)
  then have bg: "clean_drawing (drawBackground ns (pl_grid pl') (pl_geometry pl'))" if "has_fill_color ns (gr_backgroundColor (pl_grid pl'))"
    using that by (fastforce simp: drawBackground_def clean_drawing_def balanced_def)
  have clean: "clean_drawing (draw ns series_hooks draw_hooks pl')"
    unfolding draw_def Let_def using grid bg assms(4,5) series_clean [OF assms(3)]
    by (intro clean_intros) (auto intro!: clean_then_draw clean_all_drawings)
  then obtain e where "draw ns series_hooks draw_hooks pl' = Some e" "balanced e" unfolding clean_drawing_def by blast
  moreover then obtain d where "e = ClearRect 0 0 (canvasWidth (pl_geometry pl')) (canvasHeight (pl_geometry pl')) # d"
    by (auto simp: draw_def Let_def then_draw_def split: option.splits)
  ultimately show ?thesis by (simp add: balanced_Cons)
qed



end
