(* ===== verification/Selection.thy ===== *)
theory Selection
  imports Grid
begin

text \<open>
  The selection plugin, \<open>static/flot/jquery.flot.selection.js\<close>: the state of a selection, the handlers of the mouse,
  the functions it adds to a plot, and what it draws on the overlay.
\<close>

section \<open>State\<close>

text \<open>
  A handler of the document that old browsers have for dragging: not supported, none, one of the page, or the one of this plugin
  that does nothing.
\<close>

datatype doc_handler = Unsupported | NoHandler | PageHandler | Blocker

text \<open>
  The selection in pixels of the plot area, the saved handlers (\<open>None\<close> where nothing is saved) and the number of handlers
  that wait for the mouse to be released.
\<close>

record selection =
  sel_first :: "real \<times> real"
  sel_second :: "real \<times> real"
  sel_show :: bool
  sel_active :: bool
  sel_waiting :: nat
  saved_select :: "doc_handler option"
  saved_drag :: "doc_handler option"
  doc_select :: doc_handler
  doc_drag :: doc_handler

datatype select_mode = SelectX | SelectY | SelectXY

record mouse =
  ms_which :: nat
  ms_pageX :: "real option"
  ms_pageY :: "real option"

text \<open>What a handler does to the outside: events on the placeholder and a request to redraw the overlay.\<close>

type_synonym ranges = "(string \<times> real \<times> real) list"

datatype sel_notice =
    Redraw
  | Unselected
  | Selecting "ranges option"
  | Selected ranges
  | SelectedOld real real real real

text \<open>What the plugin reads of the plot: its options, the place of the placeholder, the geometry and the axes.\<close>

record select_env =
  se_mode :: select_mode
  se_color :: markup
  se_offset :: "real \<times> real"
  se_geometry :: geometry
  se_xaxes :: axes
  se_yaxes :: axes

definition no_selection :: "doc_handler \<Rightarrow> doc_handler \<Rightarrow> selection" where
  "no_selection sel drag =
     \<lparr>sel_first = (- 1, - 1), sel_second = (- 1, - 1), sel_show = False, sel_active = False, sel_waiting = 0,
      saved_select = None, saved_drag = None, doc_select = sel, doc_drag = drag\<rparr>"

section \<open>Positions\<close>

definition selectionIsSane :: "selection \<Rightarrow> bool" where
  "selectionIsSane s \<longleftrightarrow> \<bar>fst (sel_second s) - fst (sel_first s)\<bar> \<ge> 5 \<and> \<bar>snd (sel_second s) - snd (sel_first s)\<bar> \<ge> 5"

text \<open>The position of the mouse, as the first or the second corner.\<close>

definition selection_pos :: "select_env \<Rightarrow> bool \<Rightarrow> mouse \<Rightarrow> real \<times> real" where
  "selection_pos env is_first e =
     (let g = se_geometry env;
          x = clamp 0 (num0 (ms_pageX e) - fst (se_offset env) - plotLeft g) (plotWidth g);
          y = clamp 0 (num0 (ms_pageY e) - snd (se_offset env) - plotTop g) (plotHeight g)
      in (if se_mode env = SelectY then (if is_first then 0 else plotWidth g) else x,
          if se_mode env = SelectX then (if is_first then 0 else plotHeight g) else y))"

text \<open>The selected range of an axis.\<close>

definition sel_range :: "selection \<Rightarrow> axis \<Rightarrow> real \<times> real" where
  "sel_range s a =
     (let coord = (\<lambda>p. case ax_direction a of X \<Rightarrow> fst p | Y \<Rightarrow> snd p);
          p1 = ax_c2p a (coord (sel_first s)); p2 = ax_c2p a (coord (sel_second s))
      in (min p1 p2, max p1 p2))"

definition getSelection :: "select_env \<Rightarrow> selection \<Rightarrow> ranges option" where
  "getSelection env s =
     (if \<not> selectionIsSane s then None
      else Some (foldl (\<lambda>r (name, a). if ax_used a then set_key name (sel_range s a) r else r) [] (getAxes (se_xaxes env) (se_yaxes env))))"

definition triggerSelectedEvent :: "select_env \<Rightarrow> selection \<Rightarrow> sel_notice list" where
  "triggerSelectedEvent env s =
     (case getSelection env s of
        None \<Rightarrow> []
      | Some r \<Rightarrow>
          Selected r #
            (case (map_of r ''xaxis'', map_of r ''yaxis'') of
               (Some x, Some y) \<Rightarrow> [SelectedOld (fst x) (fst y) (snd x) (snd y)]
             | _ \<Rightarrow> []))"

definition clearSelection :: "bool \<Rightarrow> selection \<Rightarrow> selection \<times> sel_notice list" where
  "clearSelection preventEvent s =
     (if sel_show s then (s\<lparr>sel_show := False\<rparr>, Redraw # (if preventEvent then [] else [Unselected])) else (s, []))"

definition updateSelection :: "select_env \<Rightarrow> mouse \<Rightarrow> selection \<Rightarrow> selection \<times> sel_notice list" where
  "updateSelection env e s =
     (if ms_pageX e = None then (s, [])
      else
        let s1 = s\<lparr>sel_second := selection_pos env False e\<rparr>
        in if selectionIsSane s1 then (s1\<lparr>sel_show := True\<rparr>, [Redraw]) else clearSelection True s1)"

section \<open>Handlers of the mouse\<close>

definition onMouseMove_select :: "select_env \<Rightarrow> mouse \<Rightarrow> selection \<Rightarrow> selection \<times> sel_notice list" where
  "onMouseMove_select env e s =
     (if sel_active s then
        let (s1, ns) = updateSelection env e s in (s1, ns @ [Selecting (getSelection env s1)])
      else (s, []))"

text \<open>A handler of the document is saved and blocked: the new handler and what is saved of it.\<close>

definition block :: "doc_handler \<Rightarrow> doc_handler option \<Rightarrow> doc_handler \<times> doc_handler option" where
  "block h saved = (if h \<noteq> Unsupported \<and> saved \<in> {None, Some NoHandler} then (Blocker, Some h) else (h, saved))"

text \<open>Restoring writes what is saved; if nothing is saved it writes \<open>undefined\<close>, which the browser turns into no handler.\<close>

definition restore :: "doc_handler \<Rightarrow> doc_handler option \<Rightarrow> doc_handler" where
  "restore h saved = (if h = Unsupported then h else case saved of Some k \<Rightarrow> k | None \<Rightarrow> NoHandler)"

definition onMouseDown :: "select_env \<Rightarrow> mouse \<Rightarrow> selection \<Rightarrow> selection" where
  "onMouseDown env e s =
     (if ms_which e \<noteq> 1 then s
      else
        let (h1, k1) = block (doc_select s) (saved_select s); (h2, k2) = block (doc_drag s) (saved_drag s)
        in s\<lparr>doc_select := h1, saved_select := k1, doc_drag := h2, saved_drag := k2,
             sel_first := selection_pos env True e, sel_active := True, sel_waiting := Suc (sel_waiting s)\<rparr>)"

definition onMouseUp :: "select_env \<Rightarrow> mouse \<Rightarrow> selection \<Rightarrow> selection \<times> sel_notice list" where
  "onMouseUp env e s =
     (let s1 = s\<lparr>doc_select := restore (doc_select s) (saved_select s), doc_drag := restore (doc_drag s) (saved_drag s), sel_active := False\<rparr>;
          (s2, ns) = updateSelection env e s1
      in (s2, ns @ (if selectionIsSane s2 then triggerSelectedEvent env s2 else [Unselected, Selecting None])))"

text \<open>The mouse is released: every handler that waits for it runs once and is removed.\<close>

fun released :: "select_env \<Rightarrow> mouse \<Rightarrow> nat \<Rightarrow> selection \<Rightarrow> selection \<times> sel_notice list" where
  "released env e 0 s = (s\<lparr>sel_waiting := 0\<rparr>, [])"
| "released env e (Suc n) s =
     (let (s1, ns) = onMouseUp env e s; (s2, ms) = released env e n s1 in (s2, ns @ ms))"

section \<open>Selecting from the program\<close>

text \<open>
  The ranges have the shape of a marking. The axes are those of \<open>plot.getAxes()\<close>. \<open>None\<close> is the error of a missing axis, or a range
  that lacks an end, whose position is NaN.
\<close>

definition sel_extractRange :: "axes \<Rightarrow> axes \<Rightarrow> marking \<Rightarrow> direction \<Rightarrow> (axis \<times> real option \<times> real option) option" where
  "sel_extractRange xs ys ranges coord =
     map_option (\<lambda>(a, r). (a, in_order r))
       (case find_range (map snd (getAxes xs ys)) coord ranges of
          Some r \<Rightarrow> Some r
        | None \<Rightarrow>
            map_option (\<lambda>a. (a, map_of (mk_coords ranges) [dir_char coord, CHR ''1''], map_of (mk_coords ranges) [dir_char coord, CHR ''2'']))
              (axis_at (case coord of X \<Rightarrow> xs | Y \<Rightarrow> ys) 0))"

definition selected_pixels :: "select_env \<Rightarrow> marking \<Rightarrow> direction \<Rightarrow> (real \<times> real) option" where
  "selected_pixels env ranges coord =
     (case sel_extractRange (se_xaxes env) (se_yaxes env) ranges coord of
        Some (a, Some f, Some t) \<Rightarrow> Some (ax_p2c a f, ax_p2c a t)
      | _ \<Rightarrow> None)"

definition setSelection :: "select_env \<Rightarrow> marking \<Rightarrow> bool \<Rightarrow> selection \<Rightarrow> (selection \<times> sel_notice list) option" where
  "setSelection env ranges preventEvent s =
     (case (if se_mode env = SelectY then Some (0, plotWidth (se_geometry env)) else selected_pixels env ranges X,
            if se_mode env = SelectX then Some (0, plotHeight (se_geometry env)) else selected_pixels env ranges Y) of
        (Some (xa, xb), Some (ya, yb)) \<Rightarrow>
          let s1 = s\<lparr>sel_first := (xa, ya), sel_second := (xb, yb), sel_show := True\<rparr>
          in Some (s1, Redraw # (if \<not> preventEvent \<and> selectionIsSane s1 then triggerSelectedEvent env s1 else []))
      | _ \<Rightarrow> None)"

section \<open>Drawing\<close>

text \<open>Scaling changes the colour it is applied to: the second scaling works on the result of the first.\<close>

definition draw_selection :: "(real \<Rightarrow> string) \<Rightarrow> select_env \<Rightarrow> selection \<Rightarrow> drawing" where
  "draw_selection ns env s =
     (if sel_show s \<and> selectionIsSane s then
        let g = se_geometry env; c1 = scale ''a'' 0.8 (parse_css ns (se_color env)); c2 = scale ''a'' 0.4 c1;
            x = min (fst (sel_first s)) (fst (sel_second s)); y = min (snd (sel_first s)) (snd (sel_second s));
            w = \<bar>fst (sel_second s) - fst (sel_first s)\<bar>; h = \<bar>snd (sel_second s) - snd (sel_first s)\<bar>
        in [Save, Translate (plotLeft g) (plotTop g), StrokeStyle (Css (toString c1)), LineWidth 1, LineJoin ''round'',
            FillStyle (Css (toString c2)), FillRect x y w h, StrokeRect x y w h, Restore]
      else [])"

section \<open>Using a selection\<close>

datatype sel_event =
    MouseMove mouse
  | MouseDown mouse
  | MouseUp mouse
  | SetSelection marking bool
  | ClearSelection bool

definition sel_step :: "select_env \<Rightarrow> sel_event \<Rightarrow> selection \<Rightarrow> (selection \<times> sel_notice list) option" where
  "sel_step env ev s =
     (case ev of
        MouseMove e \<Rightarrow> Some (onMouseMove_select env e s)
      | MouseDown e \<Rightarrow> Some (onMouseDown env e s, [])
      | MouseUp e \<Rightarrow> Some (released env e (sel_waiting s) s)
      | SetSelection ranges prevent \<Rightarrow> setSelection env ranges prevent s
      | ClearSelection prevent \<Rightarrow> Some (clearSelection prevent s))"

text \<open>An event that ends in an error leaves the selection as it was.\<close>

fun sel_run :: "select_env \<Rightarrow> sel_event list \<Rightarrow> selection \<Rightarrow> selection \<times> sel_notice list" where
  "sel_run env [] s = (s, [])"
| "sel_run env (ev # evs) s =
     (case sel_step env ev s of
        None \<Rightarrow> sel_run env evs s
      | Some (s1, ns) \<Rightarrow> let (s2, ms) = sel_run env evs s1 in (s2, ns @ ms))"

section \<open>The named axes\<close>

lemma axis_name_inj: "axis_name a = axis_name b \<longleftrightarrow> axis_id a = axis_id b"
  using nat_str_nonempty [of "ax_n a", symmetric] nat_str_nonempty [of "ax_n b", symmetric]
  by (auto simp: axis_name_def axis_id_def dir_char_def simp del: nat_str_nonempty split: direction.splits if_splits)

lemma foldl_set_key_new:
  assumes "distinct (map f as)" "fst ` set r \<inter> f ` set as = {}"
  shows "foldl (\<lambda>r a. set_key (f a) a r) r as = r @ map (\<lambda>a. (f a, a)) as"
  using assms
proof (induction as arbitrary: r)
  case (Cons a as)
  then show ?case by (simp add: set_key_new Int_commute)
qed simp

lemma getAxes_map:
  assumes "axes_ok X xs" "axes_ok Y ys"
  shows "getAxes xs ys = map (\<lambda>a. (axis_name a, a)) (allAxes xs ys)" "distinct (map axis_name (allAxes xs ys))"
proof -
  have "distinct (map axis_id (allAxes xs ys))" using all_ids_distinct [of "(xs, ys)"] assms by (simp add: both_ok_def)
  then show d: "distinct (map axis_name (allAxes xs ys))" by (simp add: distinct_map inj_on_def axis_name_inj)
  show "getAxes xs ys = map (\<lambda>a. (axis_name a, a)) (allAxes xs ys)"
    unfolding getAxes_def using foldl_set_key_new [OF d, of "[]"] by simp
qed

lemma sel_extractRange_marking:
  assumes "axes_ok X xs" "axes_ok Y ys"
  shows "sel_extractRange xs ys m d = extractRange xs ys m d"
  by (simp add: sel_extractRange_def extractRange_def getAxes_map [OF assms] comp_def)

text \<open>Entries of an object that is built from a list with distinct keys.\<close>

lemma map_of_cond_keys_notin:
  "k \<notin> fst ` set as \<Longrightarrow> map_of (foldl (\<lambda>r (n, a). if P a then set_key n (g a) r else r) r as) k = map_of r k"
  by (induction as arbitrary: r) (auto simp: map_of_set_key split: prod.split)

lemma map_of_cond_keys:
  assumes "distinct (map fst as)" "(k, a) \<in> set as" "P a"
  shows "map_of (foldl (\<lambda>r (n, a). if P a then set_key n (g a) r else r) r as) k = Some (g a)"
  using assms
proof (induction as arbitrary: r)
  case (Cons p as)
  show ?case
  proof (cases "p = (k, a)")
    case True
    then have "k \<notin> fst ` set as" using Cons.prems by auto
    then show ?thesis using True Cons.prems(3) by (simp add: map_of_cond_keys_notin map_of_set_key)
  next
    case False
    then show ?thesis using Cons by (cases p) auto
  qed
qed simp

lemma getSelection_axis:
  assumes "axes_ok X (se_xaxes env)" "axes_ok Y (se_yaxes env)" "getSelection env s = Some r"
    and "a \<in> set (allAxes (se_xaxes env) (se_yaxes env))" "ax_used a"
  shows "map_of r (axis_name a) = Some (sel_range s a)"
proof -
  let ?as = "getAxes (se_xaxes env) (se_yaxes env)"
  have "r = foldl (\<lambda>r (n, a). if ax_used a then set_key n (sel_range s a) r else r) [] ?as"
    using assms(3) by (simp add: getSelection_def split: if_splits)
  moreover have "distinct (map fst ?as)" "(axis_name a, a) \<in> set ?as"
    using getAxes_map [OF assms(1,2)] assms(4) by (simp_all add: comp_def)
  ultimately show ?thesis using map_of_cond_keys [of ?as "axis_name a" a ax_used, OF _ _ assms(5)] by simp
qed


definition demo_env :: "select_mode \<Rightarrow> select_env" where
  "demo_env m =
     \<lparr>se_mode = m, se_color = [T ''#e8cfac''], se_offset = (0, 0),
      se_geometry = \<lparr>plotLeft = 0, plotTop = 0, plotWidth = 400, plotHeight = 300\<rparr>,
      se_xaxes = [Some (demo_axis X)], se_yaxes = [Some (demo_axis Y)]\<rparr>"


text \<open>Clearing a selection hides it and does not forget it: it can still be read.\<close>

lemma cleared_selection_is_read: "getSelection env (fst (clearSelection prevent s)) = getSelection env s"
proof -
  have f: "sel_first (fst (clearSelection prevent s)) = sel_first s" "sel_second (fst (clearSelection prevent s)) = sel_second s"
    by (simp_all add: clearSelection_def)
  show ?thesis unfolding getSelection_def selectionIsSane_def sel_range_def f ..
qed

text \<open>
  When the button goes down twice before it is released (released outside of the window), an old browser loses the possibility to
  select text for good.
\<close>

lemma blocked_for_good:
  assumes "ms_which e = 1"
  shows "doc_select (fst (sel_run env [MouseDown e, MouseDown e, MouseUp e] (no_selection NoHandler NoHandler))) = Blocker"
  using assms
  by (simp add: sel_step_def onMouseDown_def no_selection_def block_def onMouseUp_def restore_def updateSelection_def clearSelection_def
      Let_def numeral_2_eq_2 split: if_splits)

section \<open>Selecting with the mouse\<close>

definition in_area :: "select_env \<Rightarrow> real \<times> real \<Rightarrow> bool" where
  "in_area env p \<longleftrightarrow> 0 \<le> fst p \<and> fst p \<le> plotWidth (se_geometry env) \<and> 0 \<le> snd p \<and> snd p \<le> plotHeight (se_geometry env)"

text \<open>The corners of a selection made with the mouse.\<close>

definition corner_ok :: "select_env \<Rightarrow> bool \<Rightarrow> real \<times> real \<Rightarrow> bool" where
  "corner_ok env is_first p \<longleftrightarrow> in_area env p
     \<and> (se_mode env = SelectX \<longrightarrow> snd p = (if is_first then 0 else plotHeight (se_geometry env)))
     \<and> (se_mode env = SelectY \<longrightarrow> fst p = (if is_first then 0 else plotWidth (se_geometry env)))"

definition mouse_ok :: "select_env \<Rightarrow> selection \<Rightarrow> bool" where
  "mouse_ok env s \<longleftrightarrow> (sel_active s \<longleftrightarrow> 0 < sel_waiting s) \<and> (0 < sel_waiting s \<or> sel_show s \<longrightarrow> corner_ok env True (sel_first s))
     \<and> (sel_show s \<longrightarrow> corner_ok env False (sel_second s))"

lemma selection_pos_ok:
  "0 \<le> plotWidth (se_geometry env) \<Longrightarrow> 0 \<le> plotHeight (se_geometry env) \<Longrightarrow> corner_ok env f (selection_pos env f e)"
  using clamp_bounds [of 0] by (auto simp: corner_ok_def in_area_def selection_pos_def Let_def)

lemma clearSelection_ok: "mouse_ok env s \<Longrightarrow> mouse_ok env (fst (clearSelection prevent s))"
  by (auto simp: mouse_ok_def clearSelection_def)

lemma updateSelection_ok:
  assumes "0 \<le> plotWidth (se_geometry env)" "0 \<le> plotHeight (se_geometry env)"
    and "0 < sel_waiting s \<or> sel_show s \<longrightarrow> corner_ok env True (sel_first s)" "sel_show s \<longrightarrow> corner_ok env False (sel_second s)"
    and "0 < sel_waiting s"
  shows "let s' = fst (updateSelection env e s) in sel_waiting s' = sel_waiting s \<and> sel_active s' = sel_active s
    \<and> corner_ok env True (sel_first s') \<and> (sel_show s' \<longrightarrow> corner_ok env False (sel_second s'))"
  using assms(3-5) selection_pos_ok [OF assms(1,2)]
  by (auto simp: updateSelection_def clearSelection_def Let_def)

lemma released_ok:
  assumes "0 \<le> plotWidth (se_geometry env)" "0 \<le> plotHeight (se_geometry env)"
    and "corner_ok env True (sel_first s)" "sel_show s \<longrightarrow> corner_ok env False (sel_second s)"
    and "0 < sel_waiting s" "n = 0 \<longrightarrow> \<not> sel_active s"
  shows "mouse_ok env (fst (released env e n s))"
  using assms(3-6)
proof (induction n arbitrary: s)
  case 0
  then show ?case by (simp add: mouse_ok_def)
next
  case (Suc n)
  define s1 where "s1 = s\<lparr>doc_select := restore (doc_select s) (saved_select s), doc_drag := restore (doc_drag s) (saved_drag s), sel_active := False\<rparr>"
  have "onMouseUp env e s = (fst (updateSelection env e s1), snd (onMouseUp env e s))"
    by (simp add: onMouseUp_def s1_def [symmetric] Let_def split: prod.split)
  moreover have "let s' = fst (updateSelection env e s1) in sel_waiting s' = sel_waiting s1 \<and> sel_active s' = sel_active s1
    \<and> corner_ok env True (sel_first s') \<and> (sel_show s' \<longrightarrow> corner_ok env False (sel_second s'))"
    by (rule updateSelection_ok [OF assms(1,2)]) (use Suc.prems in \<open>simp_all add: s1_def\<close>)
  then have "mouse_ok env (fst (released env e n (fst (updateSelection env e s1))))"
    using Suc.prems(3) by (intro Suc.IH) (simp_all add: s1_def Let_def)
  ultimately show ?case by (simp add: Let_def split: prod.split) (metis fst_conv)
qed

text \<open>Events of the user, and of a program that only clears.\<close>

definition by_mouse :: "sel_event \<Rightarrow> bool" where
  "by_mouse ev \<longleftrightarrow> (case ev of SetSelection _ _ \<Rightarrow> False | _ \<Rightarrow> True)"

lemma sel_step_ok:
  assumes "0 \<le> plotWidth (se_geometry env)" "0 \<le> plotHeight (se_geometry env)" "mouse_ok env s" "by_mouse ev"
    and "sel_step env ev s = Some (s', ns)"
  shows "mouse_ok env s'"
proof (cases ev)
  case (MouseMove e)
  show ?thesis
  proof (cases "sel_active s")
    case True
    then have "let s' = fst (updateSelection env e s) in sel_waiting s' = sel_waiting s \<and> sel_active s' = sel_active s
      \<and> corner_ok env True (sel_first s') \<and> (sel_show s' \<longrightarrow> corner_ok env False (sel_second s'))"
      using assms(3) by (intro updateSelection_ok assms(1,2)) (auto simp: mouse_ok_def)
    moreover have "s' = fst (updateSelection env e s)"
      using assms(5) MouseMove True by (simp add: sel_step_def onMouseMove_select_def split: prod.splits)
    ultimately show ?thesis using True assms(3) by (simp add: mouse_ok_def Let_def)
  qed (use assms MouseMove in \<open>simp add: sel_step_def onMouseMove_select_def\<close>)
next
  case (MouseDown e)
  then have "s' = onMouseDown env e s" using assms(5) by (simp add: sel_step_def)
  then show ?thesis using assms(3) selection_pos_ok [OF assms(1,2)]
    by (auto simp: onMouseDown_def mouse_ok_def Let_def split: prod.split)
next
  case (MouseUp e)
  then have s': "s' = fst (released env e (sel_waiting s) s)" using assms(5) by (simp add: sel_step_def)
  show ?thesis
  proof (cases "sel_waiting s = 0")
    case True
    then show ?thesis using s' assms(3) by (simp add: mouse_ok_def)
  next
    case False
    then show ?thesis unfolding s' using assms(3) by (intro released_ok assms(1,2)) (auto simp: mouse_ok_def)
  qed
next
  case (ClearSelection prevent)
  then have "s' = fst (clearSelection prevent s)" using assms(5) by (simp add: sel_step_def)
  then show ?thesis using clearSelection_ok [OF assms(3)] by simp
qed (use assms(4) in \<open>simp add: by_mouse_def\<close>)

lemma sel_run_ok:
  assumes "0 \<le> plotWidth (se_geometry env)" "0 \<le> plotHeight (se_geometry env)" "mouse_ok env s" "list_all by_mouse evs"
  shows "mouse_ok env (fst (sel_run env evs s))"
  using assms(3,4)
proof (induction evs arbitrary: s)
  case (Cons ev evs)
  show ?case
  proof (cases "sel_step env ev s")
    case None
    then show ?thesis using Cons by simp
  next
    case (Some p)
    then have "mouse_ok env (fst p)" using sel_step_ok [OF assms(1,2) Cons.prems(1)] Cons.prems(2) by (cases p) auto
    then show ?thesis using Some Cons by (auto simp: Let_def split: prod.split) (metis fst_conv)
  qed
qed simp

text \<open>
  C16. Whatever the user does with the mouse, in any order and also outside of the plot, the selection that is drawn lies inside the plot area,
  has at least five pixels in both directions, and spans the whole area along a direction that is not selected.
\<close>

theorem user_selection_inside:
  assumes "0 \<le> plotWidth (se_geometry env)" "0 \<le> plotHeight (se_geometry env)" "list_all by_mouse evs"
    and "s = fst (sel_run env evs (no_selection h k))"
  shows "(sel_active s \<longleftrightarrow> 0 < sel_waiting s)
    \<and> (case rects (draw_selection ns env s) of
         [] \<Rightarrow> draw_selection ns env s = []
       | r # rs \<Rightarrow> rs = [] \<and> (case r of (l, r, t, b) \<Rightarrow>
             0 \<le> l \<and> l + 5 \<le> r \<and> r \<le> plotWidth (se_geometry env) \<and> 0 \<le> t \<and> t + 5 \<le> b \<and> b \<le> plotHeight (se_geometry env)
           \<and> (se_mode env = SelectX \<longrightarrow> t = 0 \<and> b = plotHeight (se_geometry env))
           \<and> (se_mode env = SelectY \<longrightarrow> l = 0 \<and> r = plotWidth (se_geometry env))))"
proof -
  have ok: "mouse_ok env s" unfolding assms(4) by (intro sel_run_ok assms(1-3)) (simp add: mouse_ok_def no_selection_def)
  then have "sel_active s \<longleftrightarrow> 0 < sel_waiting s" by (simp add: mouse_ok_def)
  moreover have "(case rects (draw_selection ns env s) of
         [] \<Rightarrow> draw_selection ns env s = []
       | r # rs \<Rightarrow> rs = [] \<and> (case r of (l, r, t, b) \<Rightarrow>
             0 \<le> l \<and> l + 5 \<le> r \<and> r \<le> plotWidth (se_geometry env) \<and> 0 \<le> t \<and> t + 5 \<le> b \<and> b \<le> plotHeight (se_geometry env)
           \<and> (se_mode env = SelectX \<longrightarrow> t = 0 \<and> b = plotHeight (se_geometry env))
           \<and> (se_mode env = SelectY \<longrightarrow> l = 0 \<and> r = plotWidth (se_geometry env))))"
  proof (cases "sel_show s \<and> selectionIsSane s")
    case True
    then have "corner_ok env True (sel_first s)" "corner_ok env False (sel_second s)" using ok by (simp_all add: mouse_ok_def)
    then show ?thesis using True assms(1,2)
      by (auto simp: draw_selection_def Let_def corner_ok_def in_area_def selectionIsSane_def min_def abs_if split: if_splits)
  qed (auto simp: draw_selection_def)
  ultimately show ?thesis ..
qed

definition mouse_at :: "real \<Rightarrow> real \<Rightarrow> mouse" where
  "mouse_at x y = \<lparr>ms_which = 1, ms_pageX = Some x, ms_pageY = Some y\<rparr>"

theorem user_selection_inside_witness:
  "let s = fst (sel_run (demo_env SelectX) [MouseDown (mouse_at 50 40), MouseMove (mouse_at 900 45)] (no_selection NoHandler NoHandler))
   in sel_active s \<and> sel_show s \<and> (\<exists>l r t b. rects (draw_selection (\<lambda>_. ''1'') (demo_env SelectX) s) = [(l, r, t, b)] \<and> r \<le> 400)"
  using user_selection_inside [OF _ _ _ refl, of "demo_env SelectX"
      "[MouseDown (mouse_at 50 40), MouseMove (mouse_at 900 45)]" NoHandler NoHandler "\<lambda>_. ''1''"]
  by (simp add: demo_env_def by_mouse_def sel_step_def onMouseDown_def onMouseMove_select_def no_selection_def block_def mouse_at_def
      selection_pos_def clamp_def updateSelection_def selectionIsSane_def draw_selection_def Let_def)

end
