(* ===== verification/Crosshair.thy ===== *)
theory Crosshair
  imports Selection
begin

text \<open>
  The crosshair plugin, \<open>static/flot/jquery.flot.crosshair.js\<close>: the position of the crosshair, the functions that set and lock it,
  the handlers of the mouse and the drawing on the overlay. With the selection plugin on the same plot the crosshair is
  hidden as long as there is a selection.
\<close>

section \<open>State and functions\<close>

record crosshair =
  cr_x :: real
  cr_y :: real
  cr_locked :: bool

record crosshair_options =
  cro_mode :: "string option"
  cro_color :: markup
  cro_width :: real

definition no_crosshair :: crosshair where
  "no_crosshair = \<lparr>cr_x = - 1, cr_y = - 1, cr_locked = False\<rparr>"

definition default_crosshair :: crosshair_options where
  "default_crosshair = \<lparr>cro_mode = None, cro_color = [T ''rgba(170, 0, 0, 0.80)''], cro_width = 1\<rparr>"

text \<open>\<open>Math.max(0, Math.min(v, hi))\<close>\<close>

definition into :: "real \<Rightarrow> real \<Rightarrow> real" where
  "into v hi = max 0 (min v hi)"

text \<open>
  A position in the units of the axes, or none; a coordinate that no axis has is an error here: it becomes NaN in the code. The
  Boolean asks for the overlay to be redrawn.
\<close>

definition setCrosshair :: "geometry \<Rightarrow> axes \<Rightarrow> axes \<Rightarrow> (string \<Rightarrow> real option) option \<Rightarrow> crosshair \<Rightarrow> (crosshair \<times> bool) option" where
  "setCrosshair g xs ys pos c =
     (case pos of
        None \<Rightarrow> Some (c\<lparr>cr_x := - 1\<rparr>, True)
      | Some p \<Rightarrow>
          (case axisToCanvasCoords xs ys p of
             (Some l, Some t) \<Rightarrow> Some (c\<lparr>cr_x := into l (plotWidth g), cr_y := into t (plotHeight g)\<rparr>, True)
           | _ \<Rightarrow> None))"

definition lockCrosshair :: "geometry \<Rightarrow> axes \<Rightarrow> axes \<Rightarrow> (string \<Rightarrow> real option) option \<Rightarrow> crosshair \<Rightarrow> (crosshair \<times> bool) option" where
  "lockCrosshair g xs ys pos c =
     map_option (\<lambda>(c1, r). (c1\<lparr>cr_locked := True\<rparr>, r)) (case pos of None \<Rightarrow> Some (c, False) | Some _ \<Rightarrow> setCrosshair g xs ys pos c)"

definition unlockCrosshair :: "crosshair \<Rightarrow> crosshair" where
  "unlockCrosshair c = c\<lparr>cr_locked := False\<rparr>"

section \<open>The mouse\<close>

definition onMouseOut :: "crosshair \<Rightarrow> crosshair \<times> bool" where
  "onMouseOut c =
     (if cr_locked c then (c, False) else if cr_x c \<noteq> - 1 then (c\<lparr>cr_x := - 1\<rparr>, True) else (c, False))"

text \<open>
  The mouse moves. \<open>selecting\<close> is the selection of the plot (\<open>None\<close> also when there is no selection plugin), \<open>offset\<close> the place of the
  plot area on the page.
\<close>

definition onMouseMove_crosshair :: "geometry \<Rightarrow> real \<times> real \<Rightarrow> ranges option \<Rightarrow> real \<Rightarrow> real \<Rightarrow> crosshair \<Rightarrow> crosshair \<times> bool" where
  "onMouseMove_crosshair g offset selecting pageX pageY c =
     (if cr_locked c then (c, False)
      else if selecting \<noteq> None then (c\<lparr>cr_x := - 1\<rparr>, False)
      else (c\<lparr>cr_x := into (pageX - fst offset) (plotWidth g), cr_y := into (pageY - snd offset) (plotHeight g)\<rparr>, True))"

section \<open>Drawing\<close>

definition drawCrosshair :: "crosshair_options \<Rightarrow> geometry \<Rightarrow> crosshair \<Rightarrow> drawing" where
  "drawCrosshair opts g c =
     (case cro_mode opts of
        None \<Rightarrow> []
      | Some m \<Rightarrow>
          if m = [] then []
          else
            [Save, Translate (plotLeft g) (plotTop g)]
            @ (if cr_x c \<noteq> - 1 then
                 [StrokeStyle (Css (cro_color opts)), LineWidth (cro_width opts), LineJoin ''round'', BeginPath]
                 @ (if CHR ''x'' \<in> set m then [MoveTo (cr_x c) 0, LineTo (cr_x c) (plotHeight g)] else [])
                 @ (if CHR ''y'' \<in> set m then [MoveTo 0 (cr_y c), LineTo (plotWidth g) (cr_y c)] else [])
                 @ [Stroke]
               else [])
            @ [Restore])"

section \<open>Using a crosshair\<close>

datatype cross_event =
    CrossMove real real "ranges option"
  | CrossOut
  | CrossSet "(string \<Rightarrow> real option) option"
  | CrossLock "(string \<Rightarrow> real option) option"
  | CrossUnlock

definition cross_step :: "geometry \<Rightarrow> real \<times> real \<Rightarrow> axes \<Rightarrow> axes \<Rightarrow> cross_event \<Rightarrow> crosshair \<Rightarrow> crosshair" where
  "cross_step g offset xs ys ev c =
     (case ev of
        CrossMove x y selecting \<Rightarrow> fst (onMouseMove_crosshair g offset selecting x y c)
      | CrossOut \<Rightarrow> fst (onMouseOut c)
      | CrossSet pos \<Rightarrow> (case setCrosshair g xs ys pos c of Some (c1, _) \<Rightarrow> c1 | None \<Rightarrow> c)
      | CrossLock pos \<Rightarrow> (case lockCrosshair g xs ys pos c of Some (c1, _) \<Rightarrow> c1 | None \<Rightarrow> c)
      | CrossUnlock \<Rightarrow> unlockCrosshair c)"

definition cross_run :: "geometry \<Rightarrow> real \<times> real \<Rightarrow> axes \<Rightarrow> axes \<Rightarrow> cross_event list \<Rightarrow> crosshair \<Rightarrow> crosshair" where
  "cross_run g offset xs ys evs c = foldl (\<lambda>c ev. cross_step g offset xs ys ev c) c evs"

section \<open>The crosshair stays inside the plot\<close>

definition crosshair_ok :: "geometry \<Rightarrow> crosshair \<Rightarrow> bool" where
  "crosshair_ok g c \<longleftrightarrow> cr_x c \<noteq> - 1 \<longrightarrow> 0 \<le> cr_x c \<and> cr_x c \<le> plotWidth g \<and> 0 \<le> cr_y c \<and> cr_y c \<le> plotHeight g"

lemma into_bounds: "0 \<le> hi \<Longrightarrow> 0 \<le> into v hi \<and> into v hi \<le> hi"
  by (simp add: into_def)

lemma setCrosshair_ok:
  "0 \<le> plotWidth g \<Longrightarrow> 0 \<le> plotHeight g \<Longrightarrow> setCrosshair g xs ys pos c = Some (c', r) \<Longrightarrow> crosshair_ok g c'"
  using into_bounds by (auto simp: setCrosshair_def crosshair_ok_def split: option.splits prod.splits)

lemma cross_step_ok:
  assumes "0 \<le> plotWidth g" "0 \<le> plotHeight g" "crosshair_ok g c"
  shows "crosshair_ok g (cross_step g offset xs ys ev c)"
proof (cases ev)
  case (CrossLock pos)
  have "crosshair_ok g (d\<lparr>cr_locked := True\<rparr>) = crosshair_ok g d" for d by (simp add: crosshair_ok_def)
  then show ?thesis using CrossLock assms(3) setCrosshair_ok [OF assms(1,2)]
    by (auto simp: cross_step_def lockCrosshair_def split: option.splits prod.splits)
qed (use assms into_bounds setCrosshair_ok [OF assms(1,2)] in
    \<open>auto simp: cross_step_def onMouseMove_crosshair_def onMouseOut_def unlockCrosshair_def crosshair_ok_def split: option.splits prod.splits\<close>)

lemma cross_run_ok:
  "0 \<le> plotWidth g \<Longrightarrow> 0 \<le> plotHeight g \<Longrightarrow> crosshair_ok g c \<Longrightarrow> crosshair_ok g (cross_run g offset xs ys evs c)"
  by (induction evs arbitrary: c) (simp_all add: cross_run_def cross_step_ok)

text \<open>A locked crosshair ignores the mouse.\<close>

lemma locked_ignores_mouse:
  assumes "cr_locked c" "\<forall>ev \<in> set evs. case ev of CrossMove _ _ _ \<Rightarrow> True | CrossOut \<Rightarrow> True | _ \<Rightarrow> False"
  shows "cross_run g offset xs ys evs c = c"
proof -
  have "cross_step g offset xs ys ev c = c" if "ev \<in> set evs" for ev
    using assms that by (cases ev) (force simp: cross_step_def onMouseMove_crosshair_def onMouseOut_def)+
  then show ?thesis unfolding cross_run_def by (induction evs) simp_all
qed

text \<open>While there is a selection the mouse does not show the crosshair.\<close>

lemma selection_hides_crosshair:
  assumes "getSelection env s = Some r" "\<not> cr_locked c"
  shows "rects (drawCrosshair opts g (fst (onMouseMove_crosshair g offset (getSelection env s) x y c))) = []
    \<and> vertices (drawCrosshair opts g (fst (onMouseMove_crosshair g offset (getSelection env s) x y c))) = []"
  using assms by (simp add: drawCrosshair_def onMouseMove_crosshair_def split: option.split)

text \<open>What is drawn lies inside the plot area, whatever the user and the program do.\<close>

lemma crosshair_inside:
  assumes "0 \<le> plotWidth g" "0 \<le> plotHeight g"
  shows "\<forall>(x, y) \<in> set (vertices (drawCrosshair opts g (cross_run g offset xs ys evs no_crosshair))).
    0 \<le> x \<and> x \<le> plotWidth g \<and> 0 \<le> y \<and> y \<le> plotHeight g"
proof -
  have "crosshair_ok g (cross_run g offset xs ys evs no_crosshair)"
    by (intro cross_run_ok assms) (simp add: crosshair_ok_def no_crosshair_def)
  then show ?thesis using assms by (auto simp: drawCrosshair_def crosshair_ok_def split: option.splits)
qed

end
