(* ===== verification/Relayout.thy ===== *)
theory Relayout
  imports Grid
begin

text \<open>
  Laying out a plot again, for the parts of the program that set the range of an axis through its options: \<open>setupGrid\<close> gives such
  an axis exactly that range, and the coordinate maps that belong to it.
\<close>

section \<open>An axis after laying out\<close>

text \<open>What laying out does to the range and the maps of an axis whose range is given by its options.\<close>

definition relaid :: "real \<Rightarrow> real \<Rightarrow> axis \<Rightarrow> axis" where
  "relaid w h a = setTransformationHelpers w h (setRange a)"

lemma setRange_fixed:
  assumes "opt_min (ax_options a) = Some lo" "opt_max (ax_options a) = Some hi" "lo < hi"
  shows "ax_min (setRange a) = lo" "ax_max (setRange a) = hi"
  using assms by (auto simp: setRange_def Let_def split: option.split)

definition untransformed :: "axis \<Rightarrow> bool" where
  "untransformed a \<longleftrightarrow> opt_transform (ax_options a) = None \<and> opt_inverseTransform (ax_options a) = None"

lemma relaid_fixed:
  assumes "opt_min (ax_options a) = Some lo" "opt_max (ax_options a) = Some hi" "lo < hi" "0 < w" "0 < h" "untransformed a"
  shows "laid_out w h (relaid w h a)" "ax_min (relaid w h a) = lo" "ax_max (relaid w h a) = hi"
  using assms setRange_fixed [OF assms(1-3)] by (auto simp: relaid_def untransformed_def intro!: setTransformationHelpers_laid_out)

lemma relaid_frame: "ax_options (relaid w h a) = ax_options a" "ax_direction (relaid w h a) = ax_direction a"
  by (simp_all add: relaid_def)

text \<open>The position along the direction of an axis.\<close>

definition along_axis :: "axis \<Rightarrow> real \<times> real \<Rightarrow> real" where
  "along_axis a p = (case ax_direction a of X \<Rightarrow> fst p | Y \<Rightarrow> snd p)"

definition axis_extent :: "axis \<Rightarrow> real \<Rightarrow> real \<Rightarrow> real" where
  "axis_extent a w h = (case ax_direction a of X \<Rightarrow> w | Y \<Rightarrow> h)"

text \<open>The ends of the area are the ends of the range.\<close>

lemma laid_out_ends:
  assumes "laid_out w h a"
  shows "ax_c2p a 0 = (case ax_direction a of X \<Rightarrow> ax_min a | Y \<Rightarrow> ax_max a)"
    and "ax_c2p a (axis_extent a w h) = (case ax_direction a of X \<Rightarrow> ax_max a | Y \<Rightarrow> ax_min a)"
  using assms by (auto simp: laid_out_def axis_extent_def Let_def split: direction.splits)

lemma laid_out_c2p:
  assumes "laid_out w h a"
  shows "ax_c2p a c = (case ax_direction a of X \<Rightarrow> ax_min a + c * (ax_max a - ax_min a) / w | Y \<Rightarrow> ax_max a - c * (ax_max a - ax_min a) / h)"
  using assms by (auto simp: laid_out_def Let_def split: direction.splits)

section \<open>Laying out keeps a fixed range\<close>

definition fixed :: "axis \<Rightarrow> bool" where
  "fixed a \<longleftrightarrow> opt_min (ax_options a) \<noteq> None \<and> opt_max (ax_options a) \<noteq> None"

definition same_range :: "axis \<Rightarrow> axis \<Rightarrow> bool" where
  "same_range a b \<longleftrightarrow> same_frame a b \<and> ax_min b = ax_min a \<and> ax_max b = ax_max a"

lemma same_range_trans: "same_range a b \<Longrightarrow> same_range b c \<Longrightarrow> same_range a c"
  by (auto simp: same_range_def same_frame_def)

lemma same_range_fixed: "same_range a b \<Longrightarrow> fixed b = fixed a"
  by (simp add: same_range_def same_frame_def fixed_def)

lemma same_range_refl [simp]: "same_range a a"
  by (simp add: same_range_def)

lemma base_generation_range: "base_generation delta a = Some b \<Longrightarrow> same_range a b"
  using base_generation_frame by (auto simp: same_range_def base_generation_def Let_def split: if_splits prod.splits)

lemma extra_decimal_range:
  assumes "extra_decimal ns delta ts a = Some b"
  shows "same_range a b"
proof -
  define e where "e = max 0 (- log10_floor delta + 1)"
  define r where "r = toFixed (ts ! 1 - ts ! 0) e"
  show ?thesis using assms extra_decimal_frame [OF assms] unfolding extra_decimal_def Let_def e_def [symmetric] r_def [symmetric]
    by (auto simp: same_range_def split: if_splits)
qed

lemma widen_to_ticks_fixed: "fixed a \<Longrightarrow> widen_to_ticks ts a = a"
  by (auto simp: widen_to_ticks_def fixed_def Let_def)

lemma align_ticks_range:
  assumes "align_ticks ns delta all a = Some b" "fixed a"
  shows "same_range a b"
proof (cases "a = b")
  case False
  then obtain k nice ts where "extra_decimal ns delta ts ((widen_to_ticks nice a)\<lparr>ax_tickGenerator := TicksOf k\<rparr>) = Some b"
    using assms(1) unfolding align_ticks_def Let_def by (auto simp: bind_eq_Some_conv split: option.splits if_splits)
  then have "same_range (a\<lparr>ax_tickGenerator := TicksOf k\<rparr>) b" unfolding widen_to_ticks_fixed [OF assms(2)] by (rule extra_decimal_range)
  then show ?thesis by (simp add: same_range_def same_frame_def)
qed simp

lemma prepare_axis_range:
  assumes "prepare_axis ns page g all a = Some b" "fixed a"
  shows "same_range a b"
proof -
  obtain a1 a2 where a1: "setupTickGeneration ns (canvasWidth g) (canvasHeight g) all a = Some a1" and a2: "setTicks all a1 = Some a2"
    and b: "b = measureTickLabels ns page (canvasWidth g) (snapRangeToTicks a2 (case ax_ticks a2 of None \<Rightarrow> [] | Some ts \<Rightarrow> ts))"
    using assms(1) by (auto simp: prepare_axis_def bind_eq_Some_conv)
  obtain a3 a4 where a4: "base_generation (tick_delta (canvasWidth g) (canvasHeight g) a) a = Some a3"
    "align_ticks ns (tick_delta (canvasWidth g) (canvasHeight g) a) all a3 = Some a4"
    "a1 = (if opt_tickFormatter (ax_options a) \<noteq> None then a4\<lparr>ax_tickFormatter := OptionFormat\<rparr> else a4)"
    using a1 unfolding setupTickGeneration_def Let_def bind_eq_Some_conv by auto
  have "same_range a a3" by (rule base_generation_range [OF a4(1)])
  then have "same_range a a4" using align_ticks_range [OF a4(2)] same_range_fixed assms(2) same_range_trans by blast
  then have "same_range a a1" using a4(3) by (simp add: same_range_def)
  then have s2: "same_range a a2" using a2 by (auto simp: setTicks_def bind_eq_Some_conv same_range_def same_frame_def)
  then have "fixed a2" using same_range_fixed assms(2) by blast
  then have "snapRangeToTicks a2 ts = a2" for ts by (auto simp: snapRangeToTicks_def fixed_def Let_def)
  then have "b = measureTickLabels ns page (canvasWidth g) a2" using b by simp
  then show ?thesis using s2 measureTickLabels_frame [of a2 ns page "canvasWidth g"]
    by (auto simp: same_range_def measureTickLabels_def Let_def same_frame_def split: direction.splits)
qed

text \<open>Axes of a fixed range through the loops of the layout.\<close>

definition keeps_fixed :: "axes \<times> axes \<Rightarrow> axes \<times> axes \<Rightarrow> bool" where
  "keeps_fixed p p' \<longleftrightarrow> both_ok p' \<and>
     (\<forall>i a. 0 < snd i \<longrightarrow> get_axis i p = Some a \<longrightarrow> fixed a \<longrightarrow> (\<exists>b. get_axis i p' = Some b \<and> same_range a b))"

lemma keeps_fixed_trans: "keeps_fixed p q \<Longrightarrow> keeps_fixed q r \<Longrightarrow> keeps_fixed p r"
  unfolding keeps_fixed_def by (metis same_range_fixed same_range_trans)

lemma keeps_fixed_set:
  assumes "both_ok p" "get_axis i p = Some a" "0 < snd i" "same_frame a b" "fixed a \<longrightarrow> same_range a b"
  shows "keeps_fixed p (set_axis b p)"
proof -
  have id: "axis_id a = i" by (rule get_axis_id [OF assms(1-3)])
  then have b: "axis_id b = i" "0 < ax_n b" using assms(3,4) by (auto simp: same_frame_def axis_id_def)
  have "get_axis k (set_axis b p) = (if k = i then Some b else get_axis k p)" if "0 < snd k" for k
    using get_set_axis [of b p k] b assms(2) that by simp
  then show ?thesis unfolding keeps_fixed_def using set_axis_ok [OF assms(1) b(2)] assms(2,5) by auto
qed

lemma prepare_axes_range:
  assumes "prepare_axes ns page g is p = Some p'" "both_ok p" "\<forall>i \<in> set is. 0 < snd i"
  shows "keeps_fixed p p'"
  using assms
proof (induction "is" arbitrary: p)
  case Nil
  then show ?case by (auto simp: keeps_fixed_def intro: same_range_refl)
next
  case (Cons i "is")
  then obtain a b where a: "get_axis i p = Some a" "prepare_axis ns page g (axes_of (fst i) p) a = Some b"
    "prepare_axes ns page g is (set_axis b p) = Some p'"
    by (auto split: option.splits)
  have "keeps_fixed p (set_axis b p)"
    using Cons.prems(2,3) a(1) prepare_axis_frame [OF a(2)] prepare_axis_range [OF a(2)] by (intro keeps_fixed_set) auto
  moreover have "keeps_fixed (set_axis b p) p'"
    using Cons.IH [OF a(3)] Cons.prems(3) calculation by (auto simp: keeps_fixed_def)
  ultimately show ?case by (rule keeps_fixed_trans)
qed

lemma allocate_boxes_range:
  assumes "allocate_boxes grid is p g = (p', g')" "both_ok p" "\<forall>i \<in> set is. 0 < snd i"
  shows "keeps_fixed p p'"
  using assms
proof (induction "is" arbitrary: p g)
  case Nil
  then show ?case by (auto simp: keeps_fixed_def intro: same_range_refl)
next
  case (Cons i "is")
  show ?case
  proof (cases "get_axis i p")
    case None
    then show ?thesis using Cons by simp
  next
    case (Some a)
    obtain b g1 where b: "allocateAxisBoxFirstPhase grid (axes_of (fst i) p) a g = (b, g1)" by fastforce
    then have rest: "allocate_boxes grid is (set_axis b p) g1 = (p', g')" using Cons.prems(1) Some by simp
    have "same_range a b" using first_phase_frame [OF b] first_phase_ticks [OF b] by (simp add: same_range_def same_frame_def)
    then have "keeps_fixed p (set_axis b p)" using Cons.prems(2,3) Some by (intro keeps_fixed_set) (auto simp: same_range_def)
    moreover have "keeps_fixed (set_axis b p) p'" using Cons.IH [OF rest] Cons.prems(3) calculation by (auto simp: keeps_fixed_def)
    ultimately show ?thesis by (rule keeps_fixed_trans)
  qed
qed

text \<open>
  The whole layout: an axis whose options give a proper range has this range afterwards, and its maps are those of the range
  over the new plot area.
\<close>

lemma setTransformationHelpers_cong:
  assumes "ax_options b = ax_options a" "ax_direction b = ax_direction a" "ax_min b = ax_min a" "ax_max b = ax_max a"
  shows "ax_p2c (setTransformationHelpers w h b) = ax_p2c (setTransformationHelpers w h a)"
    "ax_c2p (setTransformationHelpers w h b) = ax_c2p (setTransformationHelpers w h a)"
  unfolding setTransformationHelpers_maps map_offset_def map_factor_def Let_def assms by (rule refl)+

lemma setupGrid_fixed:
  assumes "setupGrid ns page computed dims pl = Some (pl', labels, lg)" "axes_ok X (pl_xaxes pl)" "axes_ok Y (pl_yaxes pl)"
    and "get_axis i (pl_xaxes pl, pl_yaxes pl) = Some a" "0 < snd i"
    and "opt_min (ax_options a) = Some lo" "opt_max (ax_options a) = Some hi" "lo < hi"
  shows "both_ok (pl_xaxes pl', pl_yaxes pl') \<and> (\<exists>b. get_axis i (pl_xaxes pl', pl_yaxes pl') = Some b \<and> ax_options b = ax_options a
    \<and> ax_direction b = ax_direction a \<and> ax_min b = lo \<and> ax_max b = hi
    \<and> (let r = relaid (plotWidth (pl_geometry pl')) (plotHeight (pl_geometry pl')) a in ax_p2c b = ax_p2c r \<and> ax_c2p b = ax_c2p r))"
proof -
  have ok: "both_ok (pl_xaxes pl, pl_yaxes pl)" using assms(2,3) by (simp add: both_ok_def)
  have pos: "\<forall>i \<in> set (box_ids pl). 0 < snd i" using box_ids_axis [OF ok] by blast
  obtain p4 g2 where p4: "boxed_axes ns page pl = Some (p4, g2)"
    and g: "pl' = pl\<lparr>pl_xaxes := pl_xaxes pl', pl_yaxes := pl_yaxes pl', pl_geometry := plot_area g2\<rparr>"
    and p6: "(pl_xaxes pl', pl_yaxes pl') = finish_axes (gr_show (pl_grid pl)) (box_ids pl) (plot_area g2) p4"
    by (rule setupGrid_result [OF assms(1)])
  define G where "G = plot_area g2"
  have G: "pl_geometry pl' = G" using arg_cong [OF g, of pl_geometry] by (simp add: G_def)
  have "keeps_fixed (shown_axes pl) p4"
  proof (cases "gr_show (pl_grid pl)")
    case True
    obtain p2 g1 where p2: "prepare_axes ns page (no_offsets (pl_geometry pl)) (box_ids pl) (shown_axes pl) = Some p2"
      and p3: "allocate_boxes (pl_grid pl) (rev (box_ids pl)) p2 (no_offsets (pl_geometry pl)) = (p4, g1)"
      by (rule boxed_axes_shown [OF True p4])
    have k: "keeps_fixed (shown_axes pl) p2" by (rule prepare_axes_range [OF p2 shown_axes_ok [OF ok] pos])
    then have "keeps_fixed p2 p4" by (intro allocate_boxes_range [OF p3]) (use pos in \<open>simp_all add: keeps_fixed_def\<close>)
    then show ?thesis using k keeps_fixed_trans by blast
  next
    case False
    then show ?thesis using p4 shown_axes_ok [OF ok] by (auto simp: boxed_axes_def keeps_fixed_def intro: same_range_refl)
  qed
  moreover have "get_axis i (shown_axes pl) = Some (show_axis a)" "fixed (show_axis a)"
    using assms(4,6,7) by (simp_all add: shown_axes_def get_on_axes fixed_def show_axis_frame)
  ultimately obtain b where b: "get_axis i p4 = Some b" "same_range (show_axis a) b" and ok4: "both_ok p4"
    using assms(5) unfolding keeps_fixed_def by blast
  have second: "ax_p2c (allocateAxisBoxSecondPhase G c) = ax_p2c c" "ax_c2p (allocateAxisBoxSecondPhase G c) = ax_c2p c"
    "ax_options (allocateAxisBoxSecondPhase G c) = ax_options c" for c
    by (simp_all add: allocateAxisBoxSecondPhase_def split: direction.split)
  have range: "ax_options b = ax_options a" "ax_direction b = ax_direction a" "ax_min b = lo" "ax_max b = hi"
    using b(2) setRange_fixed [OF assms(6-8)] setRange_fixed [of "a\<lparr>ax_show := s, ax_reserveSpace := r\<rparr>" lo hi for s r] assms(6-8)
    by (auto simp: same_range_def same_frame_def show_axis_def Let_def)
  let ?b = "setTransformationHelpers (plotWidth G) (plotHeight G) b"
  have maps: "ax_p2c ?b = ax_p2c (relaid (plotWidth G) (plotHeight G) a)" "ax_c2p ?b = ax_c2p (relaid (plotWidth G) (plotHeight G) a)"
    unfolding relaid_def using range setRange_fixed [OF assms(6-8)] by (auto intro!: setTransformationHelpers_cong)
  let ?e = "if gr_show (pl_grid pl) \<and> axis_id ?b \<in> set (box_ids pl) then allocateAxisBoxSecondPhase G ?b else ?b"
  have "get_axis i (pl_xaxes pl', pl_yaxes pl') = Some ?e"
    unfolding p6 finish_axes_def G_def [symmetric] Let_def by (simp add: get_on_axes b(1))
  moreover obtain e where "e = ?e" "e = ?b \<or> e = allocateAxisBoxSecondPhase G ?b" by simp
  ultimately have e: "get_axis i (pl_xaxes pl', pl_yaxes pl') = Some e" "e = ?b \<or> e = allocateAxisBoxSecondPhase G ?b" by simp_all
  have "both_ok (pl_xaxes pl', pl_yaxes pl')" unfolding p6 by (rule finish_axes_ok [OF ok4])
  then show ?thesis using e range maps second final_ticks by (auto simp: G Let_def)
qed

end
