(* ===== verification/Navigate.thy ===== *)
theory Navigate
  imports Relayout
begin

text \<open>
  The navigation plugin, \<open>static/flot/jquery.flot.navigate.js\<close>: zooming and panning the axes of a plot, and dragging with
  the mouse. (The two libraries for mouse events at the head of the file are not part of the program.)
\<close>

section \<open>Redrawing\<close>

text \<open>What laying out and drawing need from outside of the plot.\<close>

record browser =
  bw_number :: "real \<Rightarrow> string"
  bw_page :: page
  bw_computed :: "color option"
  bw_legend_size :: "real \<times> real"
  bw_series_hooks :: "(series \<Rightarrow> drawing option) list"
  bw_draw_hooks :: "drawing option list"

text \<open>\<open>plot.setupGrid()\<close> and \<open>plot.draw()\<close>: the plot and its drawing.\<close>

definition redraw :: "browser \<Rightarrow> plot \<Rightarrow> (plot \<times> drawing) option" where
  "redraw bw pl =
     (case setupGrid (bw_number bw) (bw_page bw) (bw_computed bw) (bw_legend_size bw) pl of
        None \<Rightarrow> None
      | Some (pl', _, _) \<Rightarrow> map_option (\<lambda>d. (pl', d)) (draw (bw_number bw) (bw_series_hooks bw) (bw_draw_hooks bw) pl'))"

text \<open>A function on every axis; each axis writes its own options only.\<close>

definition each_axis :: "(axis \<Rightarrow> axis) \<Rightarrow> plot \<Rightarrow> plot" where
  "each_axis f pl = pl\<lparr>pl_xaxes := map (map_option f) (pl_xaxes pl), pl_yaxes := map (map_option f) (pl_yaxes pl)\<rparr>"

section \<open>Zooming\<close>

record zoom_args =
  za_center :: "(real \<times> real) option"
  za_amount :: "real option"
  za_preventEvent :: bool

definition zoom_amount :: "real \<Rightarrow> zoom_args \<Rightarrow> real" where
  "zoom_amount preset args = (case za_amount args of Some x \<Rightarrow> if x \<noteq> 0 then x else preset | None \<Rightarrow> preset)"

text \<open>The part of an extent of pixels that becomes the whole.\<close>

definition zoom_pixels :: "real \<Rightarrow> real \<Rightarrow> real \<Rightarrow> real \<times> real" where
  "zoom_pixels len c amount = (let f = c / len in (c - f * len / amount, c + (1 - f) * len / amount))"

definition zoom_axis :: "real \<Rightarrow> real \<Rightarrow> real \<times> real \<Rightarrow> real \<Rightarrow> axis \<Rightarrow> axis" where
  "zoom_axis w h c amount a =
     (let (p, q) = (case ax_direction a of X \<Rightarrow> zoom_pixels w (fst c) amount | Y \<Rightarrow> zoom_pixels h (snd c) amount);
          lo = min (ax_c2p a p) (ax_c2p a q); hi = max (ax_c2p a p) (ax_c2p a q); range = hi - lo;
          zoomed = a\<lparr>ax_options := (ax_options a)\<lparr>opt_min := Some lo, opt_max := Some hi\<rparr>\<rparr>
      in case opt_zoomRange (ax_options a) of
           Disabled \<Rightarrow> a
         | NoRange \<Rightarrow> zoomed
         | Bounds least most \<Rightarrow>
             if (case least of Some m \<Rightarrow> range < m | None \<Rightarrow> False) \<or> (case most of Some m \<Rightarrow> range > m | None \<Rightarrow> False) then a
             else zoomed)"

text \<open>
  \<open>None\<close> also stands for an amount of zero or a plot of no size, where the new range is not a number. The Boolean says whether
  \<open>plotzoom\<close> is triggered.
\<close>

definition zoom :: "browser \<Rightarrow> real \<Rightarrow> zoom_args \<Rightarrow> plot \<Rightarrow> (plot \<times> drawing \<times> bool) option" where
  "zoom bw preset args pl =
     (let w = plotWidth (pl_geometry pl); h = plotHeight (pl_geometry pl); amount = zoom_amount preset args;
          c = (case za_center args of Some c \<Rightarrow> c | None \<Rightarrow> (w / 2, h / 2))
      in if w = 0 \<or> h = 0 \<or> amount = 0 then None
         else map_option (\<lambda>(pl', d). (pl', d, \<not> za_preventEvent args)) (redraw bw (each_axis (zoom_axis w h c amount) pl)))"

text \<open>Zooming out writes into the arguments of the caller.\<close>

definition out_args :: "real \<Rightarrow> zoom_args \<Rightarrow> zoom_args" where
  "out_args preset args = args\<lparr>za_amount := Some (1 / zoom_amount preset args)\<rparr>"

definition zoomOut :: "browser \<Rightarrow> real \<Rightarrow> zoom_args \<Rightarrow> plot \<Rightarrow> (plot \<times> drawing \<times> bool) option \<times> zoom_args" where
  "zoomOut bw preset args pl = (zoom bw preset (out_args preset args) pl, out_args preset args)"

text \<open>A click or the wheel of the mouse at a place of the page; \<open>offset\<close> is the place of the plot area.\<close>

definition onZoomClick :: "browser \<Rightarrow> real \<Rightarrow> real \<times> real \<Rightarrow> real \<times> real \<Rightarrow> bool \<Rightarrow> plot \<Rightarrow> (plot \<times> drawing \<times> bool) option" where
  "onZoomClick bw preset offset e out pl =
     (let args = \<lparr>za_center = Some (fst e - fst offset, snd e - snd offset), za_amount = None, za_preventEvent = False\<rparr>
      in if out then fst (zoomOut bw preset args pl) else zoom bw preset args pl)"

definition onMouseWheel :: "browser \<Rightarrow> real \<Rightarrow> real \<times> real \<Rightarrow> real \<times> real \<Rightarrow> real \<Rightarrow> plot \<Rightarrow> (plot \<times> drawing \<times> bool) option" where
  "onMouseWheel bw preset offset e delta = onZoomClick bw preset offset e (delta < 0)"

section \<open>Panning\<close>

text \<open>Both bounds of the range a plot may be panned to, one after the other.\<close>

definition hit_wall :: "real option \<Rightarrow> real option \<Rightarrow> real \<times> real \<Rightarrow> real \<times> real" where
  "hit_wall least most r =
     (let r1 = (case least of Some b \<Rightarrow> if b > fst r then (fst r + (b - fst r), snd r + (b - fst r)) else r | None \<Rightarrow> r)
      in case most of Some b \<Rightarrow> if b < snd r1 then (fst r1 + (b - snd r1), snd r1 + (b - snd r1)) else r1 | None \<Rightarrow> r1)"

definition pan_axis :: "real \<times> real \<Rightarrow> axis \<Rightarrow> axis" where
  "pan_axis delta a =
     (let d = (case ax_direction a of X \<Rightarrow> fst delta | Y \<Rightarrow> snd delta);
          r = (ax_c2p a (ax_p2c a (ax_min a) + d), ax_c2p a (ax_p2c a (ax_max a) + d));
          moved = (\<lambda>r. a\<lparr>ax_options := (ax_options a)\<lparr>opt_min := Some (fst r), opt_max := Some (snd r)\<rparr>\<rparr>)
      in case opt_panRange (ax_options a) of
           Disabled \<Rightarrow> a
         | NoRange \<Rightarrow> moved r
         | Bounds least most \<Rightarrow> moved (hit_wall least most r))"

text \<open>The distances are zero where they are no numbers.\<close>

definition pan :: "browser \<Rightarrow> real option \<Rightarrow> real option \<Rightarrow> bool \<Rightarrow> plot \<Rightarrow> (plot \<times> drawing \<times> bool) option" where
  "pan bw left upper preventEvent pl =
     map_option (\<lambda>(pl', d). (pl', d, \<not> preventEvent)) (redraw bw (each_axis (pan_axis (num0 left, num0 upper)) pl))"

section \<open>Dragging\<close>

text \<open>
  The cursor of the placeholder, the remembered cursor and position, and the event of the mouse that a running timer will pan to.
\<close>

record dragging =
  dg_cursor :: string
  dg_prevCursor :: string
  dg_prev :: "real \<times> real"
  dg_timeout :: "(real \<times> real) option"

datatype drag_event = DragStart nat real real | Drag real real | PanTimer | DragEnd real real

text \<open>The state after an event, and the distance by which the plot is panned.\<close>

definition drag_step :: "string \<Rightarrow> real \<Rightarrow> drag_event \<Rightarrow> dragging \<Rightarrow> dragging \<times> (real \<times> real) list" where
  "drag_step cursor frameRate ev s =
     (case ev of
        DragStart which x y \<Rightarrow>
          if which \<noteq> 1 then (s, [])
          else (s\<lparr>dg_prevCursor := (if dg_cursor s \<noteq> [] then dg_cursor s else dg_prevCursor s), dg_cursor := cursor, dg_prev := (x, y)\<rparr>, [])
      | Drag x y \<Rightarrow> if dg_timeout s \<noteq> None \<or> frameRate = 0 then (s, []) else (s\<lparr>dg_timeout := Some (x, y)\<rparr>, [])
      | PanTimer \<Rightarrow>
          (case dg_timeout s of
             None \<Rightarrow> (s, [])
           | Some e \<Rightarrow> (s\<lparr>dg_prev := e, dg_timeout := None\<rparr>, [(fst (dg_prev s) - fst e, snd (dg_prev s) - snd e)]))
      | DragEnd x y \<Rightarrow>
          (s\<lparr>dg_timeout := None, dg_cursor := dg_prevCursor s\<rparr>, [(fst (dg_prev s) - x, snd (dg_prev s) - y)]))"

fun drag_run :: "string \<Rightarrow> real \<Rightarrow> drag_event list \<Rightarrow> dragging \<Rightarrow> dragging \<times> (real \<times> real) list" where
  "drag_run cursor frameRate [] s = (s, [])"
| "drag_run cursor frameRate (ev # evs) s =
     (let (s1, ps) = drag_step cursor frameRate ev s; (s2, qs) = drag_run cursor frameRate evs s1 in (s2, ps @ qs))"

section \<open>Zooming in and out again\<close>

lemma zoom_pixels_stretch:
  assumes "0 < len" "0 < k"
  shows "zoom_pixels len c k = (c + (1 / k) * (0 - c), c + (1 / k) * (len - c))"
  using assms by (simp add: zoom_pixels_def Let_def field_simps)

text \<open>The range an axis is given: every distance from the centre is divided by the amount.\<close>

lemma zoom_axis_range:
  assumes "laid_out w h a" "opt_zoomRange (ax_options a) = NoRange" "0 < k" "m = ax_c2p a (along_axis a c)"
  shows "zoom_axis w h c k a = a\<lparr>ax_options := (ax_options a)\<lparr>opt_min := Some (m + (ax_min a - m) / k), opt_max := Some (m + (ax_max a - m) / k)\<rparr>\<rparr>"
proof -
  have d: "0 < w" "0 < h" "ax_min a < ax_max a" using assms(1) by (simp_all add: laid_out_def)
  have "(ax_min a - m) / k \<le> (ax_max a - m) / k" using d(3) assms(3) by (simp add: divide_right_mono)
  moreover have "ax_c2p a (x + (1 / k) * (y - x)) = ax_c2p a x + (ax_c2p a y - ax_c2p a x) / k" for x y
    using linear.from_px_stretch [OF laid_out_linear [OF assms(1)], of x "1 / k" y] by simp
  ultimately show ?thesis
    using laid_out_ends [OF assms(1)] d(1,2) assms(2-4)
    by (cases "ax_direction a")
      (simp_all add: zoom_axis_def zoom_pixels_stretch along_axis_def axis_extent_def Let_def min_def max_def del: diff_0 diff_self)
qed

lemma relaid_c2p:
  assumes "opt_min (ax_options a) = Some lo" "opt_max (ax_options a) = Some hi" "lo < hi" "0 < w" "0 < h" "untransformed a"
    and "ax_options b = ax_options a" "ax_direction b = ax_direction a" "ax_min b = lo" "ax_max b = hi"
    and "ax_p2c b = ax_p2c (relaid w h a)" "ax_c2p b = ax_c2p (relaid w h a)"
  shows "laid_out w h b"
  using relaid_fixed [OF assms(1-6)] relaid_frame [of w h a] assms(7-12) by (cases "ax_direction a") (simp_all add: laid_out_def Let_def)

text \<open>An axis whose bounds have moved towards the point under the mouse, as a zoom moves them, has it at the same place.\<close>

lemma centre_stays:
  assumes "laid_out w h a" "laid_out w h b" "ax_direction b = ax_direction a" "m = ax_c2p a z"
    and "ax_min b = m + (ax_min a - m) / k" "ax_max b = m + (ax_max a - m) / k"
  shows "ax_c2p b z = m"
proof -
  have m: "m = (case ax_direction a of X \<Rightarrow> ax_min a + z * (ax_max a - ax_min a) / w | Y \<Rightarrow> ax_max a - z * (ax_max a - ax_min a) / h)"
    unfolding assms(4) laid_out_c2p [OF assms(1)] ..
  have width: "ax_max b - ax_min b = (ax_max a - ax_min a) / k" unfolding assms(5,6) by (simp add: diff_divide_distrib)
  have scale: "z * (d / k) / v = z * d / v / k" for d v :: real by (simp add: mult.commute)
  show ?thesis
  proof (cases "ax_direction a")
    case X
    then have "z * (ax_max a - ax_min a) / w = m - ax_min a" using m by simp
    then show ?thesis
      using laid_out_c2p [OF assms(2), of z] unfolding assms(3) X direction.case width scale by (simp add: assms(5) diff_divide_distrib)
  next
    case Y
    then have "z * (ax_max a - ax_min a) / h = ax_max a - m" using m by simp
    then show ?thesis
      using laid_out_c2p [OF assms(2), of z] unfolding assms(3) Y direction.case width scale by (simp add: assms(6) diff_divide_distrib)
  qed
qed

text \<open>One zoom of the whole plot, for an axis that is not limited.\<close>

lemma zoom_once:
  assumes "zoom bw preset args pl = Some (pl', d, ev)" "axes_ok X (pl_xaxes pl)" "axes_ok Y (pl_yaxes pl)"
    and "get_axis i (pl_xaxes pl, pl_yaxes pl) = Some a" "0 < snd i"
    and "w = plotWidth (pl_geometry pl)" "h = plotHeight (pl_geometry pl)" "plotWidth (pl_geometry pl') = w" "plotHeight (pl_geometry pl') = h"
    and "laid_out w h a" "untransformed a" "opt_zoomRange (ax_options a) = NoRange" "za_center args = Some c" "zoom_amount preset args = k" "0 < k"
    and "m = ax_c2p a (along_axis a c)"
  shows "axes_ok X (pl_xaxes pl') \<and> axes_ok Y (pl_yaxes pl') \<and> (\<exists>b. get_axis i (pl_xaxes pl', pl_yaxes pl') = Some b \<and> laid_out w h b \<and> untransformed b
    \<and> opt_zoomRange (ax_options b) = NoRange \<and> along_axis b c = along_axis a c \<and> ax_c2p b (along_axis b c) = m
    \<and> ax_min b = m + (ax_min a - m) / k \<and> ax_max b = m + (ax_max a - m) / k)"
proof -
  let ?pl = "each_axis (zoom_axis w h c k) pl" and ?a = "zoom_axis w h c k a"
  obtain labels lg where s: "setupGrid (bw_number bw) (bw_page bw) (bw_computed bw) (bw_legend_size bw) ?pl = Some (pl', labels, lg)"
    using assms(1) unfolding zoom_def Let_def assms(6,7,14) [symmetric]
    by (auto simp: assms(6,7,13,14) redraw_def split: if_splits option.splits prod.splits)
  have eq: "(pl_xaxes ?pl, pl_yaxes ?pl) = on_axes (zoom_axis w h c k) (pl_xaxes pl, pl_yaxes pl)"
    by (simp add: each_axis_def on_axes_def)
  have fr: "ax_n (zoom_axis w h c k x) = ax_n x \<and> ax_direction (zoom_axis w h c k x) = ax_direction x" for x
    by (simp add: zoom_axis_def Let_def split: direction.split range_option.split prod.split)
  have "both_ok (pl_xaxes ?pl, pl_yaxes ?pl)" unfolding eq using assms(2,3) fr by (intro on_axes_ok) (simp_all add: both_ok_def)
  then have ok: "axes_ok X (pl_xaxes ?pl)" "axes_ok Y (pl_yaxes ?pl)" by (simp_all add: both_ok_def)
  have g: "get_axis i (pl_xaxes ?pl, pl_yaxes ?pl) = Some ?a" unfolding eq by (simp add: get_on_axes assms(4))
  note r = zoom_axis_range [OF assms(10,12,15,16)]
  have lt: "ax_min a < ax_max a" "0 < w" "0 < h" using assms(10) by (simp_all add: laid_out_def)
  have o: "opt_min (ax_options ?a) = Some (m + (ax_min a - m) / k)" "opt_max (ax_options ?a) = Some (m + (ax_max a - m) / k)"
    "m + (ax_min a - m) / k < m + (ax_max a - m) / k" "untransformed ?a"
    using lt(1) assms(11,15) by (simp_all add: r untransformed_def divide_strict_right_mono)
  obtain b where b: "get_axis i (pl_xaxes pl', pl_yaxes pl') = Some b" "ax_options b = ax_options ?a" "ax_direction b = ax_direction ?a"
    "ax_min b = m + (ax_min a - m) / k" "ax_max b = m + (ax_max a - m) / k"
    "ax_p2c b = ax_p2c (relaid w h ?a)" "ax_c2p b = ax_c2p (relaid w h ?a)" "both_ok (pl_xaxes pl', pl_yaxes pl')"
    using setupGrid_fixed [OF s ok g assms(5) o(1-3)] assms(8,9) by (auto simp: Let_def)
  have l: "laid_out w h b" by (rule relaid_c2p [OF o(1-3) lt(2,3) o(4) b(2-7)])
  have dir: "ax_direction b = ax_direction a" using b(3) fr by simp
  then have al: "along_axis b c = along_axis a c" by (simp add: along_axis_def)
  have "ax_c2p b (along_axis b c) = m"
    unfolding al by (rule centre_stays [OF assms(10) l dir assms(16) b(4,5)])
  moreover have "untransformed b" "opt_zoomRange (ax_options b) = NoRange" using b(2) assms(11,12) by (simp_all add: r untransformed_def)
  ultimately show ?thesis using b(1,4,5,8) l al by (auto simp: both_ok_def)
qed

text \<open>
  C9. Zooming in at a place of the plot and out again at the same place brings every axis back to the range it had, and in between the
  data under the mouse stays where it is while the range is divided by the amount; for any amount and any number of axes
  without transformations and limits, as long as the labels leave the plot area its size.
\<close>

theorem zoom_round_trip:
  assumes "zoom bw preset args pl = Some (pl', d, ev)" "fst (zoomOut bw preset args pl') = Some (pl'', d', ev')"
    and "axes_ok X (pl_xaxes pl)" "axes_ok Y (pl_yaxes pl)" "get_axis i (pl_xaxes pl, pl_yaxes pl) = Some a" "0 < snd i"
    and "plotWidth (pl_geometry pl) = w" "plotHeight (pl_geometry pl) = h" "plotWidth (pl_geometry pl') = w" "plotHeight (pl_geometry pl') = h"
    and "plotWidth (pl_geometry pl'') = w" "plotHeight (pl_geometry pl'') = h"
    and "laid_out w h a" "untransformed a" "opt_zoomRange (ax_options a) = NoRange" "za_center args = Some c" "za_amount args = Some k" "0 < k"
  shows "\<exists>b e. get_axis i (pl_xaxes pl', pl_yaxes pl') = Some b \<and> get_axis i (pl_xaxes pl'', pl_yaxes pl'') = Some e
    \<and> ax_c2p b (along_axis a c) = ax_c2p a (along_axis a c) \<and> ax_max b - ax_min b = (ax_max a - ax_min a) / k
    \<and> ax_min e = ax_min a \<and> ax_max e = ax_max a"
proof -
  define m where "m = ax_c2p a (along_axis a c)"
  have k: "zoom_amount preset args = k" "zoom_amount preset (out_args preset args) = 1 / k" "0 < 1 / k"
    using assms(17,18) by (simp_all add: zoom_amount_def out_args_def)
  obtain b where b: "axes_ok X (pl_xaxes pl')" "axes_ok Y (pl_yaxes pl')" "get_axis i (pl_xaxes pl', pl_yaxes pl') = Some b" "laid_out w h b" "untransformed b"
    "opt_zoomRange (ax_options b) = NoRange" "along_axis b c = along_axis a c" "ax_c2p b (along_axis b c) = m"
    "ax_min b = m + (ax_min a - m) / k" "ax_max b = m + (ax_max a - m) / k"
    using zoom_once [OF assms(1,3,4,5,6) assms(7,8) [symmetric] assms(9,10,13-16) k(1) assms(18) m_def] by blast
  have "zoom bw preset (out_args preset args) pl' = Some (pl'', d', ev')" using assms(2) by (simp add: zoomOut_def)
  moreover have "za_center (out_args preset args) = Some c" using assms(16) by (simp add: out_args_def)
  ultimately obtain e where e: "get_axis i (pl_xaxes pl'', pl_yaxes pl'') = Some e"
    "ax_min e = m + (ax_min b - m) / (1 / k)" "ax_max e = m + (ax_max b - m) / (1 / k)"
    using zoom_once [OF _ b(1-3) assms(6) assms(9,10) [symmetric] assms(11,12) b(4-6) _ k(2,3) b(8) [symmetric]] by blast
  have "ax_max b - ax_min b = (ax_max a - ax_min a) / k" unfolding b(9,10) by (simp add: diff_divide_distrib)
  then show ?thesis using b(3,7,8) e assms(18) by (simp add: b(9,10) m_def)
qed

text \<open>A plot without a visible grid, whose area is the whole canvas.\<close>

definition bare_plot :: plot where
  "bare_plot =
     demo_plot\<lparr>pl_grid := default_grid\<lparr>gr_show := False\<rparr>, pl_series := [], pl_xaxes := [Some (relaid 400 300 (plain_axis X ''bottom''))],
       pl_yaxes := [Some (relaid 400 300 (plain_axis Y ''left''))],
       pl_geometry := (pl_geometry demo_plot)\<lparr>plotWidth := 400, plotHeight := 300\<rparr>\<rparr>"

definition demo_browser :: browser where
  "demo_browser =
     \<lparr>bw_number = (\<lambda>_. ''1''), bw_page = demo_page, bw_computed = None, bw_legend_size = (0, 0), bw_series_hooks = [], bw_draw_hooks = []\<rparr>"

definition bare :: "plot \<Rightarrow> bool" where
  "bare pl \<longleftrightarrow> \<not> gr_show (pl_grid pl) \<and> \<not> lg_show (pl_legend pl) \<and> pl_series pl = []
     \<and> canvasWidth (pl_geometry pl) = 400 \<and> canvasHeight (pl_geometry pl) = 300"

lemma bare_redraw:
  assumes "bare pl"
  shows "\<exists>pl' d. redraw demo_browser pl = Some (pl', d) \<and> bare pl' \<and> plotWidth (pl_geometry pl') = 400 \<and> plotHeight (pl_geometry pl') = 300"
  using assms
  by (simp add: redraw_def demo_browser_def setupGrid_def bare_def Let_def insertLegend_def draw_def then_draw_def plot_area_def no_offsets_def)

lemma bare_zoom:
  assumes "bare pl" "plotWidth (pl_geometry pl) = 400" "plotHeight (pl_geometry pl) = 300" "zoom_amount preset args \<noteq> 0"
  shows "\<exists>pl' d ev. zoom demo_browser preset args pl = Some (pl', d, ev) \<and> bare pl' \<and> plotWidth (pl_geometry pl') = 400 \<and> plotHeight (pl_geometry pl') = 300"
proof -
  have b: "bare (each_axis f pl)" for f using assms(1) by (simp add: bare_def each_axis_def)
  show ?thesis using bare_redraw [OF b] assms(2-4) unfolding zoom_def Let_def by auto
qed

lemma plain_axis_laid_out:
  "laid_out 400 300 (relaid 400 300 (plain_axis d pos))" "untransformed (relaid 400 300 (plain_axis d pos))"
  "opt_zoomRange (ax_options (relaid 400 300 (plain_axis d pos))) = NoRange" "opt_panRange (ax_options (relaid 400 300 (plain_axis d pos))) = NoRange"
  "ax_direction (relaid 400 300 (plain_axis d pos)) = d" "ax_n (relaid 400 300 (plain_axis d pos)) = 1"
  "ax_min (relaid 400 300 (plain_axis d pos)) = 0" "ax_max (relaid 400 300 (plain_axis d pos)) = 10"
  using relaid_fixed [of "plain_axis d pos" 0 10 400 300] relaid_frame [of 400 300 "plain_axis d pos"]
  by (simp_all add: plain_axis_def new_axis_def demo_options_def untransformed_def relaid_def)

theorem zoom_round_trip_witness:
  "\<exists>pl' d ev pl'' d' ev' b e. zoom demo_browser 2 \<lparr>za_center = Some (100, 30), za_amount = Some 4, za_preventEvent = True\<rparr> bare_plot = Some (pl', d, ev)
    \<and> fst (zoomOut demo_browser 2 \<lparr>za_center = Some (100, 30), za_amount = Some 4, za_preventEvent = True\<rparr> pl') = Some (pl'', d', ev')
    \<and> get_axis (Y, 1) (pl_xaxes pl', pl_yaxes pl') = Some b \<and> ax_max b - ax_min b = 5 / 2
    \<and> get_axis (Y, 1) (pl_xaxes pl'', pl_yaxes pl'') = Some e \<and> ax_min e = 0 \<and> ax_max e = 10"
proof -
  let ?args = "\<lparr>za_center = Some (100, 30), za_amount = Some 4, za_preventEvent = True\<rparr>"
  have bare: "bare bare_plot" "plotWidth (pl_geometry bare_plot) = 400" "plotHeight (pl_geometry bare_plot) = 300"
    by (simp_all add: bare_plot_def bare_def demo_plot_def)
  obtain pl' d ev where z: "zoom demo_browser 2 ?args bare_plot = Some (pl', d, ev)" "bare pl'"
    "plotWidth (pl_geometry pl') = 400" "plotHeight (pl_geometry pl') = 300"
    using bare_zoom [OF bare, of 2 ?args] by (auto simp: zoom_amount_def)
  obtain pl'' d' ev' where o: "fst (zoomOut demo_browser 2 ?args pl') = Some (pl'', d', ev')" "bare pl''"
    "plotWidth (pl_geometry pl'') = 400" "plotHeight (pl_geometry pl'') = 300"
    using bare_zoom [OF z(2-4), of 2 "out_args 2 ?args"] by (auto simp: zoom_amount_def zoomOut_def out_args_def)
  have ok: "axes_ok X (pl_xaxes bare_plot)" "axes_ok Y (pl_yaxes bare_plot)"
    by (simp_all add: bare_plot_def axes_ok_def plain_axis_laid_out)
  have a: "get_axis (Y, 1) (pl_xaxes bare_plot, pl_yaxes bare_plot) = Some (relaid 400 300 (plain_axis Y ''left''))"
    by (simp add: bare_plot_def get_axis_def axes_of_def axis_at_def)
  have "\<exists>b e. get_axis (Y, 1) (pl_xaxes pl', pl_yaxes pl') = Some b \<and> get_axis (Y, 1) (pl_xaxes pl'', pl_yaxes pl'') = Some e
    \<and> ax_max b - ax_min b = 5 / 2 \<and> ax_min e = 0 \<and> ax_max e = 10"
    using zoom_round_trip [OF z(1) o(1) ok a _ bare(2,3) z(3,4) o(3,4) plain_axis_laid_out(1-3), of "(100, 30)" 4]
    by (auto simp: plain_axis_laid_out(7,8))
  then show ?thesis using z(1) o(1) by blast
qed

text \<open>Zooming out writes the amount back: with the same arguments a second time it zooms in.\<close>

lemma zoomOut_twice:
  assumes "za_amount args = Some k" "k \<noteq> 0"
  shows "fst (zoomOut bw preset (snd (zoomOut bw preset args pl)) pl') = zoom bw preset args pl'"
proof -
  have eq: "args\<lparr>za_amount := Some k\<rparr> = args" using assms(1) by (cases args) simp
  have "fst (zoomOut bw preset (snd (zoomOut bw preset args pl)) pl') = zoom bw preset (args\<lparr>za_amount := Some k\<rparr>) pl'"
    using assms by (simp add: zoomOut_def out_args_def zoom_amount_def)
  then show ?thesis unfolding eq .
qed

section \<open>Dragging the plot\<close>

text \<open>A wall keeps the length of a range, and a range that fits stays between the walls.\<close>

lemma hit_wall_inside:
  assumes "fst r \<le> snd r" "snd r - fst r \<le> u - l"
  shows "snd (hit_wall (Some l) (Some u) r) - fst (hit_wall (Some l) (Some u) r) = snd r - fst r"
    "l \<le> fst (hit_wall (Some l) (Some u) r)" "snd (hit_wall (Some l) (Some u) r) \<le> u"
  using assms by (auto simp: hit_wall_def Let_def)

lemma pan_axis_relaid:
  assumes "laid_out w h a" "untransformed a" "opt_panRange (ax_options a) = NoRange" "b = relaid w h (pan_axis p a)"
  shows "laid_out w h b \<and> untransformed b \<and> opt_panRange (ax_options b) = NoRange \<and> ax_direction b = ax_direction a
    \<and> (\<forall>z. ax_c2p b z = ax_c2p a (z + along_axis a p))"
proof -
  have d: "ax_min a < ax_max a" "0 < w" "0 < h" using assms(1) by (simp_all add: laid_out_def)
  note lin = laid_out_linear [OF assms(1)]
  define s where "s = ax_c2p a (along_axis a p) - ax_c2p a 0"
  have shift: "ax_c2p a (z + along_axis a p) = ax_c2p a z + s" for z
    using linear.from_px_shift [OF lin, of z "along_axis a p" 0] by (simp add: s_def)
  have "ax_c2p a (ax_p2c a x + along_axis a p) = x + s" for x using shift by (simp add: linear.from_to [OF lin])
  then have r: "pan_axis p a = a\<lparr>ax_options := (ax_options a)\<lparr>opt_min := Some (ax_min a + s), opt_max := Some (ax_max a + s)\<rparr>\<rparr>"
    using assms(3) by (simp add: pan_axis_def along_axis_def Let_def)
  have o: "opt_min (ax_options (pan_axis p a)) = Some (ax_min a + s)" "opt_max (ax_options (pan_axis p a)) = Some (ax_max a + s)"
    "ax_min a + s < ax_max a + s" "untransformed (pan_axis p a)" "ax_direction (pan_axis p a) = ax_direction a"
    "opt_panRange (ax_options (pan_axis p a)) = NoRange"
    using d(1) assms(2,3) by (simp_all add: r untransformed_def)
  note f = relaid_fixed [OF o(1-3) d(2,3) o(4), folded assms(4)] and fr = relaid_frame [of w h "pan_axis p a", folded assms(4)]
  have "ax_c2p b z = ax_c2p a z + s" for z
    unfolding laid_out_c2p [OF f(1)] laid_out_c2p [OF assms(1)] f(2,3) fr(2) o(5) by (simp split: direction.split)
  then show ?thesis using f(1) fr o(4-6) shift by (simp add: untransformed_def)
qed

text \<open>Several pans add up.\<close>

lemma pans_add_up:
  assumes "laid_out w h a" "untransformed a" "opt_panRange (ax_options a) = NoRange"
  shows "laid_out w h (foldl (\<lambda>a p. relaid w h (pan_axis p a)) a ps)
    \<and> (\<forall>z. ax_c2p (foldl (\<lambda>a p. relaid w h (pan_axis p a)) a ps) z = ax_c2p a (z + sum_list (map (along_axis a) ps)))"
  using assms
proof (induction ps arbitrary: a)
  case (Cons p ps)
  let ?b = "relaid w h (pan_axis p a)"
  have b: "laid_out w h ?b" "untransformed ?b" "opt_panRange (ax_options ?b) = NoRange" "ax_direction ?b = ax_direction a"
    "ax_c2p ?b z = ax_c2p a (z + along_axis a p)" for z
    using pan_axis_relaid [OF Cons.prems refl, of p] by blast+
  have al: "along_axis ?b = along_axis a" using b(4) by (simp add: along_axis_def fun_eq_iff)
  show ?case using Cons.IH [OF b(1-3)] by (simp add: al b(5) ac_simps)
qed simp

text \<open>The pans of a drag: the timer and the end of the drag account for the whole way of the mouse.\<close>

definition while_dragging :: "drag_event \<Rightarrow> bool" where
  "while_dragging ev \<longleftrightarrow> (case ev of Drag _ _ \<Rightarrow> True | PanTimer \<Rightarrow> True | _ \<Rightarrow> False)"

lemma drag_run_append:
  "drag_run cursor rate (es @ fs) s = (let (s1, ps) = drag_run cursor rate es s; (s2, qs) = drag_run cursor rate fs s1 in (s2, ps @ qs))"
  by (induction es arbitrary: s) (simp_all add: Let_def split: prod.splits)

lemma drag_pans_sum:
  assumes "list_all while_dragging evs" "drag_run cursor rate evs s = (s', ps)"
  shows "sum_list (map fst ps) = fst (dg_prev s) - fst (dg_prev s') \<and> sum_list (map snd ps) = snd (dg_prev s) - snd (dg_prev s')
    \<and> dg_prevCursor s' = dg_prevCursor s"
  using assms
proof (induction evs arbitrary: s ps)
  case (Cons ev evs)
  obtain s1 p where st: "drag_step cursor rate ev s = (s1, p)" by fastforce
  then obtain q where q: "drag_run cursor rate evs s1 = (s', q)" "ps = p @ q" using Cons.prems(2) by (auto simp: Let_def split: prod.splits)
  have "sum_list (map fst p) = fst (dg_prev s) - fst (dg_prev s1) \<and> sum_list (map snd p) = snd (dg_prev s) - snd (dg_prev s1)
    \<and> dg_prevCursor s1 = dg_prevCursor s"
    using st Cons.prems(1) by (cases ev) (auto simp: drag_step_def while_dragging_def split: if_splits option.splits)
  then show ?case using Cons.IH [OF _ q(1)] Cons.prems(1) q(2) by auto
qed simp



end
