(* ===== verification/Image_Plugin.thy ===== *)
theory Image_Plugin
  imports Grid
begin

text \<open>
  The image plugin, \<open>static/flot/jquery.flot.image.js\<close>: loading the images that the data names, the data format, and drawing
  images between data coordinates, clipped to the plot area. An image is a number with its size.
\<close>

section \<open>Loading\<close>

text \<open>
  The answers of the browser for a list of addresses, one for each (an image that cannot be loaded answers too). The handler counts
  down and calls back with what has been loaded when the count is zero.
\<close>

record loading =
  ld_missing :: int
  ld_loaded :: "(string \<times> nat) list"

definition image_load :: "string list \<Rightarrow> loading \<times> (string \<times> nat) list option" where
  "image_load urls = (\<lparr>ld_missing = int (length urls), ld_loaded = []\<rparr>, if urls = [] then Some [] else None)"

definition image_handler :: "string \<times> nat \<Rightarrow> loading \<Rightarrow> loading \<times> (string \<times> nat) list option" where
  "image_handler answer s =
     (let s1 = \<lparr>ld_missing = ld_missing s - 1, ld_loaded = set_key (fst answer) (snd answer) (ld_loaded s)\<rparr>
      in (s1, if ld_missing s1 = 0 then Some (ld_loaded s1) else None))"

text \<open>All answers: the calls of the callback, in order.\<close>

fun image_answers :: "(string \<times> nat) list \<Rightarrow> loading \<Rightarrow> (string \<times> nat) list list" where
  "image_answers [] s = []"
| "image_answers (a # as) s =
     (let (s1, c) = image_handler a s in (case c of Some l \<Rightarrow> [l] | None \<Rightarrow> []) @ image_answers as s1)"

definition image_calls :: "string list \<Rightarrow> (string \<times> nat) list \<Rightarrow> (string \<times> nat) list list" where
  "image_calls urls answers =
     (let (s, c) = image_load urls in (case c of Some l \<Rightarrow> [l] | None \<Rightarrow> []) @ image_answers answers s)"

section \<open>Data\<close>

text \<open>
  The first value of a row is an address, an image or anything else; a series may switch images on or off, or lack the option.
\<close>

datatype image_cell = Address string | Picture nat | Other

record image_series =
  is_show :: "bool option"
  is_rows :: "image_cell list"

text \<open>Whether a series is asked for its images; \<open>None\<close> is the error of reading the option of a series that has none.\<close>

definition uses_images :: "bool \<Rightarrow> image_series \<Rightarrow> bool option" where
  "uses_images defaultShow s = (if defaultShow then Some True else is_show s)"

definition image_urls :: "bool \<Rightarrow> image_series list \<Rightarrow> string list option" where
  "image_urls defaultShow ss =
     map_option concat (all_some (map (\<lambda>s. map_option (\<lambda>b. if b then concat (map (\<lambda>c. case c of Address u \<Rightarrow> [u] | _ \<Rightarrow> []) (is_rows s)) else [])
       (uses_images defaultShow s)) ss))"

text \<open>The callback puts the loaded images into the rows.\<close>

definition place_image :: "(string \<times> nat) list \<Rightarrow> image_cell \<Rightarrow> image_cell" where
  "place_image loaded c = (case c of Address u \<Rightarrow> (case map_of loaded u of Some k \<Rightarrow> Picture k | None \<Rightarrow> c) | _ \<Rightarrow> c)"

definition place_images :: "bool \<Rightarrow> (string \<times> nat) list \<Rightarrow> image_series list \<Rightarrow> image_series list" where
  "place_images defaultShow loaded ss =
     map (\<lambda>s. if uses_images defaultShow s = Some True then s\<lparr>is_rows := map (place_image loaded) (is_rows s)\<rparr> else s) ss"

definition image_format :: "column list" where
  "image_format =
     (let x = \<lparr>col_x = True, col_y = False, col_required = True, col_default = None\<rparr>;
          y = \<lparr>col_x = False, col_y = True, col_required = True, col_default = None\<rparr>
      in [\<lparr>col_x = False, col_y = False, col_required = True, col_default = None\<rparr>, x, y, x, y])"

section \<open>Drawing\<close>

record picture =
  pc_id :: nat
  pc_width :: real
  pc_height :: real

text \<open>A point of the series: an image (or none) and two opposite corners.\<close>

record image_point =
  ip_image :: "picture option"
  ip_x1 :: real
  ip_y1 :: real
  ip_x2 :: real
  ip_y2 :: real

text \<open>One extent of an image: the corners in data coordinates and the part of the image that belongs to it.\<close>

record image_side =
  sd_from :: real
  sd_to :: real
  sd_src :: real
  sd_end :: real

text \<open>The corners in order, moved apart by half a pixel of the image if its pixels are anchored at their centres.\<close>

definition side_corners :: "bool \<Rightarrow> real \<Rightarrow> real \<Rightarrow> real \<Rightarrow> real \<times> real" where
  "side_corners center len u v =
     (let a = min u v; b = max u v; t = 0.5 * (b - a) / (len - 1) in if center then (a - t, b + t) else (a, b))"

text \<open>Clipping along the horizontal direction, where the image grows with the coordinate, \<dots>\<close>

definition clip_x :: "axis \<Rightarrow> real \<times> real \<Rightarrow> real \<Rightarrow> image_side" where
  "clip_x a p len =
     (let x1 = fst p; x2 = snd p; sx1 = 0; sx2 = len;
          (x1', sx1') = (if x1 < ax_min a then (ax_min a, sx1 + (sx2 - sx1) * (ax_min a - x1) / (x2 - x1)) else (x1, sx1));
          (x2', sx2') = (if x2 > ax_max a then (ax_max a, sx2 + (sx2 - sx1') * (ax_max a - x2) / (x2 - x1')) else (x2, sx2))
      in \<lparr>sd_from = x1', sd_to = x2', sd_src = sx1', sd_end = sx2'\<rparr>)"

text \<open>\<dots> and along the vertical one, where it is upside down: the lower corner belongs to the end of the image.\<close>

definition clip_y :: "axis \<Rightarrow> real \<times> real \<Rightarrow> real \<Rightarrow> image_side" where
  "clip_y a p len =
     (let y1 = fst p; y2 = snd p; sy1 = 0; sy2 = len;
          (y1', sy2') = (if y1 < ax_min a then (ax_min a, sy2 + (sy1 - sy2) * (ax_min a - y1) / (y2 - y1)) else (y1, sy2));
          (y2', sy1') = (if y2 > ax_max a then (ax_max a, sy1 + (sy1 - sy2') * (ax_max a - y2) / (y2 - y1')) else (y2, sy1))
      in \<lparr>sd_from = y1', sd_to = y2', sd_src = sy1', sd_end = sy2'\<rparr>)"

text \<open>
  A picture that is a single pixel wide or high has no extent between the centres of its pixels: its corners are not finite and the
  context draws nothing.
\<close>

definition draw_image :: "bool \<Rightarrow> real \<Rightarrow> real \<Rightarrow> geometry \<Rightarrow> axis \<Rightarrow> axis \<Rightarrow> image_point \<Rightarrow> drawing" where
  "draw_image center image_alpha global_alpha g xaxis yaxis p =
     (case ip_image p of
        None \<Rightarrow> []
      | Some img \<Rightarrow>
          if pc_width img \<le> 0 \<or> pc_height img \<le> 0 \<or> (center \<and> (pc_width img = 1 \<or> pc_height img = 1)) then []
          else
            let px = side_corners center (pc_width img) (ip_x1 p) (ip_x2 p); py = side_corners center (pc_height img) (ip_y1 p) (ip_y2 p)
            in if fst px = snd px \<or> fst py = snd py
                  \<or> fst px \<ge> ax_max xaxis \<or> snd px \<le> ax_min xaxis \<or> fst py \<ge> ax_max yaxis \<or> snd py \<le> ax_min yaxis then []
               else
                 let sx = clip_x xaxis px (pc_width img); sy = clip_y yaxis py (pc_height img);
                     x1 = ax_p2c xaxis (sd_from sx); x2 = ax_p2c xaxis (sd_to sx); y1 = ax_p2c yaxis (sd_from sy); y2 = ax_p2c yaxis (sd_to sy)
                 in [GlobalAlpha (global_alpha * image_alpha),
                     DrawImage (pc_id img) (sd_src sx) (sd_src sy) (sd_end sx - sd_src sx) (sd_end sy - sd_src sy)
                       (min x1 x2 + plotLeft g) (min y1 y2 + plotTop g) (\<bar>x2 - x1\<bar>) (\<bar>y2 - y1\<bar>),
                     GlobalAlpha global_alpha])"

text \<open>The hook: all the points of a series that shows images.\<close>

definition drawImages :: "bool \<Rightarrow> bool \<Rightarrow> real \<Rightarrow> real \<Rightarrow> geometry \<Rightarrow> axis \<Rightarrow> axis \<Rightarrow> image_point list \<Rightarrow> drawing" where
  "drawImages show center image_alpha global_alpha g xaxis yaxis ps =
     (if show then concat (map (draw_image center image_alpha global_alpha g xaxis yaxis) ps) else [])"

section \<open>The callback is called once\<close>

lemma image_answers_once:
  "answers \<noteq> [] \<Longrightarrow> ld_missing s = int (length answers) \<Longrightarrow>
    image_answers answers s = [foldl (\<lambda>r a. set_key (fst a) (snd a) r) (ld_loaded s) answers]"
proof (induction answers arbitrary: s)
  case (Cons a as)
  then show ?case by (cases "as = []") (auto simp: image_handler_def Let_def)
qed simp

text \<open>Once every address has been answered the callback has been called exactly once, with all the images.\<close>

lemma image_calls_once:
  assumes "map fst answers = urls"
  shows "image_calls urls answers = [foldl (\<lambda>r a. set_key (fst a) (snd a) r) [] answers]"
proof (cases "answers = []")
  case True
  then show ?thesis using assms by (simp add: image_calls_def image_load_def)
next
  case False
  then have "urls \<noteq> []" "length urls = length answers" using assms by auto
  then show ?thesis using False by (simp add: image_calls_def image_load_def image_answers_once)
qed

section \<open>Clipping does not move the image\<close>

lemma clip_x_linear:
  assumes "fst p < snd p" "fst p < ax_max a" "ax_min a < snd p" "ax_min a < ax_max a"
  shows "clip_x a p len = \<lparr>sd_from = max (fst p) (ax_min a), sd_to = min (snd p) (ax_max a),
    sd_src = len * (max (fst p) (ax_min a) - fst p) / (snd p - fst p), sd_end = len * (min (snd p) (ax_max a) - fst p) / (snd p - fst p)\<rparr>"
proof -
  have n: "snd p - fst p \<noteq> 0" "snd p - ax_min a \<noteq> 0" using assms by simp_all
  have e: "len - len * (ax_min a - fst p) / (snd p - fst p) = len * (snd p - ax_min a) / (snd p - fst p)"
    using n(1) by (simp add: field_simps)
  show ?thesis
    using assms n by (auto simp: clip_x_def Let_def max_def min_def e divide_simps) (simp_all add: algebra_simps)
qed

lemma clip_y_linear:
  assumes "fst p < snd p" "fst p < ax_max a" "ax_min a < snd p" "ax_min a < ax_max a"
  shows "clip_y a p len = \<lparr>sd_from = max (fst p) (ax_min a), sd_to = min (snd p) (ax_max a),
    sd_src = len * (snd p - min (snd p) (ax_max a)) / (snd p - fst p), sd_end = len * (snd p - max (fst p) (ax_min a)) / (snd p - fst p)\<rparr>"
proof -
  have n: "snd p - fst p \<noteq> 0" "snd p - ax_min a \<noteq> 0" using assms by simp_all
  have e: "len - len * (ax_min a - fst p) / (snd p - fst p) = len * (snd p - ax_min a) / (snd p - fst p)"
    using n(1) by (simp add: field_simps)
  show ?thesis
    using assms n by (auto simp: clip_y_def Let_def max_def min_def e divide_simps) (simp_all add: algebra_simps)
qed

lemma side_corners_order:
  assumes "u \<noteq> v" "center \<longrightarrow> 1 < len"
  shows "fst (side_corners center len u v) < snd (side_corners center len u v)"
proof -
  define t where "t = 0.5 * (max u v - min u v) / (len - 1)"
  have lt: "min u v < max u v" using assms(1) by (simp add: max_def min_def)
  then have "0 < t" if center using assms(2) that by (simp add: t_def)
  then show ?thesis using lt unfolding side_corners_def Let_def t_def [symmetric] by (cases center) auto
qed

text \<open>A fraction along the visible part of a side is the same place of the image as the fraction along the whole side.\<close>

lemma part_of_whole:
  fixes a b from_v to_v len v :: real
  assumes "a < b" "from_v < to_v"
  shows "len * (from_v - a) / (b - a) + (len * (to_v - a) / (b - a) - len * (from_v - a) / (b - a)) * ((v - from_v) / (to_v - from_v))
      = len * (v - a) / (b - a)" (is "?l1 = ?r1")
    and "len * (b - to_v) / (b - a) + (len * (b - from_v) / (b - a) - len * (b - to_v) / (b - a)) * ((to_v - v) / (to_v - from_v))
      = len * (b - v) / (b - a)" (is "?l2 = ?r2")
proof -
  have n: "to_v - from_v \<noteq> 0" using assms(2) by simp
  have "len * (to_v - a) / (b - a) - len * (from_v - a) / (b - a) = len * (to_v - from_v) / (b - a)"
    by (simp add: diff_divide_distrib [symmetric] right_diff_distrib)
  then have "?l1 = len * (from_v - a) / (b - a) + len * (v - from_v) / (b - a)" using n by simp
  then show "?l1 = ?r1" by (simp add: add_divide_distrib [symmetric] distrib_left [symmetric])
  have "len * (b - from_v) / (b - a) - len * (b - to_v) / (b - a) = len * (to_v - from_v) / (b - a)"
    by (simp add: diff_divide_distrib [symmetric] right_diff_distrib)
  then have "?l2 = len * (b - to_v) / (b - a) + len * (to_v - v) / (b - a)" using n by simp
  then show "?l2 = ?r2" by (simp add: add_divide_distrib [symmetric] distrib_left [symmetric])
qed

lemma laid_out_fraction:
  assumes "laid_out w h a" "p < q"
  shows "ax_direction a = X \<Longrightarrow> (ax_p2c a v - ax_p2c a p) / (ax_p2c a q - ax_p2c a p) = (v - p) / (q - p) \<and> ax_p2c a p < ax_p2c a q"
    and "ax_direction a = Y \<Longrightarrow> (ax_p2c a v - ax_p2c a q) / (ax_p2c a p - ax_p2c a q) = (q - v) / (q - p) \<and> ax_p2c a q < ax_p2c a p"
proof -
  have d: "0 < w / (ax_max a - ax_min a)" "0 < h / (ax_max a - ax_min a)" using assms(1) by (simp_all add: laid_out_def)
  have frac: "(x * k - y * k) / (z * k - y * k) = (x - y) / (z - y) \<and> (y < z \<longrightarrow> y * k < z * k)" if "0 < k" for x y z k :: real
    using that by (simp add: left_diff_distrib [symmetric] mult_strict_right_mono)
  show "(ax_p2c a v - ax_p2c a p) / (ax_p2c a q - ax_p2c a p) = (v - p) / (q - p) \<and> ax_p2c a p < ax_p2c a q" if "ax_direction a = X"
  proof -
    have m: "ax_p2c a = (\<lambda>p. (p - ax_min a) * (w / (ax_max a - ax_min a)))" using assms(1) that by (simp add: laid_out_def Let_def)
    show ?thesis unfolding m using frac [OF d(1), of "v - ax_min a" "p - ax_min a" "q - ax_min a"] assms(2) by (simp del: times_divide_eq_right)
  qed
  show "(ax_p2c a v - ax_p2c a q) / (ax_p2c a p - ax_p2c a q) = (q - v) / (q - p) \<and> ax_p2c a q < ax_p2c a p" if "ax_direction a = Y"
  proof -
    have m: "ax_p2c a = (\<lambda>p. (ax_max a - p) * (h / (ax_max a - ax_min a)))" using assms(1) that by (simp add: laid_out_def Let_def)
    show ?thesis unfolding m using frac [OF d(2), of "ax_max a - v" "ax_max a - q" "ax_max a - p"] assms(2) by (simp del: times_divide_eq_right)
  qed
qed

text \<open>
  C17. An image is drawn inside the plot area, and clipping it does not move what it shows: at every visible pair of data coordinates
  there is exactly the place of the image that the whole image would show there, with its lower edge at the lower coordinate.
\<close>

theorem image_stays_in_place:
  assumes "laid_out w h xaxis" "laid_out w h yaxis" "ax_direction xaxis = X" "ax_direction yaxis = Y"
    and "ip_image p = Some img" "0 < pc_width img" "0 < pc_height img" "center \<longrightarrow> 1 < pc_width img \<and> 1 < pc_height img"
    and "px = side_corners center (pc_width img) (ip_x1 p) (ip_x2 p)" "py = side_corners center (pc_height img) (ip_y1 p) (ip_y2 p)"
    and "ip_x1 p \<noteq> ip_x2 p" "ip_y1 p \<noteq> ip_y2 p"
    and "fst px < ax_max xaxis" "ax_min xaxis < snd px" "fst py < ax_max yaxis" "ax_min yaxis < snd py"
  shows "\<exists>sx sy sw sh l t dw dh. draw_image center al ga g xaxis yaxis p
      = [GlobalAlpha (ga * al), DrawImage (pc_id img) sx sy sw sh (l + plotLeft g) (t + plotTop g) dw dh, GlobalAlpha ga]
    \<and> 0 \<le> l \<and> l + dw \<le> w \<and> 0 < dw \<and> 0 \<le> t \<and> t + dh \<le> h \<and> 0 < dh
    \<and> (\<forall>u. sx + sw * ((ax_p2c xaxis u - l) / dw) = pc_width img * (u - fst px) / (snd px - fst px))
    \<and> (\<forall>v. sy + sh * ((ax_p2c yaxis v - t) / dh) = pc_height img * (snd py - v) / (snd py - fst py))"
proof -
  have ox: "fst px < snd px" and oy: "fst py < snd py"
    unfolding assms(9,10) using assms(8,11,12) by (auto intro!: side_corners_order)
  have rx: "ax_min xaxis < ax_max xaxis" and ry: "ax_min yaxis < ax_max yaxis" using assms(1,2) by (simp_all add: laid_out_def)
  define f where "f = max (fst px) (ax_min xaxis)"
  define k where "k = min (snd px) (ax_max xaxis)"
  define f' where "f' = max (fst py) (ax_min yaxis)"
  define k' where "k' = min (snd py) (ax_max yaxis)"
  have lt: "f < k" "f' < k'" using ox oy rx ry assms(13-16) by (simp_all add: f_def k_def f'_def k'_def)
  note cx = clip_x_linear [OF ox assms(13,14) rx, of "pc_width img", folded f_def k_def]
  note cy = clip_y_linear [OF oy assms(15,16) ry, of "pc_height img", folded f'_def k'_def]
  note fx = laid_out_fraction(1) [OF assms(1) lt(1) assms(3)] and fy = laid_out_fraction(2) [OF assms(2) lt(2) assms(4)]
  let ?W = "pc_width img" and ?H = "pc_height img"
  let ?dx = "snd px - fst px" and ?dy = "snd py - fst py"
  have ps: "\<bar>ax_p2c xaxis k - ax_p2c xaxis f\<bar> = ax_p2c xaxis k - ax_p2c xaxis f" "min (ax_p2c xaxis f) (ax_p2c xaxis k) = ax_p2c xaxis f"
    "\<bar>ax_p2c yaxis k' - ax_p2c yaxis f'\<bar> = ax_p2c yaxis f' - ax_p2c yaxis k'" "min (ax_p2c yaxis f') (ax_p2c yaxis k') = ax_p2c yaxis k'"
    using less_imp_le [OF conjunct2 [OF fx]] less_imp_le [OF conjunct2 [OF fy]] by simp_all
  have no: "\<not> (pc_width img \<le> 0 \<or> pc_height img \<le> 0 \<or> (center \<and> (pc_width img = 1 \<or> pc_height img = 1)))" using assms(6-8) by auto
  have no': "\<not> (fst px = snd px \<or> fst py = snd py \<or> fst px \<ge> ax_max xaxis \<or> snd px \<le> ax_min xaxis \<or> fst py \<ge> ax_max yaxis \<or> snd py \<le> ax_min yaxis)"
    using ox oy assms(13-16) by simp
  have draw: "draw_image center al ga g xaxis yaxis p
    = [GlobalAlpha (ga * al), DrawImage (pc_id img) (?W * (f - fst px) / ?dx) (?H * (snd py - k') / ?dy)
        (?W * (k - fst px) / ?dx - ?W * (f - fst px) / ?dx) (?H * (snd py - f') / ?dy - ?H * (snd py - k') / ?dy)
        (ax_p2c xaxis f + plotLeft g) (ax_p2c yaxis k' + plotTop g) (ax_p2c xaxis k - ax_p2c xaxis f) (ax_p2c yaxis f' - ax_p2c yaxis k'), GlobalAlpha ga]"
    unfolding draw_image_def assms(5) option.case if_not_P [OF no] Let_def assms(9,10) [symmetric] if_not_P [OF no'] cx cy
    by (simp add: ps)
  have rng: "ax_min xaxis \<le> f" "k \<le> ax_max xaxis" "ax_min yaxis \<le> f'" "k' \<le> ax_max yaxis" by (simp_all add: f_def k_def f'_def k'_def)
  have inv: "ax_c2p xaxis (ax_p2c xaxis u) = u" "ax_c2p yaxis (ax_p2c yaxis u) = u" for u
    using laid_out_linear [OF assms(1)] laid_out_linear [OF assms(2)] by (auto simp: linear.from_to)
  have area: "0 \<le> ax_p2c xaxis f" "ax_p2c xaxis k \<le> w" "0 \<le> ax_p2c yaxis k'" "ax_p2c yaxis f' \<le> h"
    using rng laid_out_x [OF assms(1,3)] laid_out_y [OF assms(2,4)] inv by metis+
  have in_x: "?W * (f - fst px) / ?dx + (?W * (k - fst px) / ?dx - ?W * (f - fst px) / ?dx)
        * ((ax_p2c xaxis u - ax_p2c xaxis f) / (ax_p2c xaxis k - ax_p2c xaxis f)) = ?W * (u - fst px) / ?dx" for u
    unfolding conjunct1 [OF fx] by (rule part_of_whole(1) [OF ox lt(1)])
  have in_y: "?H * (snd py - k') / ?dy + (?H * (snd py - f') / ?dy - ?H * (snd py - k') / ?dy)
        * ((ax_p2c yaxis v - ax_p2c yaxis k') / (ax_p2c yaxis f' - ax_p2c yaxis k')) = ?H * (snd py - v) / ?dy" for v
    unfolding conjunct1 [OF fy] by (rule part_of_whole(2) [OF oy lt(2)])
  show ?thesis using draw area fx fy in_x in_y by (intro exI conjI) (assumption | simp)+
qed

theorem image_stays_in_place_witness:
  "\<exists>sx sy sw sh l t dw dh. draw_image False 1 1 \<lparr>plotLeft = 0, plotTop = 0, plotWidth = 400, plotHeight = 300\<rparr> (demo_axis X) (demo_axis Y)
      \<lparr>ip_image = Some \<lparr>pc_id = 7, pc_width = 64, pc_height = 32\<rparr>, ip_x1 = 1, ip_y1 = 20, ip_x2 = 9, ip_y2 = 4\<rparr>
    = [GlobalAlpha 1, DrawImage 7 sx sy sw sh l t dw dh, GlobalAlpha 1] \<and> 0 \<le> l \<and> l + dw \<le> 400 \<and> t + dh \<le> 300"
proof -
  have l: "laid_out 400 300 (demo_axis d)" for d
    unfolding demo_axis_def by (rule setTransformationHelpers_laid_out) (simp_all add: new_axis_def demo_options_def)
  show ?thesis
    using image_stays_in_place [OF l l demo_axis_facts(2,2), of
        "\<lparr>ip_image = Some \<lparr>pc_id = 7, pc_width = 64, pc_height = 32\<rparr>, ip_x1 = 1, ip_y1 = 20, ip_x2 = 9, ip_y2 = 4\<rparr>"
        "\<lparr>pc_id = 7, pc_width = 64, pc_height = 32\<rparr>" False "(1, 9)" "(4, 20)" 1 1 "\<lparr>plotLeft = 0, plotTop = 0, plotWidth = 400, plotHeight = 300\<rparr>"]
    by (simp add: side_corners_def demo_axis_facts Let_def) blast
qed

end
