(* ===== verification/Pie.thy ===== *)
theory Pie
  imports Grid
begin

text \<open>
  The pie plugin, \<open>static/flot/jquery.flot.pie.js\<close>: from the data to slices, the size and place of the pie, drawing it with shadow,
  outlines, hole and labels, and finding and highlighting the slice under the mouse.
\<close>

section \<open>Options\<close>

text \<open>\<open>None\<close> is \<open>"auto"\<close> for the radius, the offset and the labels; a slice is as below.\<close>

record pie_slice =
  sl_value :: real
  sl_color :: markup
  sl_label :: "markup option"
  sl_angle :: real
  sl_percent :: real

record pie_options =
  po_show :: bool
  po_radius :: "real option"
  po_innerRadius :: real
  po_startAngle :: real
  po_tilt :: real
  po_offsetTop :: real
  po_offsetLeft :: "real option"
  po_strokeColor :: markup
  po_strokeWidth :: real
  po_labelShow :: "bool option"
  po_labelFormatter :: "(markup option \<Rightarrow> pie_slice \<Rightarrow> markup) option"
  po_labelRadius :: real
  po_labelBackground :: "markup option"
  po_labelOpacity :: real
  po_labelThreshold :: real
  po_combineThreshold :: real
  po_combineColor :: "markup option"
  po_combineLabel :: markup
  po_highlightOpacity :: real

definition default_pie :: pie_options where
  "default_pie =
     \<lparr>po_show = False, po_radius = None, po_innerRadius = 0, po_startAngle = 3 / 2, po_tilt = 1, po_offsetTop = 0, po_offsetLeft = None,
      po_strokeColor = [T ''#FFF''], po_strokeWidth = 1, po_labelShow = None,
      po_labelFormatter = Some (\<lambda>l s. [T ''<div style=\"font-size:x-small;text-align:center;padding:2px;color:''] @ sl_color s @ [T '';\">'']
        @ (case l of Some t \<Rightarrow> t | None \<Rightarrow> [T ''undefined'']) @ [T ''<br/>'', V (jsround (sl_percent s)), T ''%</div>'']),
      po_labelRadius = 1, po_labelBackground = None, po_labelOpacity = 0, po_labelThreshold = 0,
      po_combineThreshold = - 1, po_combineColor = None, po_combineLabel = [T ''Other''], po_highlightOpacity = 1 / 2\<rparr>"

text \<open>The options of a plot with a pie: the grid is switched off and the automatic ones are chosen.\<close>

definition checkPieEnabled :: "bool \<Rightarrow> pie_options \<times> grid_options \<Rightarrow> pie_options \<times> grid_options" where
  "checkPieEnabled legend_show p =
     (let (po, grid) = p
      in if \<not> po_show po then p
         else
           let labels = (case po_labelShow po of None \<Rightarrow> \<not> legend_show | Some b \<Rightarrow> b);
               r = (case po_radius po of None \<Rightarrow> if labels then 3 / 4 else 1 | Some r \<Rightarrow> r);
               t1 = (if po_tilt po > 1 then 1 else po_tilt po)
           in (po\<lparr>po_labelShow := Some labels, po_radius := Some r, po_tilt := (if t1 < 0 then 0 else t1)\<rparr>, grid\<lparr>gr_show := False\<rparr>))"

definition the_radius :: "pie_options \<Rightarrow> real" where
  "the_radius po = (case po_radius po of Some r \<Rightarrow> r | None \<Rightarrow> 1)"

section \<open>Slices\<close>

text \<open>
  What a series has for its data: a number, nothing, an object without a first row and perhaps with a label, or rows of which the
  second value of the first is read as a number (\<open>None\<close> if it is none).
\<close>

datatype pie_data = PieNumber "real option" | PieNothing | PieObject "markup option" | PieRow "real option"

record pie_series =
  ps_data :: pie_data
  ps_color :: markup
  ps_label :: "markup option"

text \<open>\<open>fixData\<close>: every series has a row with one value.\<close>

definition fix_series :: "pie_series \<Rightarrow> pie_series" where
  "fix_series s =
     (case ps_data s of
        PieNumber v \<Rightarrow> s\<lparr>ps_data := PieRow v\<rparr>
      | PieNothing \<Rightarrow> s\<lparr>ps_data := PieRow (Some 0)\<rparr>
      | PieObject l \<Rightarrow> s\<lparr>ps_data := PieRow (Some 0), ps_label := (case l of Some t \<Rightarrow> Some t | None \<Rightarrow> ps_label s)\<rparr>
      | PieRow v \<Rightarrow> s)"

definition pie_value :: "pie_series \<Rightarrow> real" where
  "pie_value s = (case ps_data s of PieRow (Some v) \<Rightarrow> v | _ \<Rightarrow> 0)"

definition calcTotal :: "pie_series list \<Rightarrow> real \<Rightarrow> real" where
  "calcTotal ss old = foldl (\<lambda>t s. t + pie_value s) old ss"

record combining =
  cb_sum :: real
  cb_num :: nat
  cb_color :: "markup option"
  cb_slices :: "pie_slice list"

definition make_slice :: "real \<Rightarrow> real \<Rightarrow> markup \<Rightarrow> markup option \<Rightarrow> pie_slice" where
  "make_slice tot v c l = \<lparr>sl_value = v, sl_color = c, sl_label = l, sl_angle = v * (pi * 2) / tot, sl_percent = v / tot * 100\<rparr>"

definition combine_step :: "(real \<Rightarrow> string) \<Rightarrow> pie_options \<Rightarrow> real \<Rightarrow> combining \<Rightarrow> pie_series \<Rightarrow> combining" where
  "combine_step ns po tot st s =
     (let v = pie_value s
      in if v / tot \<le> po_combineThreshold po then
           st\<lparr>cb_sum := cb_sum st + v, cb_num := Suc (cb_num st),
              cb_color := (case cb_color st of
                  Some c \<Rightarrow> if has_text ns c then Some c else Some (ps_color s)
                | None \<Rightarrow> Some (ps_color s))\<rparr>
         else st\<lparr>cb_slices := cb_slices st @ [make_slice tot v (ps_color s) (ps_label s)]\<rparr>)"

text \<open>\<open>None\<close> when the total is zero, where the angles are no numbers. \<open>old\<close> is the total the plugin has counted so far; the new one is returned too.\<close>

definition combine :: "(real \<Rightarrow> string) \<Rightarrow> pie_options \<Rightarrow> real \<Rightarrow> pie_series list \<Rightarrow> (real \<times> pie_slice list) option" where
  "combine ns po old ss =
     (let fixed = map fix_series ss; tot = calcTotal fixed old;
          st = foldl (combine_step ns po tot) \<lparr>cb_sum = 0, cb_num = 0, cb_color = po_combineColor po, cb_slices = []\<rparr> fixed
      in if tot = 0 then None
         else Some (tot, cb_slices st
           @ (if cb_num st > 0
              then [make_slice tot (cb_sum st) (case cb_color st of Some c \<Rightarrow> c | None \<Rightarrow> []) (Some (po_combineLabel po))] else [])))"

section \<open>Size and place\<close>

record pie_place =
  pp_maxRadius :: real
  pp_left :: real
  pp_top :: real

text \<open>A tilt of zero divides the height to infinity.\<close>

definition setupPie :: "pie_options \<Rightarrow> string \<Rightarrow> real \<Rightarrow> real \<Rightarrow> real \<Rightarrow> pie_place" where
  "setupPie po legend_position legendWidth w h =
     (let r = (if po_tilt po = 0 then w else min w (h / po_tilt po)) / 2;
          l = w / 2 + (case po_offsetLeft po of
                Some x \<Rightarrow> x
              | None \<Rightarrow> if CHR ''w'' \<in> set legend_position then legendWidth / 2 else - (legendWidth / 2))
      in \<lparr>pp_maxRadius = r, pp_left = (if l < r then r else if l > w - r then w - r else l), pp_top = h / 2 + po_offsetTop po\<rparr>)"

text \<open>A radius above 1 is in pixels, others are a part of the largest one.\<close>

definition pie_radius :: "real \<Rightarrow> real \<Rightarrow> real" where
  "pie_radius maxRadius r = (if r > 1 then r else maxRadius * r)"

section \<open>Drawing\<close>

text \<open>The radii of the rings of the shadow: they shrink by one more pixel every time.\<close>

definition shadow_radii :: "real \<Rightarrow> real list" where
  "shadow_radii radius = map (\<lambda>i. radius - real (i * (i + 1) div 2)) [0..<10]"

text \<open>A canvas stops the script at an arc with a negative radius.\<close>

definition arcs_ok :: "drawing \<Rightarrow> bool" where
  "arcs_ok d = list_all (\<lambda>c. case c of Arc x y r a b \<Rightarrow> r \<ge> 0 | _ \<Rightarrow> True) d"

definition drawShadow :: "pie_options \<Rightarrow> pie_place \<Rightarrow> real \<Rightarrow> real \<Rightarrow> drawing" where
  "drawShadow po pp w h =
     (let radius = pie_radius (pp_maxRadius pp) (the_radius po)
      in if radius \<ge> w / 2 - 5 \<or> radius * po_tilt po \<ge> h / 2 - 15 \<or> radius \<le> 10 then []
         else [Save, Translate 5 15, GlobalAlpha 0.02, FillStyle (Css [T ''#000'']), Translate (pp_left pp) (pp_top pp), ScaleBy 1 (po_tilt po)]
           @ concat (map (\<lambda>r. [BeginPath, Arc 0 0 r 0 (pi * 2), Fill]) (shadow_radii radius)) @ [Restore])"

text \<open>One slice: the calls, and the angle where the next begins. \<open>msie\<close> is a browser that cannot draw a full circle.\<close>

definition drawSlice :: "bool \<Rightarrow> real \<Rightarrow> markup \<Rightarrow> bool \<Rightarrow> real \<Rightarrow> real \<Rightarrow> drawing \<times> real" where
  "drawSlice msie radius c fill currentAngle angle =
     (if angle \<le> 0 then ([], currentAngle)
      else
        let whole = \<not> \<bar>angle - pi * 2\<bar> > 1 / 10 ^ 9; angle' = (if whole \<and> msie then angle - 1 / 10 ^ 4 else angle)
        in ((if fill then [FillStyle (Css c)] else [StrokeStyle (Css c), LineJoin ''round''])
            @ [BeginPath] @ (if whole then [] else [MoveTo 0 0])
            @ [Arc 0 0 radius currentAngle (currentAngle + angle'), ClosePath, if fill then Fill else Stroke], currentAngle + angle'))"

text \<open>All slices, with the angle each of them starts at.\<close>

fun drawSlices :: "bool \<Rightarrow> real \<Rightarrow> (pie_slice \<Rightarrow> markup) \<Rightarrow> bool \<Rightarrow> real \<Rightarrow> pie_slice list \<Rightarrow> drawing \<times> real list" where
  "drawSlices msie radius c fill currentAngle [] = ([], [])"
| "drawSlices msie radius c fill currentAngle (s # ss) =
     (let (d, next) = drawSlice msie radius (c s) fill currentAngle (sl_angle s); (ds, starts) = drawSlices msie radius c fill next ss
      in (d @ ds, currentAngle # starts))"

definition drawDonutHole :: "pie_options \<Rightarrow> pie_place \<Rightarrow> drawing" where
  "drawDonutHole po pp =
     (if po_innerRadius po > 0 then
        let r = pie_radius (pp_maxRadius pp) (po_innerRadius po)
        in [Save, CompositeOperation ''destination-out'', BeginPath, FillStyle (Css (po_strokeColor po)), Arc 0 0 r 0 (pi * 2), Fill, ClosePath, Restore,
            Save, BeginPath, StrokeStyle (Css (po_strokeColor po)), Arc 0 0 r 0 (pi * 2), Stroke, ClosePath, Restore]
      else [])"

section \<open>Labels\<close>

text \<open>A label on the page: its text, the place of its corner, its size, and the colour of its background if it has one.\<close>

record pie_label =
  lb_index :: nat
  lb_text :: "markup option"
  lb_top :: real
  lb_left :: real
  lb_width :: real
  lb_height :: real
  lb_background :: "markup option"

text \<open>The sizes the browser measures for a text.\<close>

type_synonym measure = "markup option \<Rightarrow> real \<times> real"

definition drawLabel ::
  "pie_options \<Rightarrow> (markup option \<Rightarrow> pie_slice \<Rightarrow> markup) option \<Rightarrow> measure \<Rightarrow> pie_place \<Rightarrow> real \<Rightarrow> nat \<Rightarrow> real \<Rightarrow> pie_slice \<Rightarrow> pie_label option" where
  "drawLabel po lf ms pp radius index startAngle s =
     (if sl_value s = 0 then None
      else
        let text1 = (case lf of Some f \<Rightarrow> Some (f (sl_label s) s) | None \<Rightarrow> sl_label s);
            text = (case po_labelFormatter po of Some f \<Rightarrow> Some (f text1 s) | None \<Rightarrow> text1);
            halfAngle = ((startAngle + sl_angle s) + startAngle) / 2;
            x = pp_left pp + jsround (cos halfAngle * radius); y = pp_top pp + jsround (sin halfAngle * radius) * po_tilt po
        in Some \<lparr>lb_index = index, lb_text = text, lb_top = y - snd (ms text) / 2, lb_left = x - fst (ms text) / 2,
                 lb_width = fst (ms text), lb_height = snd (ms text),
                 lb_background = (if po_labelOpacity po \<noteq> 0
                   then Some (case po_labelBackground po of Some c \<Rightarrow> c | None \<Rightarrow> sl_color s) else None)\<rparr>)"

fun drawLabels ::
  "pie_options \<Rightarrow> (markup option \<Rightarrow> pie_slice \<Rightarrow> markup) option \<Rightarrow> measure \<Rightarrow> pie_place \<Rightarrow> nat \<Rightarrow> real \<Rightarrow> pie_slice list \<Rightarrow> pie_label list" where
  "drawLabels po lf ms pp i currentAngle [] = []"
| "drawLabels po lf ms pp i currentAngle (s # ss) =
     (if sl_percent s \<ge> po_labelThreshold po * 100
      then (case drawLabel po lf ms pp (pie_radius (pp_maxRadius pp) (po_labelRadius po)) i currentAngle s of None \<Rightarrow> [] | Some l \<Rightarrow> [l]) else [])
     @ drawLabels po lf ms pp (Suc i) (currentAngle + sl_angle s) ss"

definition outside_canvas :: "real \<Rightarrow> real \<Rightarrow> pie_label \<Rightarrow> bool" where
  "outside_canvas w h l \<longleftrightarrow>
     0 - lb_top l > 0 \<or> 0 - lb_left l > 0 \<or> h - (lb_top l + lb_height l) < 0 \<or> w - (lb_left l + lb_width l) < 0"

text \<open>The whole pie: the calls, where the slices start, and the labels.\<close>

definition drawPie ::
  "bool \<Rightarrow> pie_options \<Rightarrow> (markup option \<Rightarrow> pie_slice \<Rightarrow> markup) option \<Rightarrow> measure \<Rightarrow> pie_place \<Rightarrow> pie_slice list
    \<Rightarrow> drawing \<times> real list \<times> pie_label list" where
  "drawPie msie po lf ms pp ss =
     (let startAngle = pi * po_startAngle po; radius = pie_radius (pp_maxRadius pp) (the_radius po);
          (slices, starts) = drawSlices msie radius sl_color True startAngle ss;
          (outlines, _) = drawSlices msie radius (\<lambda>s. po_strokeColor po) False startAngle ss
      in ([Save, Translate (pp_left pp) (pp_top pp), ScaleBy 1 (po_tilt po), Save] @ slices @ [Restore, Save, LineWidth (po_strokeWidth po)]
            @ outlines @ [Restore] @ drawDonutHole po pp @ [Restore],
          starts, if po_labelShow po = Some True then drawLabels po lf ms pp 0 startAngle ss else []))"

section \<open>Drawing the plot\<close>

text \<open>
  What the plugin keeps for its plot. \<open>pt_target\<close> and \<open>pt_processed\<close> are set together with the first data, the starts of the slices and
  the place by drawing. \<open>pt_labels\<close> are the labels on the page, \<open>pt_error\<close> tells whether the error message is there.
\<close>

record pie_state =
  pt_processed :: bool
  pt_total :: real
  pt_slices :: "pie_slice list"
  pt_redraw :: bool
  pt_place :: pie_place
  pt_starts :: "real list"
  pt_labels :: "pie_label list"
  pt_error :: bool
  pt_highlights :: "(nat \<times> string option) list"

definition new_pie :: pie_state where
  "new_pie = \<lparr>pt_processed = False, pt_total = 0, pt_slices = [], pt_redraw = True, pt_place = \<lparr>pp_maxRadius = 0, pp_left = 0, pp_top = 0\<rparr>,
     pt_starts = [], pt_labels = [], pt_error = False, pt_highlights = []\<rparr>"

text \<open>Only the first data become slices.\<close>

definition processDatapoints_pie :: "(real \<Rightarrow> string) \<Rightarrow> pie_options \<Rightarrow> pie_series list \<Rightarrow> pie_state \<Rightarrow> pie_state option" where
  "processDatapoints_pie ns po ss st =
     (if pt_processed st then Some st
      else map_option (\<lambda>(tot, slices). st\<lparr>pt_processed := True, pt_total := tot, pt_slices := slices\<rparr>) (combine ns po (pt_total st) ss))"

text \<open>What drawing needs to know of the page: the browser, the formatter of the legend, text sizes, the legend and the canvas.\<close>

record pie_env =
  pe_msie :: bool
  pe_labelFormatter :: "(markup option \<Rightarrow> pie_slice \<Rightarrow> markup) option"
  pe_measure :: measure
  pe_legendPosition :: string
  pe_legendWidth :: real
  pe_width :: real
  pe_height :: real

text \<open>One attempt clears the canvas and the labels and draws; the pie is smaller from the second one on.\<close>

definition pie_attempt :: "pie_options \<Rightarrow> pie_env \<Rightarrow> nat \<Rightarrow> pie_state \<Rightarrow> (drawing \<times> pie_state) option" where
  "pie_attempt po env attempts st =
     (let pp = (pt_place st)\<lparr>pp_maxRadius := pp_maxRadius (pt_place st) * (if attempts > 0 then 0.95 else 1)\<rparr>;
          (d, starts, labels) = drawPie (pe_msie env) po (pe_labelFormatter env) (pe_measure env) pp (pt_slices st);
          calls = [ClearRect 0 0 (pe_width env) (pe_height env)]
            @ (if po_tilt po \<le> 0.8 then drawShadow po pp (pe_width env) (pe_height env) else []) @ d
      in if arcs_ok calls
         then Some (calls, st\<lparr>pt_place := pp, pt_starts := starts, pt_labels := labels,
                              pt_redraw := list_ex (outside_canvas (pe_width env) (pe_height env)) labels\<rparr>)
         else None)"

text \<open>The first argument is the number of attempts that are left of the ten.\<close>

fun pie_attempts :: "nat \<Rightarrow> pie_options \<Rightarrow> pie_env \<Rightarrow> nat \<Rightarrow> pie_state \<Rightarrow> (drawing \<times> nat \<times> pie_state) option" where
  "pie_attempts 0 po env attempts st = Some ([], attempts, st)"
| "pie_attempts (Suc n) po env attempts st =
     (if pt_redraw st then
        Option.bind (pie_attempt po env attempts st) (\<lambda>(d, st1). map_option (\<lambda>(d', a, st2). (d @ d', a, st2)) (pie_attempts n po env (Suc attempts) st1))
      else Some ([], attempts, st))"

definition draw_pie :: "pie_options \<Rightarrow> pie_env \<Rightarrow> pie_state \<Rightarrow> (drawing \<times> pie_state) option" where
  "draw_pie po env st =
     (if \<not> pt_processed st then Some ([], st)
      else
        let st1 = st\<lparr>pt_place := setupPie po (pe_legendPosition env) (pe_legendWidth env) (pe_width env) (pe_height env)\<rparr>
        in map_option (\<lambda>(d, attempts, st2).
             if attempts \<ge> 10 then (d @ [ClearRect 0 0 (pe_width env) (pe_height env)], st2\<lparr>pt_labels := [], pt_error := True\<rparr>) else (d, st2))
           (pie_attempts 10 po env 0 st1))"

section \<open>The slice under the mouse\<close>

text \<open>\<open>isPointInPoly\<close>: the edges before each vertex are counted if a ray to the right crosses them.\<close>

definition crosses :: "real \<times> real \<Rightarrow> real \<times> real \<Rightarrow> real \<times> real \<Rightarrow> bool" where
  "crosses pt a b \<longleftrightarrow>
     (snd a \<le> snd pt \<and> snd pt < snd b \<or> snd b \<le> snd pt \<and> snd pt < snd a)
     \<and> fst pt < (fst b - fst a) * (snd pt - snd a) / (snd b - snd a) + fst a"

fun poly_edges :: "real \<times> real \<Rightarrow> (real \<times> real) list \<Rightarrow> ((real \<times> real) \<times> (real \<times> real)) list" where
  "poly_edges j [] = []"
| "poly_edges j (i # vs) = (i, j) # poly_edges i vs"

definition isPointInPoly :: "(real \<times> real) list \<Rightarrow> real \<times> real \<Rightarrow> bool" where
  "isPointInPoly poly pt =
     (if poly = [] then False else foldl (\<lambda>c (a, b). if crosses pt a b then \<not> c else c) False (poly_edges (last poly) poly))"

text \<open>The path of a slice, and the polygon that stands for it where the browser does not test paths.\<close>

definition slice_path :: "real \<Rightarrow> real \<Rightarrow> real \<Rightarrow> drawing" where
  "slice_path radius start angle = [BeginPath, MoveTo 0 0, Arc 0 0 radius start (start + angle), ClosePath]"

definition slice_poly :: "real \<Rightarrow> real \<Rightarrow> real \<Rightarrow> (real \<times> real) list" where
  "slice_poly radius start angle =
     (0, 0) # map (\<lambda>a. (radius * cos a, radius * sin a)) [start, start + angle / 4, start + angle / 2, start + angle / 1.5, start + angle]"

text \<open>\<open>isPointInPath\<close> of the browser takes the path as its calls; \<open>None\<close> is a browser without it.\<close>

definition in_slice :: "(drawing \<Rightarrow> real \<Rightarrow> real \<Rightarrow> bool) option \<Rightarrow> real \<Rightarrow> real \<times> real \<Rightarrow> real \<Rightarrow> pie_slice \<Rightarrow> bool" where
  "in_slice isPointInPath radius pt start s =
     (case isPointInPath of
        Some f \<Rightarrow> f (slice_path radius start (sl_angle s)) (fst pt) (snd pt)
      | None \<Rightarrow> isPointInPoly (slice_poly radius start (sl_angle s)) pt)"

fun find_slice :: "(drawing \<Rightarrow> real \<Rightarrow> real \<Rightarrow> bool) option \<Rightarrow> real \<Rightarrow> real \<times> real \<Rightarrow> nat \<Rightarrow> (pie_slice \<times> real) list \<Rightarrow> nat option" where
  "find_slice f radius pt i [] = None"
| "find_slice f radius pt i ((s, start) # ss) = (if in_slice f radius pt start s then Some i else find_slice f radius pt (Suc i) ss)"

text \<open>The place on the canvas is taken from the centre of the pie; the result is the number of the slice.\<close>

definition findNearbySlice :: "(drawing \<Rightarrow> real \<Rightarrow> real \<Rightarrow> bool) option \<Rightarrow> pie_options \<Rightarrow> real \<Rightarrow> real \<Rightarrow> pie_state \<Rightarrow> nat option" where
  "findNearbySlice isPointInPath po mouseX mouseY st =
     (if po_show po
      then find_slice isPointInPath (pie_radius (pp_maxRadius (pt_place st)) (the_radius po))
             (mouseX - pp_left (pt_place st), mouseY - pp_top (pt_place st)) 0 (zip (pt_slices st) (pt_starts st))
      else None)"

section \<open>Highlights\<close>

text \<open>A highlight is the number of its slice and the event that set it, if it is an automatic one. The Boolean asks for a new overlay.\<close>

fun indexOfHighlight_pie :: "(nat \<times> string option) list \<Rightarrow> nat \<Rightarrow> nat option" where
  "indexOfHighlight_pie [] s = None"
| "indexOfHighlight_pie (h # hs) s = (if fst h = s then Some 0 else map_option Suc (indexOfHighlight_pie hs s))"

definition highlight_slice :: "nat \<Rightarrow> string option \<Rightarrow> (nat \<times> string option) list \<Rightarrow> (nat \<times> string option) list \<times> bool" where
  "highlight_slice s auto hs =
     (case indexOfHighlight_pie hs s of
        None \<Rightarrow> (hs @ [(s, auto)], True)
      | Some i \<Rightarrow> (if auto = None then hs[i := (fst (hs ! i), None)] else hs, False))"

definition remove_nth :: "nat \<Rightarrow> 'a list \<Rightarrow> 'a list" where
  "remove_nth i xs = take i xs @ drop (Suc i) xs"

definition unhighlight_slice :: "nat option \<Rightarrow> (nat \<times> string option) list \<Rightarrow> (nat \<times> string option) list \<times> bool" where
  "unhighlight_slice s hs =
     (case s of
        None \<Rightarrow> ([], True)
      | Some k \<Rightarrow> (case indexOfHighlight_pie hs k of None \<Rightarrow> (hs, False) | Some i \<Rightarrow> (remove_nth i hs, True)))"

lemma unhighlight_slice_length: "length (fst (unhighlight_slice (Some k) hs)) \<le> length hs"
  by (auto simp: unhighlight_slice_def remove_nth_def split: option.splits)

text \<open>The loop over the automatic highlights of an event goes on at the next number after a removal.\<close>

function clear_slices :: "string \<Rightarrow> nat option \<Rightarrow> nat \<Rightarrow> (nat \<times> string option) list \<Rightarrow> bool \<Rightarrow> (nat \<times> string option) list \<times> bool" where
  "clear_slices ev item i hs r =
     (if i < length hs then
        if snd (hs ! i) = Some ev \<and> item \<noteq> Some (fst (hs ! i))
        then clear_slices ev item (Suc i) (fst (unhighlight_slice (Some (fst (hs ! i))) hs)) (r \<or> snd (unhighlight_slice (Some (fst (hs ! i))) hs))
        else clear_slices ev item (Suc i) hs r
      else (hs, r))"
  by pat_completeness auto

termination
proof (relation "measure (\<lambda>(ev, item, i, hs, r). length hs - i)", goal_cases)
  case (2 ev item i hs r)
  then show ?case using unhighlight_slice_length [of "fst (hs ! i)" hs] by auto
qed auto

declare clear_slices.simps [simp del]

text \<open>The event of the page with the slice under the mouse, if there is one: state, redrawing, and the triggered event.\<close>

definition triggerClickHoverEvent_pie ::
  "(drawing \<Rightarrow> real \<Rightarrow> real \<Rightarrow> bool) option \<Rightarrow> pie_options \<Rightarrow> bool \<Rightarrow> real \<times> real \<Rightarrow> string \<Rightarrow> real \<times> real \<Rightarrow> pie_state
    \<Rightarrow> pie_state \<times> bool \<times> (string \<times> (real \<times> real) \<times> nat option)" where
  "triggerClickHoverEvent_pie isPointInPath po autoHighlight offset ev page st =
     (let item = findNearbySlice isPointInPath po (trunc (fst page - fst offset)) (trunc (snd page - snd offset)) st;
          (hs, r) = (if autoHighlight then clear_slices ev item 0 (pt_highlights st) False else (pt_highlights st, False));
          (hs', r') = (case item of Some s \<Rightarrow> highlight_slice s (Some ev) hs | None \<Rightarrow> (hs, False))
      in (st\<lparr>pt_highlights := hs'\<rparr>, r \<or> r', (ev, page, item)))"

definition drawHighlight_pie :: "pie_options \<Rightarrow> real \<Rightarrow> pie_slice \<times> real \<Rightarrow> drawing" where
  "drawHighlight_pie po radius p =
     (let (s, start) = p
      in if sl_angle s < 0 then []
         else [FillStyle (Css [T ''rgba(255, 255, 255, '', V (po_highlightOpacity po), T '')'']), BeginPath]
           @ (if \<bar>sl_angle s - pi * 2\<bar> > 1 / 10 ^ 9 then [MoveTo 0 0] else [])
           @ [Arc 0 0 radius start (start + sl_angle s), ClosePath, Fill])"

definition drawOverlay_pie :: "pie_options \<Rightarrow> pie_state \<Rightarrow> drawing" where
  "drawOverlay_pie po st =
     (let radius = pie_radius (pp_maxRadius (pt_place st)) (the_radius po)
      in [Save, Translate (pp_left (pt_place st)) (pp_top (pt_place st)), ScaleBy 1 (po_tilt po)]
         @ concat (map (\<lambda>h. drawHighlight_pie po radius (zip (pt_slices st) (pt_starts st) ! fst h)) (pt_highlights st))
         @ drawDonutHole po (pt_place st) @ [Restore])"

text \<open>A slice has at most one highlight, and every highlight is that of a slice that has been drawn.\<close>

definition pie_highlights_ok :: "nat \<Rightarrow> (nat \<times> string option) list \<Rightarrow> bool" where
  "pie_highlights_ok n hs \<longleftrightarrow> distinct (map fst hs) \<and> (\<forall>h\<in>set hs. fst h < n)"

lemma indexOf_pie_None: "indexOfHighlight_pie hs s = None \<longleftrightarrow> s \<notin> fst ` set hs"
  by (induction hs) auto

lemma indexOf_pie_Some: "indexOfHighlight_pie hs s = Some i \<Longrightarrow> i < length hs \<and> fst (hs ! i) = s"
  by (induction hs arbitrary: i) (auto split: if_splits)

lemma highlight_slice_ok:
  assumes "pie_highlights_ok n hs" "s < n"
  shows "pie_highlights_ok n (fst (highlight_slice s auto hs))"
proof (cases "indexOfHighlight_pie hs s")
  case None
  then have "s \<notin> fst ` set hs" by (simp add: indexOf_pie_None)
  then show ?thesis using None assms by (auto simp: highlight_slice_def pie_highlights_ok_def)
next
  case (Some i)
  then have "map fst (hs[i := (fst (hs ! i), a)]) = map fst hs" for a
    using indexOf_pie_Some [OF Some] by (simp add: map_update list_update_same_conv)
  then have "distinct (map fst (hs[i := (fst (hs ! i), a)])) \<and> (\<forall>x\<in>set (map fst (hs[i := (fst (hs ! i), a)])). x < n)" for a
    using assms(1) by (simp add: pie_highlights_ok_def)
  then show ?thesis using Some assms(1) by (auto simp: highlight_slice_def pie_highlights_ok_def)
qed

lemma remove_nth_ok: "pie_highlights_ok n hs \<Longrightarrow> pie_highlights_ok n (remove_nth i hs)"
  by (auto simp: pie_highlights_ok_def remove_nth_def take_map [symmetric] drop_map [symmetric] dest: in_set_takeD in_set_dropD
      set_take_disj_set_drop_if_distinct [of _ i "Suc i"])

lemma unhighlight_slice_ok: "pie_highlights_ok n hs \<Longrightarrow> pie_highlights_ok n (fst (unhighlight_slice s hs))"
  by (auto simp: unhighlight_slice_def remove_nth_ok pie_highlights_ok_def [of n "[]"] split: option.split)

lemma clear_slices_ok: "pie_highlights_ok n hs \<Longrightarrow> pie_highlights_ok n (fst (clear_slices ev item i hs r))"
  by (induction ev item i hs r rule: clear_slices.induct) (subst clear_slices.simps, simp add: unhighlight_slice_ok)

lemma find_slice_bound: "find_slice f radius pt i ss = Some k \<Longrightarrow> k < i + length ss"
  by (induction f radius pt i ss rule: find_slice.induct) (auto split: if_splits)

lemma triggerClickHoverEvent_pie_ok:
  assumes "pie_highlights_ok (length (zip (pt_slices st) (pt_starts st))) (pt_highlights st)"
  shows "pie_highlights_ok (length (zip (pt_slices st) (pt_starts st))) (pt_highlights (fst (triggerClickHoverEvent_pie f po auto offset ev page st)))"
proof -
  have "k < length (zip (pt_slices st) (pt_starts st))" if "findNearbySlice f po x y st = Some k" for x y k
    using that find_slice_bound by (fastforce simp: findNearbySlice_def split: if_splits)
  then show ?thesis
    using clear_slices_ok [OF assms] highlight_slice_ok assms
    by (auto simp: triggerClickHoverEvent_pie_def Let_def split_beta split: option.split)
qed

section \<open>The slices fill the circle\<close>

lemma calcTotal_sum: "calcTotal ss old = old + sum_list (map pie_value ss)"
  unfolding calcTotal_def by (induction ss arbitrary: old) (simp_all add: algebra_simps)

lemma combine_step_fields:
  "sum_list (map sl_value (cb_slices (combine_step ns po tot st s))) + cb_sum (combine_step ns po tot st s)
     = sum_list (map sl_value (cb_slices st)) + cb_sum st + pie_value s"
  "cb_num (combine_step ns po tot st s) = 0 \<Longrightarrow> cb_num st = 0 \<and> cb_sum (combine_step ns po tot st s) = cb_sum st"
  "0 \<le> pie_value s \<Longrightarrow> 0 \<le> cb_sum st \<Longrightarrow> 0 \<le> cb_sum (combine_step ns po tot st s)"
  "x \<in> set (cb_slices (combine_step ns po tot st s)) \<Longrightarrow> x \<in> set (cb_slices st) \<or> x = make_slice tot (pie_value s) (ps_color s) (ps_label s)"
  by (auto simp: combine_step_def Let_def make_slice_def split: if_splits)

lemma combine_fold_sum:
  "sum_list (map sl_value (cb_slices (foldl (combine_step ns po tot) st ss))) + cb_sum (foldl (combine_step ns po tot) st ss)
     = sum_list (map sl_value (cb_slices st)) + cb_sum st + sum_list (map pie_value ss)"
  by (induction ss arbitrary: st) (simp_all add: combine_step_fields(1))

lemma combine_fold_none:
  "cb_num (foldl (combine_step ns po tot) st ss) = 0 \<Longrightarrow> cb_num st = 0 \<and> cb_sum (foldl (combine_step ns po tot) st ss) = cb_sum st"
  by (induction ss arbitrary: st) (auto dest: combine_step_fields(2))

lemma combine_fold_pos:
  "(\<And>s. s \<in> set ss \<Longrightarrow> 0 \<le> pie_value s) \<Longrightarrow> 0 \<le> cb_sum st \<Longrightarrow> 0 \<le> cb_sum (foldl (combine_step ns po tot) st ss)"
  by (induction ss arbitrary: st) (simp_all add: combine_step_fields(3))

lemma combine_fold_slices:
  "s \<in> set (cb_slices (foldl (combine_step ns po tot) st ss)) \<Longrightarrow>
     s \<in> set (cb_slices st) \<or> (\<exists>x\<in>set ss. s = make_slice tot (pie_value x) (ps_color x) (ps_label x))"
  by (induction ss arbitrary: st) (auto dest: combine_step_fields(4))

definition slice_of :: "real \<Rightarrow> pie_slice \<Rightarrow> bool" where
  "slice_of tot s \<longleftrightarrow> sl_angle s = sl_value s * (pi * 2) / tot \<and> sl_percent s = sl_value s / tot * 100"

lemma combine_slices:
  assumes c: "combine ns po 0 ss = Some (tot, slices)" and nonneg: "\<And>s. s \<in> set ss \<Longrightarrow> 0 \<le> pie_value (fix_series s)"
  shows "tot = sum_list (map (\<lambda>s. pie_value (fix_series s)) ss)" and "0 < tot" and "sum_list (map sl_value slices) = tot"
    and "s \<in> set slices \<Longrightarrow> slice_of tot s \<and> 0 \<le> sl_value s"
proof -
  define fixed where "fixed = map fix_series ss"
  define st0 where "st0 = \<lparr>cb_sum = 0, cb_num = 0, cb_color = po_combineColor po, cb_slices = []\<rparr>"
  define st where "st = foldl (combine_step ns po tot) st0 fixed"
  have st0: "cb_sum st0 = 0" "cb_slices st0 = []" by (simp_all add: st0_def)
  have tot: "tot = calcTotal fixed 0" and slices: "slices = cb_slices st
      @ (if cb_num st > 0 then [make_slice tot (cb_sum st) (case cb_color st of Some c \<Rightarrow> c | None \<Rightarrow> []) (Some (po_combineLabel po))] else [])"
    and "tot \<noteq> 0"
    using c by (auto simp: combine_def Let_def fixed_def st_def st0_def split: if_splits)
  have sum: "tot = sum_list (map pie_value fixed)" using tot by (simp add: calcTotal_sum)
  then show "tot = sum_list (map (\<lambda>s. pie_value (fix_series s)) ss)" by (simp add: fixed_def comp_def)
  have pos: "\<And>s. s \<in> set fixed \<Longrightarrow> 0 \<le> pie_value s" using nonneg by (auto simp: fixed_def)
  have "0 \<le> tot" unfolding sum by (rule sum_list_nonneg) (use pos in auto)
  with \<open>tot \<noteq> 0\<close> show "0 < tot" by simp
  have all: "sum_list (map sl_value (cb_slices st)) + cb_sum st = sum_list (map pie_value fixed)"
    unfolding st_def combine_fold_sum using st0 by simp
  have none: "cb_num st = 0 \<Longrightarrow> cb_sum st = 0"
    unfolding st_def by (drule combine_fold_none) (simp add: st0)
  show "sum_list (map sl_value slices) = tot"
    using all none sum by (auto simp: slices make_slice_def)
  have "0 \<le> cb_sum st" unfolding st_def by (rule combine_fold_pos) (use pos st0 in auto)
  then show "s \<in> set slices \<Longrightarrow> slice_of tot s \<and> 0 \<le> sl_value s"
    using combine_fold_slices [of s ns po tot st0 fixed] pos st0
    by (auto simp: slices st_def [symmetric] slice_of_def make_slice_def split: if_splits)
qed

lemma slices_sum:
  assumes "\<And>s. s \<in> set slices \<Longrightarrow> slice_of tot s"
  shows "sum_list (map sl_angle slices) = sum_list (map sl_value slices) * (pi * 2) / tot"
    and "sum_list (map sl_percent slices) = sum_list (map sl_value slices) / tot * 100"
  using assms by (induction slices) (auto simp: slice_of_def add_divide_distrib algebra_simps)

lemma drawSlices_starts:
  assumes "\<And>s. s \<in> set ss \<Longrightarrow> 0 \<le> sl_angle s"
  shows "snd (drawSlices False radius c fill a ss) = map (\<lambda>i. a + sum_list (map sl_angle (take i ss))) [0..<length ss]"
  using assms
proof (induction ss arbitrary: a)
  case (Cons s ss)
  have "snd (drawSlice False radius (c s) fill a (sl_angle s)) = a + sl_angle s"
    using Cons.prems [of s] by (simp add: drawSlice_def Let_def)
  then show ?case
    using Cons.IH [of "a + sl_angle s"] Cons.prems by (simp add: map_upt_Suc add.assoc split_beta del: upt_Suc)
qed simp

text \<open>
  C39. When the values are not negative the slices, with the combined one, keep the total of the values, fill the circle exactly and
  make up 100 percent, and they are drawn one after the other from the start angle; no slice is larger than the circle.
\<close>

theorem pie_fills_circle:
  assumes "combine ns po 0 ss = Some (tot, slices)"
    and "\<forall>s\<in>set ss. 0 \<le> pie_value (fix_series s)"
  shows "tot = sum_list (map (\<lambda>s. pie_value (fix_series s)) ss) \<and> sum_list (map sl_value slices) = tot
    \<and> sum_list (map sl_angle slices) = 2 * pi \<and> sum_list (map sl_percent slices) = 100
    \<and> (\<forall>s\<in>set slices. 0 \<le> sl_angle s \<and> sl_angle s \<le> 2 * pi)
    \<and> snd (drawSlices False radius c fill start slices) = map (\<lambda>i. start + sum_list (map sl_angle (take i slices))) [0..<length slices]"
proof -
  note c = combine_slices [OF assms(1) assms(2) [rule_format]]
  have pos: "\<forall>s\<in>set slices. 0 \<le> sl_value s" and slice: "\<forall>s\<in>set slices. slice_of tot s" using c(4) by auto
  have "sl_value s \<le> tot" if "s \<in> set slices" for s
    using member_le_sum_list [of "sl_value s" "map sl_value slices"] that pos c(3) by auto
  then have angle: "\<forall>s\<in>set slices. 0 \<le> sl_angle s \<and> sl_angle s \<le> 2 * pi"
    using pos slice c(2) by (auto simp: slice_of_def pos_divide_le_eq)
  then show ?thesis
    using c(1,2,3) slices_sum [of slices tot] slice drawSlices_starts [of slices radius c fill start] by auto
qed

theorem pie_fills_circle_witness:
  "\<exists>slices. combine (\<lambda>_. []) (default_pie\<lparr>po_combineThreshold := 1 / 5\<rparr>) 0
        [\<lparr>ps_data = PieNumber (Some 6), ps_color = [T ''#111''], ps_label = None\<rparr>, \<lparr>ps_data = PieNothing, ps_color = [T ''#222''], ps_label = None\<rparr>,
         \<lparr>ps_data = PieRow (Some 1), ps_color = [T ''#333''], ps_label = None\<rparr>] = Some (7, slices)
      \<and> length slices = 2 \<and> sum_list (map sl_angle slices) = 2 * pi"
  (is "\<exists>slices. combine ?ns ?po 0 ?ss = _ \<and> _")
proof -
  obtain slices where s: "combine ?ns ?po 0 ?ss = Some (7, slices)" and "length slices = 2"
    by (simp add: combine_def calcTotal_def combine_step_def Let_def fix_series_def pie_value_def default_pie_def has_text_def flatten_def)
  moreover have "\<forall>s\<in>set ?ss. 0 \<le> pie_value (fix_series s)" by (simp add: fix_series_def pie_value_def)
  ultimately show ?thesis using pie_fills_circle [OF s] s by blast
qed

section \<open>What drawing leaves\<close>

lemma shadow_flat: "flat (concat (map (\<lambda>r. [BeginPath, Arc 0 0 r 0 (pi * 2), Fill]) rs))"
  by (induction rs) auto

lemma drawShadow_balanced: "balanced (drawShadow po pp w h)"
  unfolding balanced_def by (simp add: drawShadow_def Let_def depth_append balanced_depth [OF flat_balanced [OF shadow_flat]])

lemma drawSlice_flat: "flat (fst (drawSlice msie radius c fill a angle))"
  by (simp add: drawSlice_def Let_def)

lemma drawSlices_flat: "flat (fst (drawSlices msie radius c fill a ss))"
  by (induction ss arbitrary: a) (simp_all add: drawSlice_flat split_beta)

lemma drawDonutHole_balanced: "balanced (drawDonutHole po pp)"
  by (simp add: drawDonutHole_def Let_def balanced_def)

lemma drawPie_balanced: "balanced (fst (drawPie msie po lf ms pp ss))"
proof -
  have flat: "balanced (fst (drawSlices msie radius c fill a ss))" for radius c fill a
    by (rule flat_balanced [OF drawSlices_flat])
  show ?thesis
    unfolding balanced_def
    by (simp add: drawPie_def Let_def split_beta depth_append balanced_depth [OF flat] balanced_depth [OF drawDonutHole_balanced])
qed

text \<open>The labels of an attempt are inside the canvas unless another one is asked for.\<close>

definition labels_placed :: "pie_env \<Rightarrow> pie_state \<Rightarrow> bool" where
  "labels_placed env st \<longleftrightarrow> \<not> pt_redraw st \<longrightarrow> (\<forall>l\<in>set (pt_labels st). \<not> outside_canvas (pe_width env) (pe_height env) l)"

lemma pie_attempt_result:
  assumes "pie_attempt po env a st = Some (d, st')"
  shows "balanced d" and "labels_placed env st'" and "pt_error st' = pt_error st" and "pt_processed st' = pt_processed st"
    and "pt_place st' = (pt_place st)\<lparr>pp_maxRadius := pp_maxRadius (pt_place st) * (if a > 0 then 0.95 else 1)\<rparr>"
  using assms drawPie_balanced [of "pe_msie env" po "pe_labelFormatter env" "pe_measure env" _ "pt_slices st"] drawShadow_balanced
  by (auto simp: pie_attempt_def Let_def split_beta labels_placed_def list_ex_iff balanced_Cons intro!: balanced_append split: if_splits)

lemma pie_attempts_result:
  assumes "pie_attempts n po env a st = Some (d, a', st')" "labels_placed env st"
  shows "balanced d \<and> labels_placed env st' \<and> pt_error st' = pt_error st \<and> pt_processed st' = pt_processed st \<and> a' \<le> a + n
    \<and> (a' < a + n \<longrightarrow> \<not> pt_redraw st')
    \<and> (0 < a \<longrightarrow> a \<le> a' \<and> pt_place st' = (pt_place st)\<lparr>pp_maxRadius := pp_maxRadius (pt_place st) * 0.95 ^ (a' - a)\<rparr>)"
  using assms
proof (induction n arbitrary: a st d)
  case (Suc n)
  show ?case
  proof (cases "pt_redraw st")
    case True
    then obtain d1 st1 d2 where 1: "pie_attempt po env a st = Some (d1, st1)"
      and 2: "pie_attempts n po env (Suc a) st1 = Some (d2, a', st')" "d = d1 @ d2"
      using Suc.prems(1) by (auto simp: bind_eq_Some_conv)
    note r = pie_attempt_result [OF 1]
    have p: "Suc a \<le> a' \<Longrightarrow> (0.95 :: real) ^ (a' - a) = 0.95 * 0.95 ^ (a' - Suc a)"
      by (metis Suc_diff_Suc Suc_le_eq power_Suc)
    show ?thesis
      using Suc.IH [OF 2(1) r(2)] r(1,3,4,5) 2(2) p by (simp add: balanced_append mult.assoc)
  qed (use Suc.prems in auto)
qed simp

lemma first_attempts:
  assumes "pie_attempts (Suc n) po env 0 st = Some (d, a', st')" "pt_redraw st"
  shows "balanced d \<and> labels_placed env st' \<and> pt_error st' = pt_error st \<and> (a' < Suc n \<longrightarrow> \<not> pt_redraw st') \<and> 0 < a'
    \<and> pt_place st' = (pt_place st)\<lparr>pp_maxRadius := pp_maxRadius (pt_place st) * 0.95 ^ (a' - 1)\<rparr>"
proof -
  obtain d1 st1 d2 where 1: "pie_attempt po env 0 st = Some (d1, st1)"
    and 2: "pie_attempts n po env (Suc 0) st1 = Some (d2, a', st')" "d = d1 @ d2"
    using assms by (auto simp: bind_eq_Some_conv)
  note r = pie_attempt_result [OF 1]
  show ?thesis using pie_attempts_result [OF 2(1) r(2)] r(1,3,5) 2(2) by (simp add: balanced_append)
qed


lemma straight_down: "cos ((pi * (3 / 2) + pi * 2 + pi * (3 / 2)) / 2) = 0" "sin ((pi * (3 / 2) + pi * 2 + pi * (3 / 2)) / 2) = 1"
proof -
  have "(pi * (3 / 2) + pi * 2 + pi * (3 / 2)) / 2 = pi / 2 + 2 * pi" by simp
  then show "cos ((pi * (3 / 2) + pi * 2 + pi * (3 / 2)) / 2) = 0" "sin ((pi * (3 / 2) + pi * 2 + pi * (3 / 2)) / 2) = 1"
    by (simp_all only: cos_periodic sin_periodic cos_pi_half sin_pi_half)
qed

definition demo_pie :: pie_state where
  "demo_pie = new_pie\<lparr>pt_processed := True, pt_total := 1, pt_slices := [make_slice 1 1 [] None]\<rparr>"

definition demo_pie_env :: pie_env where
  "demo_pie_env = \<lparr>pe_msie = False, pe_labelFormatter = None, pe_measure = (\<lambda>_. (10, 10)), pe_legendPosition = [], pe_legendWidth = 0,
     pe_width = 400, pe_height = 300\<rparr>"

definition demo_pie_options :: pie_options where
  "demo_pie_options = default_pie\<lparr>po_show := True, po_labelShow := Some True, po_radius := Some (3 / 4), po_labelFormatter := None\<rparr>"

lemma demo_process: "processDatapoints_pie ns demo_pie_options [\<lparr>ps_data = PieNumber (Some 1), ps_color = [], ps_label = None\<rparr>] new_pie = Some demo_pie"
  by (simp add: processDatapoints_pie_def combine_def calcTotal_def combine_step_def Let_def fix_series_def pie_value_def default_pie_def
      demo_pie_options_def demo_pie_def new_pie_def)

lemma demo_attempt:
  assumes "pp_left (pt_place st) = 200" "pp_top (pt_place st) = 150" "pp_maxRadius (pt_place st) = 150" "pt_slices st = [make_slice 1 1 [] None]"
  shows "\<exists>d st'. pie_attempt demo_pie_options demo_pie_env a st = Some (d, st') \<and> pt_redraw st' = (a = 0) \<and> pt_labels st' \<noteq> []
    \<and> pt_place st' = (pt_place st)\<lparr>pp_maxRadius := 150 * (if a > 0 then 0.95 else 1)\<rparr> \<and> pt_slices st' = pt_slices st \<and> pt_error st' = pt_error st"
  using assms straight_down
  by (simp add: pie_attempt_def drawPie_def drawLabel_def drawSlice_def drawDonutHole_def arcs_ok_def Let_def demo_pie_options_def demo_pie_env_def default_pie_def
      make_slice_def the_radius_def pie_radius_def outside_canvas_def jsround_def)

lemma demo_draw: "\<exists>d st'. draw_pie demo_pie_options demo_pie_env demo_pie = Some (d, st') \<and> \<not> pt_error st' \<and> pt_labels st' \<noteq> []"
proof -
  define st where "st = demo_pie\<lparr>pt_place := setupPie demo_pie_options (pe_legendPosition demo_pie_env) (pe_legendWidth demo_pie_env) (pe_width demo_pie_env) (pe_height demo_pie_env)\<rparr>"
  have st: "pp_left (pt_place st) = 200" "pp_top (pt_place st) = 150" "pp_maxRadius (pt_place st) = 150" "pt_slices st = [make_slice 1 1 [] None]"
    and start: "pt_redraw st" "\<not> pt_error st"
    by (simp_all add: st_def demo_pie_def new_pie_def setupPie_def demo_pie_options_def demo_pie_env_def default_pie_def Let_def)
  obtain d1 st1 where 1: "pie_attempt demo_pie_options demo_pie_env 0 st = Some (d1, st1)" and r1: "pt_redraw st1" "\<not> pt_error st1"
    "pt_place st1 = (pt_place st)\<lparr>pp_maxRadius := 150\<rparr>" "pt_slices st1 = pt_slices st"
    using demo_attempt [OF st, of 0] start by auto
  have "pp_left (pt_place st1) = 200" "pp_top (pt_place st1) = 150" "pp_maxRadius (pt_place st1) = 150" "pt_slices st1 = [make_slice 1 1 [] None]"
    using r1 st by simp_all
  then obtain d2 st2 where 2: "pie_attempt demo_pie_options demo_pie_env 1 st1 = Some (d2, st2)"
    and r2: "\<not> pt_redraw st2" "\<not> pt_error st2" "pt_labels st2 \<noteq> []"
    using demo_attempt [of st1 1] r1 by auto
  have "pie_attempts 10 demo_pie_options demo_pie_env 0 st = Some (d1 @ d2 @ [], 2, st2)"
    using 1 2 r1(1) r2(1) start(1) by (simp add: numeral_eq_Suc)
  moreover have "pt_processed demo_pie" by (simp add: demo_pie_def)
  ultimately show ?thesis using r2 by (simp add: draw_pie_def st_def [symmetric])
qed


text \<open>After that a new drawing of the plot, as after a resize, draws no pie.\<close>

lemma second_draw_is_empty:
  assumes "pt_processed st" "\<not> pt_redraw st"
  shows "\<exists>st'. draw_pie po env st = Some ([], st') \<and> pt_labels st' = pt_labels st"
proof -
  have "pie_attempts 10 po env 0 (st\<lparr>pt_place := p\<rparr>) = Some ([], 0, st\<lparr>pt_place := p\<rparr>)" for p
    using assms by (simp add: numeral_eq_Suc)
  then show ?thesis using assms by (simp add: draw_pie_def)
qed

end
