(* ===== verification/Plot_Object.thy ===== *)
theory Plot_Object
  imports Relayout
begin

text \<open>
  The constructor of a plot, \<open>static/flot/jquery.flot.js\<close>: the size of the canvas, the data, the layout and the first drawing, one after
  the other. The lemmas compose what the components promise: whatever the data are, plotting them with ordinary
  options comes to its end.
\<close>

section \<open>Making a plot\<close>

text \<open>\<open>None\<close> is the error for an area without size.\<close>

definition getCanvasDimensions :: "real \<Rightarrow> real \<Rightarrow> plot_geometry \<Rightarrow> plot_geometry option" where
  "getCanvasDimensions w h g =
     (let g' = g\<lparr>canvasWidth := w, canvasHeight := h\<rparr> in if canvasWidth g' \<le> 0 \<or> canvasHeight g' \<le> 0 then None else Some g')"

text \<open>
  What the options contribute apart from the grid and the legend: the colours, the defaults of the axes, and the hooks. The fuel
  bounds the rounds of the hooks on the data.
\<close>

record plot_setup =
  su_colors :: "string list"
  su_xaxis :: axis_options
  su_yaxis :: axis_options
  su_fuel :: nat
  su_processRawData :: "hook list"
  su_processDatapoints :: "hook list"
  su_drawSeries :: "(series \<Rightarrow> drawing option) list"
  su_draw :: "drawing option list"

definition setData :: "plot_setup \<Rightarrow> series list \<Rightarrow> plot \<Rightarrow> plot option" where
  "setData su ss pl =
     Option.bind (fillInSeriesOptions (su_colors su) (su_xaxis su) (su_yaxis su) ss (pl_xaxes pl) (pl_yaxes pl)) (\<lambda>(ss1, xs1, ys1).
       map_option (\<lambda>(ss2, xs2, ys2). pl\<lparr>pl_series := ss2, pl_xaxes := xs2, pl_yaxes := ys2\<rparr>)
         (processData (su_fuel su) (su_processRawData su) (su_processDatapoints su) ss1 xs1 ys1))"

text \<open>The plot with the options parsed, on a placeholder of a size: the plot at the end, what was put into the page, and the calls.\<close>

definition construct_plot ::
  "(real \<Rightarrow> string) \<Rightarrow> page \<Rightarrow> color option \<Rightarrow> real \<times> real \<Rightarrow> plot_setup \<Rightarrow> real \<times> real \<Rightarrow> series list \<Rightarrow> plot
    \<Rightarrow> (plot \<times> markup option \<times> legend \<times> drawing) option" where
  "construct_plot ns page computed dims su area ss pl =
     Option.bind (getCanvasDimensions (fst area) (snd area) (pl_geometry pl)) (\<lambda>g.
       Option.bind (setData su ss (pl\<lparr>pl_geometry := g\<rparr>)) (\<lambda>pl1.
         Option.bind (setupGrid ns page computed dims pl1) (\<lambda>(pl2, labels, lg).
           map_option (\<lambda>d. (pl2, labels, lg, d)) (draw ns (su_drawSeries su) (su_draw su) pl2))))"

section \<open>Changes of axes through the layout\<close>

definition kept :: "(axis \<Rightarrow> axis \<Rightarrow> bool) \<Rightarrow> axes \<times> axes \<Rightarrow> axes \<times> axes \<Rightarrow> bool" where
  "kept R p p' \<longleftrightarrow> both_ok p' \<and> (\<forall>i. 0 < snd i \<longrightarrow> rel_option R (get_axis i p) (get_axis i p'))"

text \<open>A relation that single steps keep is kept by the loops over the axes.\<close>

locale axis_change =
  fixes R :: "axis \<Rightarrow> axis \<Rightarrow> bool"
  assumes R_refl: "R a a"
    and R_trans: "R a b \<Longrightarrow> R b c \<Longrightarrow> R a c"
    and R_frame: "R a b \<Longrightarrow> same_frame a b"
begin

lemma kept_refl: "both_ok p \<Longrightarrow> kept R p p"
  by (simp add: kept_def R_refl option.rel_refl)

lemma kept_trans:
  assumes "kept R p q" "kept R q r"
  shows "kept R p r"
proof -
  have "rel_option R (get_axis i p) (get_axis i r)" if i: "0 < snd i" for i
  proof -
    have "rel_option R (get_axis i p) (get_axis i q)" "rel_option R (get_axis i q) (get_axis i r)"
      using assms i unfolding kept_def by blast+
    then show ?thesis by (cases "get_axis i p"; cases "get_axis i q"; cases "get_axis i r") (auto intro: R_trans)
  qed
  then show ?thesis using assms(2) by (simp add: kept_def)
qed

lemma kept_set:
  assumes "both_ok p" "get_axis i p = Some a" "0 < snd i" "R a b"
  shows "kept R p (set_axis b p)" "\<And>k. 0 < snd k \<Longrightarrow> get_axis k (set_axis b p) = (if k = i then Some b else get_axis k p)"
proof -
  have id: "axis_id a = i" by (rule get_axis_id [OF assms(1-3)])
  then have b: "axis_id b = i" "0 < ax_n b" using assms(3) R_frame [OF assms(4)] by (auto simp: same_frame_def axis_id_def)
  show get: "\<And>k. 0 < snd k \<Longrightarrow> get_axis k (set_axis b p) = (if k = i then Some b else get_axis k p)"
    using get_set_axis [of b p] b assms(2) by simp
  have "rel_option R (get_axis k p) (get_axis k (set_axis b p))" if "0 < snd k" for k
    using get [OF that] assms(2,4) by (simp add: option.rel_refl R_refl)
  then show "kept R p (set_axis b p)" unfolding kept_def using set_axis_ok [OF assms(1) b(2)] by blast
qed

lemma kept_on_axes:
  assumes "both_ok p" "\<And>a. R a (f a)"
  shows "kept R p (on_axes f p)"
proof -
  have "both_ok (on_axes f p)" using assms(1) by (rule on_axes_ok) (use R_frame [OF assms(2)] in \<open>simp add: same_frame_def\<close>)
  then show ?thesis unfolding kept_def get_on_axes by (auto simp: option.rel_map intro: option.rel_refl assms(2))
qed

lemma kept_boxes:
  assumes step: "\<And>all a g b g1. allocateAxisBoxFirstPhase grid all a g = (b, g1) \<Longrightarrow> R a b"
    and "allocate_boxes grid is p g = (p', g')" "both_ok p" "\<forall>i \<in> set is. 0 < snd i"
  shows "kept R p p'"
  using assms(2-)
proof (induction "is" arbitrary: p g)
  case Nil
  then show ?case by (simp add: kept_refl)
next
  case (Cons i "is")
  show ?case
  proof (cases "get_axis i p")
    case None
    then show ?thesis using Cons by simp
  next
    case (Some a)
    obtain b g1 where b: "allocateAxisBoxFirstPhase grid (axes_of (fst i) p) a g = (b, g1)" by fastforce
    then have rest: "allocate_boxes grid is (set_axis b p) g1 = (p', g')" using Cons.prems(1) Some by simp
    have k: "kept R p (set_axis b p)" using Cons.prems(2,3) Some step [OF b] by (intro kept_set(1)) auto
    then have "kept R (set_axis b p) p'" using Cons.IH [OF rest] Cons.prems(3) by (auto simp: kept_def)
    then show ?thesis using k kept_trans by blast
  qed
qed

end

text \<open>The layout only widens ranges, and it adds ticks.\<close>

definition grown :: "axis \<Rightarrow> axis \<Rightarrow> bool" where
  "grown a b \<longleftrightarrow> same_frame a b \<and> ax_show b = ax_show a \<and> ax_min b \<le> ax_min a \<and> ax_max a \<le> ax_max b \<and> (ax_ticks a \<noteq> None \<longrightarrow> ax_ticks b \<noteq> None)"

interpretation growth: axis_change grown
  by unfold_locales (auto simp: grown_def same_frame_def)

lemma first_phase_show: "allocateAxisBoxFirstPhase grid all a g = (b, g1) \<Longrightarrow> ax_show b = ax_show a"
  by (auto simp: allocateAxisBoxFirstPhase_def Let_def split: prod.splits direction.splits if_splits)

lemma first_phase_grown: "allocateAxisBoxFirstPhase grid all a g = (b, g1) \<Longrightarrow> grown a b"
  using first_phase_ticks [of grid all a g b g1] first_phase_frame [of grid all a g b g1] first_phase_show [of grid all a g b g1]
  by (simp add: grown_def same_frame_def)

lemma finish_grown:
  "grown a (setTransformationHelpers w h a)" "grown a (allocateAxisBoxSecondPhase g a)"
  by (simp_all add: grown_def same_frame_def setTransformationHelpers_def allocateAxisBoxSecondPhase_def Let_def split: direction.split)

section \<open>Ticks of ordinary axes\<close>

text \<open>
  An axis without a fixed size of its ticks, with a proper range; and where the numbers are written as decimals, a range that is wide
  enough for labels of 20 decimals.
\<close>

definition usable_options :: "axis_options \<Rightarrow> bool" where
  "usable_options opts \<longleftrightarrow>
     opt_tickDecimals opts = None \<and> opt_tickSize opts = None \<and> opt_minTickSize opts = None \<and> opt_alignTicksWithAxis opts = None"

definition preparable :: "real \<Rightarrow> real \<Rightarrow> axis \<Rightarrow> bool" where
  "preparable w h a \<longleftrightarrow>
     usable_options (ax_options a) \<and> ax_min a < ax_max a
     \<and> (opt_time (ax_options a) \<or> opt_tickFormatter (ax_options a) \<noteq> None \<or> 1 / 10 ^ 19 \<le> tick_delta w h a)"

definition sized :: "plot_geometry \<Rightarrow> bool" where
  "sized g \<longleftrightarrow> 0 < canvasWidth g \<and> 0 < canvasHeight g"

lemma label_ticks_defined: "(\<And>v. tick_label a v \<noteq> None) \<Longrightarrow> label_ticks a ts \<noteq> None"
proof (induction ts)
  case (Cons t ts)
  obtain v l where t: "t = (v, l)" by fastforce
  obtain r where "label_ticks a ts = Some r" using Cons by auto
  moreover obtain u where "tick_label a v = Some u" using Cons.prems by blast
  ultimately show ?case unfolding t by (cases l) simp_all
qed simp

lemma tick_label_defined: "0 \<le> ax_tickDecimals a \<Longrightarrow> ax_tickDecimals a \<le> 20 \<Longrightarrow> tick_label a v \<noteq> None"
  by (auto simp: tick_label_def toFixed_def split: formatter.split option.split)

lemma tick_delta_pos: "0 < w \<Longrightarrow> 0 < h \<Longrightarrow> ax_min a < ax_max a \<Longrightarrow> 0 < tick_delta w h a"
proof -
  assume wh: "0 < w" "0 < h" and r: "ax_min a < ax_max a"
  have "0 < noTicks w h a" using wh by (auto simp: noTicks_def split: tick_option.splits direction.splits)
  then show ?thesis using r by (simp add: tick_delta_def)
qed

text \<open>The generator for the ticks of an axis works, and so does the formatter.\<close>

definition generated :: "axes \<Rightarrow> axis \<Rightarrow> axis \<Rightarrow> bool" where
  "generated all a b \<longleftrightarrow>
     generate all b \<noteq> None \<and> (\<forall>v. tick_label b v \<noteq> None) \<and> ax_show b = ax_show a \<and> ax_min b = ax_min a \<and> ax_max b = ax_max a"

lemma time_generation:
  assumes "usable_options (ax_options a)" "opt_time (ax_options a)" "0 < w" "0 < h" "ax_min a < ax_max a"
  shows "\<exists>b. setupTickGeneration ns w h all a = Some b \<and> generated all a b"
proof -
  let ?o = "ax_options a" and ?delta = "tick_delta w h a"
  define b where "b = a\<lparr>ax_tickSize := time_size ?delta ?o, ax_tickGenerator := TimeTicks,
    ax_tickFormatter := (if opt_tickFormatter ?o \<noteq> None then OptionFormat else TimeFormat)\<rparr>"
  have "0 < ?delta" using assms(3-5) by (rule tick_delta_pos)
  then have "setupTickGeneration ns w h all a = Some b"
    using assms(1,2) by (simp add: usable_options_def setupTickGeneration_def base_generation_def align_ticks_def b_def)
  moreover have "time_ticks b \<noteq> None"
    by (rule time_ticks_returns) (use assms(1) in \<open>simp_all add: b_def usable_options_def\<close>)
  ultimately show ?thesis by (simp add: generated_def generate_def tick_label_def) (simp add: b_def)
qed

lemma decimal_generation:
  assumes "preparable w h a" "\<not> opt_time (ax_options a)" "0 < w" "0 < h"
  shows "\<exists>b. setupTickGeneration ns w h all a = Some b \<and> generated all a b"
proof -
  let ?o = "ax_options a" and ?delta = "tick_delta w h a"
  have o': "opt_tickDecimals ?o = None" "opt_tickSize ?o = None" "opt_minTickSize ?o = None" "opt_alignTicksWithAxis ?o = None"
    and r: "ax_min a < ax_max a" and big: "opt_tickFormatter ?o = None \<Longrightarrow> 1 / 10 ^ 19 \<le> ?delta"
    using assms(1,2) by (auto simp: preparable_def usable_options_def)
  have delta: "0 < ?delta" using assms(3,4) r by (rule tick_delta_pos)
  obtain s d ts where size: "decimal_size ?delta ?o = (Size s, d)" and ts: "decimal_ticks (a\<lparr>ax_tickSize := Size s\<rparr>) = Some ts"
    using decimal_ticks_cover [OF assms(3,4) r o'(1-3)] by blast
  define b where "b = a\<lparr>ax_tickSize := Size s, ax_tickDecimals := d, ax_tickGenerator := DecimalTicks,
    ax_tickFormatter := (if opt_tickFormatter ?o \<noteq> None then OptionFormat else DecimalFormat)\<rparr>"
  have gen: "setupTickGeneration ns w h all a = Some b"
    using assms(2) o' size delta by (simp add: setupTickGeneration_def base_generation_def align_ticks_def b_def)
  have "decimal_ticks b = Some ts" using ts by (cases "s = 0") (simp_all add: b_def decimal_ticks_def)
  then have "generate all b = Some ts" by (simp add: generate_def) (simp add: b_def)
  moreover have "tick_label b v \<noteq> None" for v
  proof (cases "opt_tickFormatter ?o = None")
    case True
    then have "0 \<le> d" "d \<le> 20" using decimal_size_decimals [OF big o'(1) size] by simp_all
    then show ?thesis by (intro tick_label_defined) (simp_all add: b_def)
  qed (simp add: tick_label_def b_def)
  ultimately show ?thesis using gen by (simp add: generated_def) (simp add: b_def)
qed

lemma snap_widens:
  "ax_show (snapRangeToTicks a ts) = ax_show a" "ax_ticks (snapRangeToTicks a ts) = ax_ticks a"
  "ax_min (snapRangeToTicks a ts) \<le> ax_min a" "ax_max a \<le> ax_max (snapRangeToTicks a ts)"
  by (simp_all add: snapRangeToTicks_def Let_def)

lemma measure_keeps:
  "ax_show (measureTickLabels ns page w a) = ax_show a" "ax_ticks (measureTickLabels ns page w a) = ax_ticks a"
  "ax_min (measureTickLabels ns page w a) = ax_min a" "ax_max (measureTickLabels ns page w a) = ax_max a"
  by (simp_all add: measureTickLabels_def Let_def split: direction.split)

lemma prepare_axis_defined:
  assumes "preparable (canvasWidth g) (canvasHeight g) a" "sized g"
  shows "\<exists>b. prepare_axis ns page g all a = Some b \<and> grown a b \<and> ax_ticks b \<noteq> None"
proof -
  let ?w = "canvasWidth g" and ?h = "canvasHeight g"
  have p: "usable_options (ax_options a)" "ax_min a < ax_max a" and wh: "0 < ?w" "0 < ?h"
    using assms by (simp_all add: preparable_def sized_def)
  obtain a1 where gen: "setupTickGeneration ns ?w ?h all a = Some a1" "generated all a a1"
    using time_generation [OF p(1) _ wh p(2)] decimal_generation [OF assms(1) _ wh] by blast
  obtain ts where "generate all a1 = Some ts" using gen(2) by (auto simp: generated_def)
  then obtain raw where raw: "raw_ticks all a1 = Some raw"
    by (cases "opt_ticks (ax_options a1)") (simp_all add: raw_ticks_def, metis)
  obtain r where r: "label_ticks a1 raw = Some r"
    using label_ticks_defined [of a1 raw] gen(2) by (auto simp: generated_def)
  define a2 where "a2 = a1\<lparr>ax_ticks := Some r\<rparr>"
  define b where "b = measureTickLabels ns page ?w (snapRangeToTicks a2 r)"
  have b: "prepare_axis ns page g all a = Some b"
    using gen raw r by (simp add: prepare_axis_def setTicks_def b_def a2_def)
  have "ax_show b = ax_show a \<and> ax_min b \<le> ax_min a \<and> ax_max a \<le> ax_max b \<and> ax_ticks b \<noteq> None"
    using snap_widens [of a2 r] gen(2) by (simp add: b_def measure_keeps) (simp add: a2_def generated_def)
  then show ?thesis using b prepare_axis_frame [OF b] by (simp add: grown_def)
qed

lemma prepare_axes_defined:
  assumes "both_ok p" "distinct is" "sized g"
    and "\<And>i. i \<in> set is \<Longrightarrow> 0 < snd i \<and> (\<exists>a. get_axis i p = Some a \<and> preparable (canvasWidth g) (canvasHeight g) a)"
  shows "\<exists>p'. prepare_axes ns page g is p = Some p' \<and> kept grown p p' \<and> (\<forall>i \<in> set is. \<exists>b. get_axis i p' = Some b \<and> ax_ticks b \<noteq> None)"
  using assms
proof (induction "is" arbitrary: p)
  case Nil
  then show ?case by (simp add: growth.kept_refl)
next
  case (Cons i "is")
  obtain a where a: "get_axis i p = Some a" "preparable (canvasWidth g) (canvasHeight g) a" "0 < snd i" using Cons.prems(4) [OF list.set_intros(1)] by blast
  obtain b where b: "prepare_axis ns page g (axes_of (fst i) p) a = Some b" "grown a b" "ax_ticks b \<noteq> None"
    using prepare_axis_defined [OF a(2) Cons.prems(3)] by blast
  note k = growth.kept_set [OF Cons.prems(1) a(1,3) b(2)]
  have "0 < snd j \<and> (\<exists>c. get_axis j (set_axis b p) = Some c \<and> preparable (canvasWidth g) (canvasHeight g) c)" if "j \<in> set is" for j
    using Cons.prems(2) Cons.prems(4) [of j] k(2) [of j] that by auto
  then obtain p' where p': "prepare_axes ns page g is (set_axis b p) = Some p'" "kept grown (set_axis b p) p'"
    "\<forall>j \<in> set is. \<exists>b. get_axis j p' = Some b \<and> ax_ticks b \<noteq> None"
    using Cons.IH [of "set_axis b p"] k(1) Cons.prems(2,3) unfolding kept_def by auto
  have "rel_option grown (Some b) (get_axis i p')" using p'(2) k(2) [OF a(3)] a(3) unfolding kept_def by metis
  then have "\<exists>c. get_axis i p' = Some c \<and> ax_ticks c \<noteq> None" using b(3) by (auto simp: option_rel_Some1 grown_def)
  then show ?case using p' growth.kept_trans [OF k(1) p'(2)] a(1) b(1) by simp
qed

section \<open>Laying out succeeds\<close>

lemma all_some_defined: "(\<And>x. x \<in> set xs \<Longrightarrow> x \<noteq> None) \<Longrightarrow> all_some xs \<noteq> None"
  by (induction xs) (auto split: option.split)

lemma setRange_shown: "setRange (a\<lparr>ax_show := s, ax_reserveSpace := r\<rparr>) = (setRange a)\<lparr>ax_show := s, ax_reserveSpace := r\<rparr>"
  by (cases "opt_autoscaleMargin (ax_options a)"; cases "opt_min (ax_options a)"; cases "opt_max (ax_options a)") (simp_all add: setRange_def Let_def)

lemma tick_delta_cong:
  assumes "ax_min b = ax_min a" "ax_max b = ax_max a" "ax_options b = ax_options a" "ax_direction b = ax_direction a"
  shows "tick_delta w h b = tick_delta w h a"
  unfolding tick_delta_def noTicks_def assms by (rule refl)

lemma tick_delta_show: "tick_delta w h (show_axis a) = tick_delta w h (setRange a)"
  by (rule tick_delta_cong) (simp_all add: show_axis_def Let_def setRange_shown)

lemma show_reserves: "ax_show (show_axis a) \<Longrightarrow> ax_reserveSpace (show_axis a)"
  by (simp add: show_axis_def Let_def setRange_shown)

lemma insertLegend_defined:
  assumes "computed \<noteq> None"
  shows "insertLegend ns opts grid g computed dims ss \<noteq> None"
proof -
  have "legend_background ns opts grid computed \<noteq> None"
    using assms by (auto simp: legend_background_def split: option.split fill_color.split)
  then show ?thesis by (auto simp: insertLegend_def Let_def)
qed

lemma allocate_boxes_canvas:
  "allocate_boxes grid is p g = (p', g') \<Longrightarrow> canvasWidth g' = canvasWidth g \<and> canvasHeight g' = canvasHeight g"
proof (induction "is" arbitrary: p g)
  case (Cons i "is")
  show ?case
  proof (cases "get_axis i p")
    case None
    then show ?thesis using Cons by simp
  next
    case (Some a)
    obtain b g1 where b: "allocateAxisBoxFirstPhase grid (axes_of (fst i) p) a g = (b, g1)" by fastforce
    then show ?thesis using Cons.IH [of "set_axis b p" g1] Cons.prems Some first_phase_frame [OF b] by simp
  qed
qed simp

text \<open>The plot after the layout: its axes come from the shown ones, and those for which there is space have ticks.\<close>

lemma preparable_show: "preparable w h (setRange a) \<Longrightarrow> preparable w h (show_axis a)"
  by (simp add: preparable_def tick_delta_show show_axis_frame setRange_frame) (simp add: show_axis_def Let_def setRange_shown)

lemma finish_axes_kept: "both_ok p \<Longrightarrow> kept grown p (finish_axes show ids g p)"
proof -
  assume ok: "both_ok p"
  let ?p = "on_axes (setTransformationHelpers (plotWidth g) (plotHeight g)) p"
  have k: "kept grown p ?p" by (intro growth.kept_on_axes ok finish_grown)
  then have "kept grown ?p (on_axes (\<lambda>a. if axis_id a \<in> set ids then allocateAxisBoxSecondPhase g a else a) ?p)"
    by (intro growth.kept_on_axes) (simp_all add: kept_def finish_grown growth.R_refl)
  then show ?thesis using k growth.kept_trans [OF k] by (simp add: finish_axes_def Let_def)
qed

text \<open>All axes with space get their ticks and their boxes.\<close>

lemma boxed_axes_defined:
  assumes "both_ok (pl_xaxes pl, pl_yaxes pl)" "sized (pl_geometry pl)" "gr_show (pl_grid pl)"
    and "\<And>a. a \<in> set (allAxes (pl_xaxes pl) (pl_yaxes pl))
      \<Longrightarrow> preparable (canvasWidth (pl_geometry pl)) (canvasHeight (pl_geometry pl)) (setRange a)"
  shows "\<exists>p4 g2. boxed_axes ns page pl = Some (p4, g2) \<and> kept grown (shown_axes pl) p4
    \<and> (\<forall>i \<in> set (box_ids pl). \<exists>b. get_axis i p4 = Some b \<and> ax_ticks b \<noteq> None)
    \<and> canvasWidth g2 = canvasWidth (pl_geometry pl) \<and> canvasHeight g2 = canvasHeight (pl_geometry pl)"
proof -
  let ?g0 = "no_offsets (pl_geometry pl)"
  have g0: "canvasWidth ?g0 = canvasWidth (pl_geometry pl)" "canvasHeight ?g0 = canvasHeight (pl_geometry pl)" "sized ?g0"
    using assms(2) by (simp_all add: no_offsets_def sized_def)
  have ready: "0 < snd i \<and> (\<exists>a. get_axis i (shown_axes pl) = Some a \<and> preparable (canvasWidth ?g0) (canvasHeight ?g0) a)"
    if "i \<in> set (box_ids pl)" for i
    using box_ids_axis [OF assms(1) that] assms(4) preparable_show unfolding g0 by blast
  obtain p2 where p2: "prepare_axes ns page ?g0 (box_ids pl) (shown_axes pl) = Some p2" "kept grown (shown_axes pl) p2"
    "\<forall>i \<in> set (box_ids pl). \<exists>b. get_axis i p2 = Some b \<and> ax_ticks b \<noteq> None"
    using prepare_axes_defined [OF shown_axes_ok [OF assms(1)] box_ids_distinct [OF assms(1)] g0(3) ready] by blast
  obtain p4 g1 where p4: "allocate_boxes (pl_grid pl) (rev (box_ids pl)) p2 ?g0 = (p4, g1)" by fastforce
  have k: "kept grown p2 p4"
    by (intro growth.kept_boxes [OF first_phase_grown p4]) (use ready p2(2) in \<open>auto simp: kept_def\<close>)
  have "\<exists>b. get_axis i p4 = Some b \<and> ax_ticks b \<noteq> None" if i: "i \<in> set (box_ids pl)" for i
  proof -
    obtain a where a: "get_axis i p2 = Some a" "ax_ticks a \<noteq> None" using p2(3) i by blast
    have "rel_option grown (get_axis i p2) (get_axis i p4)" using k ready [OF i] unfolding kept_def by blast
    then show ?thesis using a by (auto simp: option_rel_Some1 grown_def)
  qed
  moreover have "boxed_axes ns page pl = Some (p4, add_border (pl_grid pl) (pl_series pl) g1)"
    using assms(3) p2(1) p4 by (simp add: boxed_axes_def)
  moreover have "canvasWidth (add_border (pl_grid pl) (pl_series pl) g1) = canvasWidth (pl_geometry pl)"
    "canvasHeight (add_border (pl_grid pl) (pl_series pl) g1) = canvasHeight (pl_geometry pl)"
    using allocate_boxes_canvas [OF p4] g0 by (simp_all add: add_border_def Let_def)
  ultimately show ?thesis using growth.kept_trans [OF p2(2) k] by blast
qed

text \<open>Every axis that is shown has ticks then, and therefore labels.\<close>

lemma shown_axis_labels:
  assumes "both_ok (pl_xaxes pl, pl_yaxes pl)" "kept grown (shown_axes pl) p" "\<forall>i \<in> set (box_ids pl). \<exists>b. get_axis i p = Some b \<and> ax_ticks b \<noteq> None"
    and "a \<in> set (allAxes (fst p) (snd p))"
  shows "axis_labels ns g a \<noteq> None"
proof (cases "ax_show a")
  case True
  have get: "get_axis (axis_id a) p = Some a" "0 < snd (axis_id a)"
    using assms(2,4) get_axis_mem [of p a] by (simp_all add: kept_def axis_id_def)
  then obtain b where b: "get_axis (axis_id a) (shown_axes pl) = Some b" "grown b a"
    using assms(2) unfolding kept_def by (metis option_rel_Some2)
  then obtain c where "b = show_axis c" by (auto simp: shown_axes_def get_on_axes)
  then have "ax_reserveSpace b" using show_reserves True b(2) by (simp add: grown_def)
  then have "axis_id a \<in> set (box_ids pl)" using box_ids_iff [OF assms(1)] b(1) get(2) by blast
  then show ?thesis using assms(3) get(1) by (auto simp: axis_labels_def)
qed (simp add: axis_labels_def)

lemma setupGrid_defined:
  assumes "both_ok (pl_xaxes pl, pl_yaxes pl)" "sized (pl_geometry pl)" "gr_show (pl_grid pl)" "computed \<noteq> None"
    and "\<And>a. a \<in> set (allAxes (pl_xaxes pl) (pl_yaxes pl))
      \<Longrightarrow> preparable (canvasWidth (pl_geometry pl)) (canvasHeight (pl_geometry pl)) (setRange a)"
  shows "\<exists>pl' labels lg. setupGrid ns page computed dims pl = Some (pl', labels, lg) \<and> pl_series pl' = pl_series pl \<and> pl_grid pl' = pl_grid pl
    \<and> kept grown (shown_axes pl) (pl_xaxes pl', pl_yaxes pl')
    \<and> canvasWidth (pl_geometry pl') = canvasWidth (pl_geometry pl) \<and> canvasHeight (pl_geometry pl') = canvasHeight (pl_geometry pl)"
proof -
  obtain p4 g2 where p4: "boxed_axes ns page pl = Some (p4, g2)" "kept grown (shown_axes pl) p4"
      "\<forall>i \<in> set (box_ids pl). \<exists>b. get_axis i p4 = Some b \<and> ax_ticks b \<noteq> None"
    and g2: "canvasWidth g2 = canvasWidth (pl_geometry pl)" "canvasHeight g2 = canvasHeight (pl_geometry pl)"
    using boxed_axes_defined [OF assms(1-3,5)] by blast
  define p6 where "p6 = finish_axes (gr_show (pl_grid pl)) (box_ids pl) (plot_area g2) p4"
  have k: "kept grown p4 p6" unfolding p6_def by (intro finish_axes_kept) (use p4(2) in \<open>simp add: kept_def\<close>)
  have "\<exists>b. get_axis i p6 = Some b \<and> ax_ticks b \<noteq> None" if i: "i \<in> set (box_ids pl)" for i
  proof -
    obtain a where a: "get_axis i p4 = Some a" "ax_ticks a \<noteq> None" using p4(3) i by blast
    have "rel_option grown (get_axis i p4) (get_axis i p6)" using k box_ids_axis [OF assms(1) i] unfolding kept_def by blast
    then show ?thesis using a by (auto simp: option_rel_Some1 grown_def)
  qed
  then have "\<forall>a \<in> set (allAxes (fst p6) (snd p6)). axis_labels ns (plot_area g2) a \<noteq> None"
    using shown_axis_labels [OF assms(1) growth.kept_trans [OF p4(2) k]] by blast
  then have "insertAxisLabels ns (plot_area g2) (fst p6) (snd p6) \<noteq> None"
    unfolding insertAxisLabels_def using all_some_defined [of "map (axis_labels ns (plot_area g2)) (allAxes (fst p6) (snd p6))"] by force
  then obtain labels where labels: "insertAxisLabels ns (plot_area g2) (fst p6) (snd p6) = Some labels" by blast
  obtain lg where lg: "insertLegend ns (pl_legend pl) (pl_grid pl) (plot_area g2) computed dims (pl_series pl) = Some lg"
    using insertLegend_defined [OF assms(4)] by blast
  have "setupGrid ns page computed dims pl = Some (pl\<lparr>pl_xaxes := fst p6, pl_yaxes := snd p6, pl_geometry := plot_area g2\<rparr>, Some labels, lg)"
    unfolding setupGrid_steps p4(1) option.case prod.case Let_def p6_def [symmetric] using assms(3) labels lg by simp
  then show ?thesis using g2 growth.kept_trans [OF p4(2) k] by (simp add: plot_area_def)
qed

text \<open>Layout and drawing of a plot whose data have been read.\<close>

lemma drawn_after_layout:
  assumes "both_ok (pl_xaxes pl, pl_yaxes pl)" "sized (pl_geometry pl)" "gr_show (pl_grid pl)"
    and "\<And>a. a \<in> set (allAxes (pl_xaxes pl) (pl_yaxes pl)) 
      \<Longrightarrow> preparable (canvasWidth (pl_geometry pl)) (canvasHeight (pl_geometry pl)) (setRange a)"
    and "computed \<noteq> None" "axis_at (pl_xaxes pl) 0 \<noteq> None" "axis_at (pl_yaxes pl) 0 \<noteq> None"
    and "\<forall>s \<in> set (pl_series pl). drawable s
       \<and> axis_at (pl_xaxes pl) (axisNumber (sr_xaxis s) - 1) \<noteq> None \<and> axis_at (pl_yaxes pl) (axisNumber (sr_yaxis s) - 1) \<noteq> None"
    and "fill_ok True (gr_backgroundColor (pl_grid pl))" "\<forall>h \<in> set hs. \<forall>s. clean_drawing (h s)" "\<forall>d \<in> set ds. clean_drawing d"
  shows "\<exists>pl2 labels lg d. setupGrid ns page computed dims pl = Some (pl2, labels, lg)
    \<and> draw ns hs ds pl2 = Some (ClearRect 0 0 (canvasWidth (pl_geometry pl)) (canvasHeight (pl_geometry pl)) # d)
    \<and> balanced d \<and> pl_series pl2 = pl_series pl"
proof -
  obtain pl2 labels lg where s: "setupGrid ns page computed dims pl = Some (pl2, labels, lg)" "pl_series pl2 = pl_series pl" "pl_grid pl2 = pl_grid pl"
    and k: "kept grown (shown_axes pl) (pl_xaxes pl2, pl_yaxes pl2)" and size: "canvasWidth (pl_geometry pl2) = canvasWidth (pl_geometry pl)"
      "canvasHeight (pl_geometry pl2) = canvasHeight (pl_geometry pl)"
    using setupGrid_defined [OF assms(1-3,5,4)] by blast
  have get: "rel_option grown (get_axis i (shown_axes pl)) (get_axis i (pl_xaxes pl2, pl_yaxes pl2))" if "0 < snd i" for i
    using k that unfolding kept_def by blast
  have x: "axis_at (pl_xaxes pl2) n \<noteq> None" if "axis_at (pl_xaxes pl) n \<noteq> None" for n
    using get [of "(X, Suc n)"] that by (auto simp: get_axis_def axes_of_def shown_axes_def on_axes_def axis_at_def option_rel_Some1 split: if_splits)
  have y: "axis_at (pl_yaxes pl2) n \<noteq> None" if "axis_at (pl_yaxes pl) n \<noteq> None" for n
    using get [of "(Y, Suc n)"] that by (auto simp: get_axis_def axes_of_def shown_axes_def on_axes_def axis_at_def option_rel_Some1 split: if_splits)
  have ok2: "both_ok (pl_xaxes pl2, pl_yaxes pl2)" using k by (simp add: kept_def)
  have "ax_min a \<le> ax_max a" if a: "a \<in> set (allAxes (pl_xaxes pl2) (pl_yaxes pl2))" for a
  proof -
    have i: "get_axis (axis_id a) (pl_xaxes pl2, pl_yaxes pl2) = Some a" "0 < snd (axis_id a)"
      using get_axis_mem [OF ok2, of a] a by (simp_all add: axis_id_def)
    then obtain b where b: "get_axis (axis_id a) (pl_xaxes pl, pl_yaxes pl) = Some b" "grown (show_axis b) a"
      using get [OF i(2)] by (auto simp: shown_axes_def get_on_axes option_rel_Some2)
    have "axis_id b = axis_id a" by (rule get_axis_id [OF assms(1) b(1) i(2)])
    then have "b \<in> set (allAxes (pl_xaxes pl) (pl_yaxes pl))" using get_axis_mem [OF assms(1), of b] b(1) i(2) by (simp add: axis_id_def)
    then have "ax_min (setRange b) < ax_max (setRange b)" using assms(4) by (auto simp: preparable_def)
    then show ?thesis using b(2) by (simp add: grown_def show_axis_def Let_def setRange_shown)
  qed
  then have "well_equipped ns pl2" unfolding well_equipped_def s(2,3) using ok2 x y assms(6-9) by (simp add: both_ok_def)
  from laid_out_draws [OF s(1) assms(3) this] obtain d where
    "draw ns hs ds pl2 = Some (ClearRect 0 0 (canvasWidth (pl_geometry pl2)) (canvasHeight (pl_geometry pl2)) # d)" "balanced d"
    using assms(10,11) by blast
  then show ?thesis using s size by auto
qed

section \<open>Reading the data succeeds\<close>

text \<open>A series that can be drawn once its data are read, whatever they are.\<close>

definition usable_series :: "series \<Rightarrow> bool" where
  "usable_series s \<longleftrightarrow> plain_symbol (pt_symbol (sr_points s)) \<and> fill_ok True (ln_fillColor (sr_lines s)) \<and> fill_ok True (br_fillColor (sr_bars s))
     \<and> fill_ok False (pt_fillColor (sr_points s)) \<and> 1 \<le> axisNumber (sr_xaxis s) \<and> 1 \<le> axisNumber (sr_yaxis s)"

lemma drawable_processed: "usable_series s \<Longrightarrow> processed s \<Longrightarrow> drawable s"
  by (auto simp: usable_series_def drawable_def processed_def pointsize_of_def)

lemma fill_in_usable:
  assumes "fill_in xo yo colors ss k xs ys = Some (ss', xs', ys')" "list_all usable_series ss"
  shows "list_all usable_series ss'"
  using assms
proof (induction ss arbitrary: k xs ys ss')
  case (Cons s ss)
  from Cons.prems(1) obtain c k' ss1 where
    1: "fill_in xo yo colors ss k' (getOrCreateAxis X xo (axisNumber (sr_xaxis s)) xs)
       (getOrCreateAxis Y yo (axisNumber (sr_yaxis s)) ys) = Some (ss1, xs', ys')"
    and 2: "ss' = (default_lines (s\<lparr>sr_color := c\<rparr>))\<lparr>sr_xaxis := AxisObject (axisNumber (sr_xaxis s)), sr_yaxis := AxisObject (axisNumber (sr_yaxis s))\<rparr> # ss1"
    by (auto simp: Let_def split: option.splits)
  from Cons.prems(2) have "usable_series (hd ss')"
    unfolding 2 by (simp add: usable_series_def default_lines_def axisNumber_def)
  then show ?case using Cons.IH [OF 1] Cons.prems(2) 2 by simp
qed simp

lemma getOrCreateAxis_mem: "Some a \<in> set (getOrCreateAxis d opts n axes) \<Longrightarrow> Some a \<in> set axes \<or> a = new_axis n d opts"
  using set_update_subset_insert [of "axes @ replicate (Suc (n - 1) - length axes) None" "n - 1" "Some (new_axis n d opts)"]
  by (auto simp: getOrCreateAxis_def put_axis_def split: option.splits)

lemma fill_in_options:
  assumes "fill_in xo yo colors ss k xs ys = Some (ss', xs', ys')" "P xo" "P yo"
    and "\<forall>a. Some a \<in> set xs \<longrightarrow> P (ax_options a)" "\<forall>a. Some a \<in> set ys \<longrightarrow> P (ax_options a)"
  shows "(\<forall>a. Some a \<in> set xs' \<longrightarrow> P (ax_options a)) \<and> (\<forall>a. Some a \<in> set ys' \<longrightarrow> P (ax_options a))"
  using assms
proof (induction ss arbitrary: k xs ys ss')
  case (Cons s ss)
  from Cons.prems(1) obtain k' ss1 where
    1: "fill_in xo yo colors ss k' (getOrCreateAxis X xo (axisNumber (sr_xaxis s)) xs)
       (getOrCreateAxis Y yo (axisNumber (sr_yaxis s)) ys) = Some (ss1, xs', ys')"
    by (auto simp: Let_def split: option.splits)
  have "\<forall>a. Some a \<in> set (getOrCreateAxis d opts n axes) \<longrightarrow> P (ax_options a)"
    if "P opts" "\<forall>a. Some a \<in> set axes \<longrightarrow> P (ax_options a)" for d opts n axes
  proof (intro allI impI)
    fix a assume "Some a \<in> set (getOrCreateAxis d opts n axes)"
    then consider "Some a \<in> set axes" | "ax_options a = opts"
      using getOrCreateAxis_mem [of a d opts n axes] by (auto simp: new_axis_def)
    then show "P (ax_options a)" using that by cases auto
  qed
  then show ?case using Cons.IH [OF 1] Cons.prems(2-) by blast
qed simp

lemma first_passes_usable: "list_all usable_series ss \<Longrightarrow> list_all usable_series (fst (first_passes ss eu))"
proof (induction ss arbitrary: eu)
  case (Cons s ss)
  have "usable_series (fst (first_pass s eu)) = usable_series s"
    by (simp add: first_pass_def usable_series_def Let_def split_beta)
  then show ?case using Cons by (simp add: split_beta)
qed simp

lemma first_pass_axes: "sr_xaxis (fst (first_pass s eu)) = sr_xaxis s" "sr_yaxis (fst (first_pass s eu)) = sr_yaxis s"
  by (simp_all add: first_pass_def Let_def split_beta)

lemma first_passes_axes:
  "s' \<in> set (fst (first_passes ss eu)) \<Longrightarrow> \<exists>s \<in> set ss. sr_xaxis s' = sr_xaxis s \<and> sr_yaxis s' = sr_yaxis s"
proof (induction ss arbitrary: eu)
  case (Cons s ss)
  from Cons.prems consider "s' = fst (first_pass s eu)" | "s' \<in> set (fst (first_passes ss (snd (first_pass s eu))))"
    by (auto simp: split_beta)
  then show ?case
  proof cases
    case 1
    then show ?thesis using first_pass_axes [of s eu] by simp
  next
    case 2
    then show ?thesis using Cons.IH by auto
  qed
qed simp

lemma finish_axis_frame:
  "ax_options (finish_axis e u a) = ax_options a" "ax_n (finish_axis e u a) = ax_n a" "ax_direction (finish_axis e u a) = ax_direction a"
  by (simp_all add: finish_axis_def Let_def)

text \<open>The series are ready to be drawn when the passes over their data are done.\<close>

lemma first_passes_drawable:
  assumes "list_all usable_series ss" "s \<in> set (fst (first_passes (map reset ss) seen))"
  shows "drawable s"
proof -
  have "list_all usable_series (map reset ss)" using assms(1) by (simp add: list_all_iff reset_def usable_series_def)
  then have "list_all usable_series (fst (first_passes (map reset ss) seen))" by (rule first_passes_usable)
  moreover have "list_all processed (fst (first_passes (map reset ss) seen))" by (rule first_passes_processed) (simp add: reset_def)
  ultimately show ?thesis using assms(2) drawable_processed by (auto simp: list_all_iff)
qed

text \<open>A setup without hooks on the data, and a plot with its first axes in place.\<close>

definition ready_for :: "plot_setup \<Rightarrow> series list \<Rightarrow> plot \<Rightarrow> bool" where
  "ready_for su ss pl \<longleftrightarrow>
     su_processRawData su = [] \<and> su_processDatapoints su = [] \<and> length ss \<le> su_fuel su \<and> list_all usable_series ss
     \<and> usable_options (su_xaxis su) \<and> usable_options (su_yaxis su)
     \<and> both_ok (pl_xaxes pl, pl_yaxes pl) \<and> axis_at (pl_xaxes pl) 0 \<noteq> None \<and> axis_at (pl_yaxes pl) 0 \<noteq> None
     \<and> (\<forall>a \<in> set (allAxes (pl_xaxes pl) (pl_yaxes pl)). usable_options (ax_options a))"

lemma setData_defined:
  assumes "ready_for su ss pl"
  shows "\<exists>pl1. setData su ss pl = Some pl1 \<and> pl_geometry pl1 = pl_geometry pl \<and> pl_grid pl1 = pl_grid pl \<and> pl_legend pl1 = pl_legend pl
    \<and> length (pl_series pl1) = length ss \<and> both_ok (pl_xaxes pl1, pl_yaxes pl1)
    \<and> axis_at (pl_xaxes pl1) 0 \<noteq> None \<and> axis_at (pl_yaxes pl1) 0 \<noteq> None
    \<and> (\<forall>a \<in> set (allAxes (pl_xaxes pl1) (pl_yaxes pl1)). usable_options (ax_options a))
    \<and> (\<forall>s \<in> set (pl_series pl1). drawable s
         \<and> axis_at (pl_xaxes pl1) (axisNumber (sr_xaxis s) - 1) \<noteq> None \<and> axis_at (pl_yaxes pl1) (axisNumber (sr_yaxis s) - 1) \<noteq> None)"
proof -
  have r: "su_processRawData su = []" "su_processDatapoints su = []" "length ss \<le> su_fuel su" "list_all usable_series ss"
    "usable_options (su_xaxis su)" "usable_options (su_yaxis su)" "axes_ok X (pl_xaxes pl)" "axes_ok Y (pl_yaxes pl)"
    "axis_at (pl_xaxes pl) 0 \<noteq> None" "axis_at (pl_yaxes pl) 0 \<noteq> None"
    and opts: "\<forall>a. Some a \<in> set (pl_xaxes pl) \<longrightarrow> usable_options (ax_options a)" "\<forall>a. Some a \<in> set (pl_yaxes pl) \<longrightarrow> usable_options (ax_options a)"
    using assms unfolding ready_for_def both_ok_def Ball_def allAxes_mem by auto
  have numbers: "\<forall>s \<in> set ss. 1 \<le> axisNumber (sr_xaxis s) \<and> 1 \<le> axisNumber (sr_yaxis s)"
    using r(4) by (auto simp: list_all_iff usable_series_def)
  obtain ss1 xs1 ys1 where f: "fillInSeriesOptions (su_colors su) (su_xaxis su) (su_yaxis su) ss (pl_xaxes pl) (pl_yaxes pl) = Some (ss1, xs1, ys1)"
    "length ss1 = length ss" "list_all (filled xs1 ys1) ss1" "axes_ok X xs1" "axes_ok Y ys1"
    using fillInSeriesOptions_total [OF r(7,8) numbers] by blast
  note fi = f(1) [unfolded fillInSeriesOptions_def]
  have u1: "list_all usable_series ss1" by (rule fill_in_usable [OF fi r(4)])
  have first: "axis_at xs1 0 \<noteq> None" "axis_at ys1 0 \<noteq> None" using fill_in_keeps [OF fi, of 0] r(9,10) by blast+
  note o1 = fill_in_options [OF fi r(5,6) opts]
  let ?ss2 = "fst (first_passes (map reset ss1) ((\<lambda>_. no_extent, \<lambda>_. no_extent), []))"
  obtain e u where p: "processData (su_fuel su) [] [] ss1 xs1 ys1
      = Some (?ss2, map (map_option (finish_axis e u)) xs1, map (map_option (finish_axis e u)) ys1)"
    using processData_no_hooks [of ss1 "su_fuel su" xs1 ys1] r(3) f(2) by auto
  let ?p = "on_axes (finish_axis e u) (xs1, ys1)"
  have s: "setData su ss pl = Some (pl\<lparr>pl_series := ?ss2, pl_xaxes := fst ?p, pl_yaxes := snd ?p\<rparr>)"
    using f(1) p r(1,2) by (simp add: setData_def on_axes_def)
  have "both_ok ?p" using f(4,5) by (intro on_axes_ok) (simp_all add: both_ok_def finish_axis_frame)
  moreover have at: "axis_at (fst ?p) i = map_option (finish_axis e u) (axis_at xs1 i)" "axis_at (snd ?p) i = map_option (finish_axis e u) (axis_at ys1 i)" for i
    by (simp_all add: axis_at_def on_axes_def)
  moreover have "\<forall>a \<in> set (allAxes (fst ?p) (snd ?p)). usable_options (ax_options a)"
  proof
    fix a assume "a \<in> set (allAxes (fst ?p) (snd ?p))"
    then obtain x where "x \<in> set xs1 \<union> set ys1" "Some a = map_option (finish_axis e u) x" by (auto simp: allAxes_mem on_axes_def)
    then show "usable_options (ax_options a)" using o1 by (cases x) (auto simp: finish_axis_frame)
  qed
  moreover have "length ?ss2 = length ss" using length_first_passes [of "map reset ss1"] f(2) by simp
  moreover have "drawable s \<and> axis_at (fst ?p) (axisNumber (sr_xaxis s) - 1) \<noteq> None \<and> axis_at (snd ?p) (axisNumber (sr_yaxis s) - 1) \<noteq> None"
    if s: "s \<in> set ?ss2" for s
  proof -
    have "drawable s" by (rule first_passes_drawable [OF u1 s])
    moreover obtain s1 where "s1 \<in> set ss1" "sr_xaxis s = sr_xaxis s1" "sr_yaxis s = sr_yaxis s1"
      using first_passes_axes [OF s] by (auto simp: reset_def)
    ultimately show ?thesis using f(3) by (auto simp: at list_all_iff filled_def)
  qed
  ultimately show ?thesis unfolding s using first by simp
qed

text \<open>What is left once the data are read: the layout and the drawing of the plot.\<close>

lemma plot_drawn:
  assumes "ready_for su ss pl" "0 < w" "0 < h" "gr_show (pl_grid pl)" "fill_ok True (gr_backgroundColor (pl_grid pl))"
    and "computed \<noteq> None" "\<forall>f \<in> set (su_drawSeries su). \<forall>s. clean_drawing (f s)" "\<forall>d \<in> set (su_draw su). clean_drawing d"
    and "setData su ss (pl\<lparr>pl_geometry := (pl_geometry pl)\<lparr>canvasWidth := w, canvasHeight := h\<rparr>\<rparr>) = Some pl1"
    and "\<And>a. a \<in> set (allAxes (pl_xaxes pl1) (pl_yaxes pl1)) \<Longrightarrow> preparable w h (setRange a)"
  shows "\<exists>pl2 labels lg d. construct_plot ns page computed dims su (w, h) ss pl = Some (pl2, labels, lg, ClearRect 0 0 w h # d)
      \<and> balanced d \<and> pl_series pl2 = pl_series pl1"
proof -
  let ?g = "(pl_geometry pl)\<lparr>canvasWidth := w, canvasHeight := h\<rparr>"
  have "ready_for su ss (pl\<lparr>pl_geometry := ?g\<rparr>)" using assms(1) by (simp add: ready_for_def)
  then have 1: "pl_geometry pl1 = ?g" "pl_grid pl1 = pl_grid pl"
    "both_ok (pl_xaxes pl1, pl_yaxes pl1)" "axis_at (pl_xaxes pl1) 0 \<noteq> None" "axis_at (pl_yaxes pl1) 0 \<noteq> None"
    "\<forall>s \<in> set (pl_series pl1). drawable s
       \<and> axis_at (pl_xaxes pl1) (axisNumber (sr_xaxis s) - 1) \<noteq> None \<and> axis_at (pl_yaxes pl1) (axisNumber (sr_yaxis s) - 1) \<noteq> None"
    using setData_defined [of su ss "pl\<lparr>pl_geometry := ?g\<rparr>"] assms(9) by auto
  have c: "sized (pl_geometry pl1)" "gr_show (pl_grid pl1)" using assms(2-4) by (simp_all add: 1(1,2) sized_def)
  have "preparable (canvasWidth (pl_geometry pl1)) (canvasHeight (pl_geometry pl1)) (setRange a)"
    if "a \<in> set (allAxes (pl_xaxes pl1) (pl_yaxes pl1))" for a
    using assms(10) [OF that] by (simp add: 1(1))
  from drawn_after_layout [OF 1(3) c this assms(6) 1(4,5,6) _ assms(7,8), of ns page dims] assms(5)
  show ?thesis using assms(2,3,9) by (auto simp: construct_plot_def getCanvasDimensions_def 1(1,2))
qed


section \<open>A plot\<close>

text \<open>Reading data gives axes the options of the plot, whatever the hooks do.\<close>

lemma setData_options:
  assumes "setData su ss pl = Some pl1" "P (su_xaxis su)" "P (su_yaxis su)"
    and "\<forall>a \<in> set (allAxes (pl_xaxes pl) (pl_yaxes pl)). P (ax_options a)"
    and "a \<in> set (allAxes (pl_xaxes pl1) (pl_yaxes pl1))"
  shows "P (ax_options a)"
proof -
  obtain ss1 xs1 ys1 ss2 where f: "fillInSeriesOptions (su_colors su) (su_xaxis su) (su_yaxis su) ss (pl_xaxes pl) (pl_yaxes pl) = Some (ss1, xs1, ys1)"
    and p: "processData (su_fuel su) (su_processRawData su) (su_processDatapoints su) ss1 xs1 ys1 = Some (ss2, pl_xaxes pl1, pl_yaxes pl1)"
    using assms(1) by (auto simp: setData_def bind_eq_Some_conv)
  obtain e u where e: "pl_xaxes pl1 = map (map_option (finish_axis e u)) xs1" "pl_yaxes pl1 = map (map_option (finish_axis e u)) ys1"
    using p by (auto simp: processData_def Let_def split: option.splits prod.splits) (metis (no_types, lifting))
  have o1: "(\<forall>a. Some a \<in> set xs1 \<longrightarrow> P (ax_options a)) \<and> (\<forall>a. Some a \<in> set ys1 \<longrightarrow> P (ax_options a))"
    using assms(4) by (intro fill_in_options [OF f [unfolded fillInSeriesOptions_def] assms(2,3)]) (auto simp: allAxes_mem)
  obtain x where "x \<in> set xs1 \<union> set ys1" "Some a = map_option (finish_axis e u) x" using assms(5) by (auto simp: allAxes_mem e)
  then show ?thesis using o1 by (cases x) (auto simp: finish_axis_frame)
qed

definition demo_range :: axis_options where
  "demo_range = demo_options\<lparr>opt_min := Some 0, opt_max := Some 10\<rparr>"

definition demo_setup :: plot_setup where
  "demo_setup = \<lparr>su_colors = [''#edc240''], su_xaxis = demo_range, su_yaxis = demo_range, su_fuel = 9, su_processRawData = [], su_processDatapoints = [],
     su_drawSeries = [], su_draw = []\<rparr>"

definition demo_blank :: plot where
  "demo_blank = demo_plot\<lparr>pl_xaxes := [Some (new_axis 1 X demo_range)], pl_yaxes := [Some (new_axis 1 Y demo_range)]\<rparr>"

lemma demo_ready: "ready_for demo_setup [demo_data, demo_data\<lparr>sr_yaxis := AxisNumber 3\<rparr>] demo_blank"
  by (simp add: ready_for_def demo_setup_def demo_blank_def demo_range_def demo_options_def usable_options_def usable_series_def plain_symbol_def
      fill_ok_def demo_data_def demo_series_def axisNumber_def both_ok_def axes_ok_def axis_at_def allAxes_def new_axis_def)

lemma demo_wide:
  assumes "ax_options a = demo_range"
  shows "preparable 400 300 (setRange a)"
proof -
  have r: "ax_min (setRange a) = 0" "ax_max (setRange a) = 10" "ax_options (setRange a) = demo_range"
    using setRange_fixed [of a 0 10] assms by (simp_all add: demo_range_def setRange_frame)
  have "sqrt 400 \<le> 100" "sqrt 300 \<le> 100" by (rule real_le_lsqrt; simp)+
  then have n: "0 < noTicks 400 300 (setRange a)" "noTicks 400 300 (setRange a) \<le> 30"
    using assms by (cases "ax_direction a"; simp add: noTicks_def demo_range_def demo_options_def)+
  have "1 / 10 ^ 19 \<le> (10 :: real) / 30" by simp
  also have "\<dots> \<le> 10 / noTicks 400 300 (setRange a)" using n by (intro divide_left_mono) simp_all
  finally show ?thesis
    by (simp add: preparable_def tick_delta_def r assms) (simp add: usable_options_def demo_range_def demo_options_def)
qed


end
