(* ===== verification/Page_Plot.thy ===== *)
theory Page_Plot
  imports Dashboard Plot_Object
begin

text \<open>
  What the page plots, \<open>static/test.js\<close>: its \<open>graph_options\<close> over the defaults of \<open>static/flot/jquery.flot.js\<close>, and the data of the streams as
  series. The lemmas follow such data through the reading of the data to the ranges of the two axes.
\<close>

section \<open>The options of the page\<close>

text \<open>The axes: time with the ends of the zoom, and bits per second from zero on.\<close>

definition page_axis :: axis_options where
  "page_axis =
     \<lparr>opt_show = None, opt_position = ''bottom'', opt_time = False, opt_color = ''#545454'', opt_tickColor = None,
      opt_transform = None, opt_inverseTransform = None, opt_min = None, opt_max = None,
      opt_autoscaleMargin = None, opt_ticks = AutoTicks, opt_tickFormatter = None, opt_labelWidth = None,
      opt_labelHeight = None, opt_reserveSpace = False, opt_tickLength = None, opt_alignTicksWithAxis = None,
      opt_tickDecimals = None, opt_tickSize = None, opt_minTickSize = None, opt_monthNames = None, opt_timeformat = None,
      opt_twelveHourClock = False, opt_zoomRange = NoRange, opt_panRange = NoRange\<rparr>"

definition page_xaxis :: "real option \<Rightarrow> real option \<Rightarrow> axis_options" where
  "page_xaxis lo hi = page_axis\<lparr>opt_time := True, opt_min := lo, opt_max := hi\<rparr>"

definition page_yaxis :: axis_options where
  "page_yaxis = page_axis\<lparr>opt_position := ''left'', opt_autoscaleMargin := Some (2 / 100), opt_min := Some 0, opt_tickFormatter := Some tick_bps\<rparr>"

text \<open>A stream with its label; the values are pairs of a time and a value. Lines without points and shadows.\<close>

definition page_series :: "nat \<Rightarrow> string \<times> (real \<times> real) list \<Rightarrow> series" where
  "page_series i st =
     \<lparr>sr_ref = i, sr_userid = RNull, sr_label = Some [T (fst st)], sr_color = NoColor,
      sr_data = map (\<lambda>(t, v). Some [RNum (Fin t), RNum (Fin v)]) (snd st), sr_xaxis = NoAxis, sr_yaxis = NoAxis,
      sr_lines = \<lparr>ln_show = Some True, ln_width = 2, ln_fill = NoFill, ln_fillColor = DefaultFill, ln_steps = False\<rparr>,
      sr_bars = \<lparr>br_show = False, br_width = 2, br_barWidth = 1, br_fill = FillOn, br_fillColor = DefaultFill,
        br_left = True, br_horizontal = False\<rparr>,
      sr_points = \<lparr>pt_show = False, pt_radius = 3, pt_width = 2, pt_fill = FillOn, pt_fillColor = FillText [T ''#ffffff''],
        pt_symbol = Circle\<rparr>,
      sr_shadowSize = 0, sr_plugin_show = False, sr_hoverable = True, sr_clickable = True,
      sr_stack = RNull, sr_fillBetween = RNull, sr_threshold = None, dp_points = [], dp_pointsize = None, dp_format = None\<rparr>"

definition page_data :: "series_data \<Rightarrow> series list" where
  "page_data data = map (\<lambda>i. page_series i (data ! i)) [0..<length data]"

definition page_setup :: "real option \<Rightarrow> real option \<Rightarrow> nat \<Rightarrow> plot_setup" where
  "page_setup lo hi n =
     \<lparr>su_colors = [''#edc240'', ''#afd8f8'', ''#cb4b4b'', ''#4da74d'', ''#9440ed''], su_xaxis = page_xaxis lo hi, su_yaxis = page_yaxis, su_fuel = n,
      su_processRawData = [], su_processDatapoints = [], su_drawSeries = [], su_draw = []\<rparr>"

text \<open>The plot before its data are read. The plugins of the page (selection and resize) add no hooks to the data and the drawing.\<close>

definition page_blank :: "real option \<Rightarrow> real option \<Rightarrow> plot" where
  "page_blank lo hi =
     \<lparr>pl_grid = default_grid\<lparr>gr_backgroundColor := FillGradient [StopText [T ''#fff''], StopText [T ''#eee'']], gr_borderColor := Some [T ''#545454''],
        gr_tickColor := Some (Color.toString (Color.scale ''a'' (22 / 100) (Color.make 84 84 84 None)))\<rparr>,
      pl_legend = default_legend, pl_series = [],
      pl_xaxes = [Some (new_axis 1 X (page_xaxis lo hi))], pl_yaxes = [Some (new_axis 1 Y page_yaxis)],
      pl_geometry = \<lparr>plotLeft = 0, plotTop = 0, plotWidth = 0, plotHeight = 0, plotRight = 0, plotBottom = 0, canvasWidth = 0, canvasHeight = 0\<rparr>\<rparr>"

text \<open>\<open>$.plot($("#graph"), graphdata, graph_options)\<close>. Without data it is an error.\<close>

definition draw_page_plot ::
  "(real \<Rightarrow> string) \<Rightarrow> page \<Rightarrow> color option \<Rightarrow> real \<times> real \<Rightarrow> real \<times> real \<Rightarrow> series_data option \<times> real option \<times> real option
    \<Rightarrow> (plot \<times> markup option \<times> legend \<times> drawing) option" where
  "draw_page_plot ns page computed dims area p =
     (case p of
        (None, _) \<Rightarrow> None
      | (Some data, lo, hi) \<Rightarrow>
          construct_plot ns page computed dims (page_setup lo hi (length data)) area (page_data data) (page_blank lo hi))"

section \<open>Reading the data of the page\<close>

text \<open>A series like those of the page: whole points of numbers that are not negative, drawn as a line.\<close>

definition solid :: "series \<Rightarrow> bool" where
  "solid s \<longleftrightarrow> \<not> br_show (sr_bars s) \<and> ln_fill (sr_lines s) = NoFill \<and> \<not> ln_steps (sr_lines s)
     \<and> (\<forall>p \<in> set (sr_data s). \<exists>t v. p = Some [RNum (Fin t), RNum (Fin v)] \<and> 0 \<le> t \<and> 0 \<le> v)"

definition cells_of :: "raw list option \<Rightarrow> cell list" where
  "cells_of p = (case p of Some [u, v] \<Rightarrow> [clean u, clean v] | _ \<Rightarrow> [])"

definition plain_columns :: "column list" where
  "plain_columns =
     [\<lparr>col_x = True, col_y = False, col_required = True, col_default = None\<rparr>,
      \<lparr>col_x = False, col_y = True, col_required = True, col_default = None\<rparr>]"

lemma copy_solid:
  assumes "\<forall>p \<in> set data. \<exists>t v. p = Some [RNum (Fin t), RNum (Fin v)] \<and> 0 \<le> t \<and> 0 \<le> v"
  shows "fold (copy_point plain_columns False kx ky) data (points, e) = (points @ concat (map cells_of data), e)"
  using assms
proof (induction data arbitrary: points)
  case (Cons p data)
  obtain t v where p: "p = Some [RNum (Fin t), RNum (Fin v)]" using Cons.prems by auto
  have "copy_point plain_columns False kx ky p (points, e) = (points @ cells_of p, e)"
    by (simp add: p copy_point_def convert_point_def plain_columns_def convert_def clean_def cells_of_def Let_def)
  then show ?case using Cons by simp
qed simp

lemma first_pass_solid:
  assumes "solid s" "dp_pointsize s = None" "dp_format s = None"
  shows "\<exists>u. first_pass s eu
    = (s\<lparr>dp_format := Some plain_columns, dp_pointsize := Some 2, dp_points := concat (map cells_of (sr_data s))\<rparr>, fst eu, u)"
proof -
  have d: "default_format s = plain_columns" using assms(1) by (simp add: default_format_def solid_def plain_columns_def fill_truthy_def)
  have st: "(shows_lines s \<and> ln_steps (sr_lines s)) = False" using assms(1) by (simp add: solid_def)
  show ?thesis
    using copy_solid [of "sr_data s" "axisNumber (sr_xaxis s)" "axisNumber (sr_yaxis s)" "[]" "fst eu"] assms
    by (simp add: first_pass_def d st Let_def solid_def plain_columns_def)
qed

lemma first_passes_solid:
  assumes "\<forall>s \<in> set ss. solid s \<and> dp_pointsize s = None \<and> dp_format s = None"
  shows "\<exists>u. first_passes ss eu
    = (map (\<lambda>s. s\<lparr>dp_format := Some plain_columns, dp_pointsize := Some 2, dp_points := concat (map cells_of (sr_data s))\<rparr>) ss, fst eu, u)"
  using assms
proof (induction ss arbitrary: eu)
  case Nil
  then show ?case by (cases eu) simp
next
  case (Cons s ss)
  obtain u where u: "first_pass s eu
    = (s\<lparr>dp_format := Some plain_columns, dp_pointsize := Some 2, dp_points := concat (map cells_of (sr_data s))\<rparr>, fst eu, u)"
    using first_pass_solid Cons.prems by (metis list.set_intros(1))
  then show ?case using Cons.IH [of "(fst eu, u)"] Cons.prems by auto
qed

section \<open>The extents of the axes\<close>

text \<open>An extent that is as at the start, or between two numbers that are not negative.\<close>

definition orderly :: "extent \<Rightarrow> bool" where
  "orderly e \<longleftrightarrow> e = no_extent \<or> (\<exists>lo hi. e = (Some (Fin lo), Some (Fin hi)) \<and> 0 \<le> lo \<and> lo \<le> hi \<and> hi \<noteq> fakeInfinity)"

definition orderly_extents :: "extents \<Rightarrow> bool" where
  "orderly_extents e \<longleftrightarrow> (\<forall>k. orderly (fst e k) \<and> orderly (snd e k))"

definition counted :: "cell \<Rightarrow> bool" where
  "counted c \<longleftrightarrow> (\<exists>v. c = Some v \<and> 0 \<le> v)"

lemma orderly_widen: "orderly e \<Longrightarrow> 0 \<le> v \<Longrightarrow> v \<noteq> fakeInfinity \<Longrightarrow> orderly (widen (Some (Fin v)) e)"
  by (auto simp: orderly_def widen_def no_extent_def)

lemma orderly_updateAxis: "orderly e \<Longrightarrow> orderly f \<Longrightarrow> orderly (updateAxis (fst f) (snd f) e)"
  using fakeInfinity_pos by (auto simp: orderly_def updateAxis_def no_extent_def)

lemma counted_concat: "list_all counted (concat (map cells_of (sr_data s)))" if "solid s"
proof -
  have "list_all counted (cells_of p)" if "p \<in> set (sr_data s)" for p
    using \<open>solid s\<close> that by (auto simp: solid_def cells_of_def clean_def counted_def)
  then show ?thesis by (auto simp: list_all_iff)
qed

lemma scan_cell_orderly:
  assumes "orderly (fst e)" "orderly (snd e)" "counted c"
  shows "orderly (fst (scan_cell f c e)) \<and> orderly (snd (scan_cell f c e))"
  using assms by (auto simp: scan_cell_def counted_def orderly_widen)

text \<open>Every start of a block is the start of a whole one.\<close>

lemma length_cells: "solid s \<Longrightarrow> length (concat (map cells_of (sr_data s))) = 2 * length (sr_data s)"
proof -
  assume "solid s"
  then have "\<forall>p \<in> set (sr_data s). length (cells_of p) = 2" by (auto simp: solid_def cells_of_def)
  then have "map length (map cells_of (sr_data s)) = map (\<lambda>_. 2) (sr_data s)" by simp
  then have "length (concat (map cells_of (sr_data s))) = sum_list (map (\<lambda>_. 2) (sr_data s))" unfolding length_concat by (rule arg_cong)
  then show ?thesis by (simp add: sum_list_triv)
qed

lemma scan_orderly:
  assumes "list_all counted points" "even (length points)"
  shows "orderly (fst (scan plain_columns 2 points)) \<and> orderly (snd (scan plain_columns 2 points))"
proof -
  have point: "orderly (fst (scan_point plain_columns 2 points j e)) \<and> orderly (snd (scan_point plain_columns 2 points j e))"
    if j: "j \<in> set (starts (length points) 2)" and e: "orderly (fst e) \<and> orderly (snd e)" for j e
  proof -
    obtain i where "j = i * 2" "i \<in> set [0..<(length points + 2 - 1) div 2]"
      using j unfolding starts_def set_map by blast
    then have "j + 1 < length points" using assms(2) by (auto elim!: evenE)
    then have c: "counted (rd points (int j))" "counted (rd points (int (j + 1)))"
      using assms(1) unfolding rd_nat list_all_iff by auto
    have "[0..<2] = [0, Suc 0]" by (simp add: upt_rec)
    then have "scan_point plain_columns 2 points j e
      = scan_cell (plain_columns ! 1) (rd points (int (j + 1))) (scan_cell (plain_columns ! 0) (rd points (int j)) e)"
      using c(1) by (auto simp: scan_point_def plain_columns_def counted_def)
    then show ?thesis using scan_cell_orderly c e by metis
  qed
  have "orderly (fst (fold (scan_point plain_columns 2 points) js e)) \<and> orderly (snd (fold (scan_point plain_columns 2 points) js e))"
    if "set js \<subseteq> set (starts (length points) 2)" "orderly (fst e) \<and> orderly (snd e)" for js e
    using that
  proof (induction js arbitrary: e)
    case (Cons j js)
    then show ?case using point [of j e] by simp
  qed simp
  moreover have "orderly no_extent" by (simp add: orderly_def)
  ultimately show ?thesis unfolding scan_def by simp
qed

lemma second_pass_orderly:
  assumes "second_pass plain_columns s e = Some e'" "dp_pointsize s = Some 2" "list_all counted (dp_points s)" "even (length (dp_points s))"
    and "\<not> br_show (sr_bars s)" "orderly_extents e"
  shows "orderly_extents e'"
proof -
  obtain xe ye where e': "bar_room (sr_bars s) (scan plain_columns 2 (dp_points s)) = (xe, ye)"
      "e' = update_y (axisNumber (sr_yaxis s)) (fst ye) (snd ye) (update_x (axisNumber (sr_xaxis s)) (fst xe) (snd xe) e)"
    using second_pass_scan [OF assms(1,2)] by blast
  then have "orderly xe" "orderly ye" using scan_orderly [OF assms(3,4)] assms(5) by (simp_all add: bar_room_def)
  then show ?thesis using assms(6) by (auto simp: e'(2) orderly_extents_def update_x_def update_y_def orderly_updateAxis)
qed

lemma second_passes_orderly:
  assumes "second_passes plain_columns ss e = Some e'" "orderly_extents e"
    and "\<forall>s \<in> set ss. dp_pointsize s = Some 2 \<and> list_all counted (dp_points s) \<and> even (length (dp_points s)) \<and> \<not> br_show (sr_bars s)"
  shows "orderly_extents e'"
  using assms
proof (induction ss arbitrary: e)
  case (Cons s ss)
  obtain e1 where e1: "second_pass plain_columns s e = Some e1" "second_passes plain_columns ss e1 = Some e'"
    using Cons.prems(1) by (auto split: option.splits)
  then show ?case using Cons.IH [OF e1(2)] second_pass_orderly [OF e1(1)] Cons.prems(2,3) by simp
qed simp

text \<open>An axis whose data are two numbers in order that are not negative, or that has no data.\<close>

definition in_data :: "axis \<Rightarrow> bool" where
  "in_data a \<longleftrightarrow> (ax_datamin a = None \<and> ax_datamax a = None)
     \<or> (\<exists>lo hi. ax_datamin a = Some lo \<and> ax_datamax a = Some hi \<and> 0 \<le> lo \<and> lo \<le> hi)"

lemma orderly_in_data: "orderly_extents e \<Longrightarrow> in_data (finish_axis e u a)"
proof -
  assume e: "orderly_extents e"
  have "orderly (case ax_direction a of X \<Rightarrow> fst e (ax_n a) | Y \<Rightarrow> snd e (ax_n a))"
    using e by (simp add: orderly_extents_def split: direction.split)
  then show ?thesis by (auto simp: in_data_def finish_axis_def Let_def orderly_def final_bound_def no_extent_def)
qed

lemma processData_solid:
  assumes "processData fuel [] [] ss xs ys = Some (ss', xs', ys')" "\<forall>s \<in> set ss. solid s"
  shows "map (\<lambda>s. (sr_label s, dp_points s)) ss' = map (\<lambda>s. (sr_label s, concat (map cells_of (sr_data s)))) ss
    \<and> (\<forall>a. Some a \<in> set xs' \<or> Some a \<in> set ys' \<longrightarrow> in_data a)"
proof -
  let ?e0 = "(\<lambda>_. no_extent, \<lambda>_. no_extent) :: extents"
  let ?f = "\<lambda>s. s\<lparr>dp_format := Some plain_columns, dp_pointsize := Some 2, dp_points := concat (map cells_of (sr_data s))\<rparr>"
  have so: "\<forall>s \<in> set (map reset ss). solid s \<and> dp_pointsize s = None \<and> dp_format s = None"
    using assms(2) by (auto simp: solid_def reset_def)
  obtain u where fp: "first_passes (map reset ss) (?e0, []) = (map ?f (map reset ss), ?e0, u)"
    using first_passes_solid [OF so, of "(?e0, [])"] by auto
  let ?ss2 = "map ?f (map reset ss)"
  have raw: "hook_loop fuel [] 0 (map reset ss) = None \<or> hook_loop fuel [] 0 (map reset ss) = Some (map reset ss)"
    "hook_loop fuel [] 0 ?ss2 = None \<or> hook_loop fuel [] 0 ?ss2 = Some ?ss2" by (rule hook_loop_raw)+
  from assms(1) raw fp obtain e' where r: "ss' = ?ss2" "second_passes (last_format ?ss2) ?ss2 ?e0 = Some e'"
    "xs' = map (map_option (finish_axis e' u)) xs" "ys' = map (map_option (finish_axis e' u)) ys"
    by (auto simp: processData_def Let_def split: option.splits)
  have "orderly_extents e'"
  proof (cases "ss = []")
    case True
    then show ?thesis using r(2) by (auto simp: orderly_extents_def orderly_def)
  next
    case False
    then have "last_format ?ss2 = plain_columns" by (simp add: last_format_def last_map)
    then have "second_passes plain_columns ?ss2 ?e0 = Some e'" using r(2) by simp
    moreover have "orderly_extents ?e0" by (simp add: orderly_extents_def orderly_def)
    moreover have "\<forall>s \<in> set ?ss2. dp_pointsize s = Some 2 \<and> list_all counted (dp_points s) \<and> even (length (dp_points s)) \<and> \<not> br_show (sr_bars s)"
      using so counted_concat length_cells by (auto simp: solid_def)
    ultimately show ?thesis by (rule second_passes_orderly)
  qed
  then have ext: "in_data (finish_axis e' u a)" for a by (rule orderly_in_data)
  have "in_data a" if "Some a \<in> set xs' \<or> Some a \<in> set ys'" for a
  proof -
    obtain x where "Some a = map_option (finish_axis e' u) x" using \<open>Some a \<in> set xs' \<or> Some a \<in> set ys'\<close> by (auto simp: r(3,4))
    then show ?thesis using ext by (cases x) simp_all
  qed
  then show ?thesis by (simp add: r(1) reset_def)
qed

section \<open>The ranges of the page's axes\<close>

text \<open>The ends of the zoom: both or none.\<close>

definition zoomed :: "real option \<Rightarrow> real option \<Rightarrow> bool" where
  "zoomed lo hi \<longleftrightarrow> (lo = None \<and> hi = None) \<or> (\<exists>a b. lo = Some a \<and> hi = Some b \<and> a < b)"

lemma page_range:
  assumes "in_data a" "ax_options a = page_xaxis lo hi \<and> zoomed lo hi \<or> ax_options a = page_yaxis"
  shows "preparable w h (setRange a)"
proof -
  have "ax_min (setRange a) < ax_max (setRange a)"
  proof (cases "ax_options a = page_yaxis")
    case True
    then have o': "opt_min (ax_options a) = Some 0" "opt_max (ax_options a) = None" "opt_autoscaleMargin (ax_options a) = Some (2 / 100)"
      by (simp_all add: page_yaxis_def page_axis_def)
    then show ?thesis using assms(1) by (auto simp: in_data_def setRange_def Let_def)
  next
    case False
    then have o': "opt_min (ax_options a) = lo" "opt_max (ax_options a) = hi" "opt_autoscaleMargin (ax_options a) = None" and z: "zoomed lo hi"
      using assms(2) by (simp_all add: page_xaxis_def page_axis_def)
    from z show ?thesis unfolding zoomed_def
    proof (elim disjE exE conjE)
      assume "lo = None" "hi = None"
      then show ?thesis using assms(1) o' by (auto simp: in_data_def setRange_def Let_def)
    next
      fix u v assume "lo = Some u" "hi = Some v" "u < v"
      then show ?thesis using o' setRange_fixed [of a u v] by simp
    qed
  qed
  then show ?thesis
    using assms(2) by (auto simp: preparable_def usable_options_def page_xaxis_def page_yaxis_def page_axis_def)
qed

section \<open>The page's plots are drawn\<close>

definition counts :: "(real \<times> real) list \<Rightarrow> bool" where
  "counts vs \<longleftrightarrow> (\<forall>(t, v) \<in> set vs. 0 \<le> t \<and> 0 \<le> v)"

lemma page_data_solid: "\<forall>st \<in> set data. counts (snd st) \<Longrightarrow> \<forall>s \<in> set (page_data data). solid s"
  by (fastforce simp: page_data_def page_series_def solid_def counts_def)

lemma page_data_cells:
  "map (\<lambda>s. (sr_label s, concat (map cells_of (sr_data s)))) (page_data data)
    = map (\<lambda>st. (Some [T (fst st)], concat (map (\<lambda>(t, v). [Some t, Some v]) (snd st)))) data"
proof -
  have "cells_of \<circ> (\<lambda>(t, v). Some [RNum (Fin t), RNum (Fin v)]) = (\<lambda>(t, v). [Some t, Some v])"
    by (auto simp: cells_of_def clean_def fun_eq_iff)
  then have "(sr_label (page_series i st), concat (map cells_of (sr_data (page_series i st))))
      = (Some [T (fst st)], concat (map (\<lambda>(t, v). [Some t, Some v]) (snd st)))" for i st
    by (simp add: page_series_def)
  then show ?thesis by (intro nth_equalityI) (simp_all add: page_data_def)
qed

text \<open>Filling in the options keeps the data and the labels of the series.\<close>

lemma fill_in_data:
  assumes "fill_in xo yo colors ss k xs ys = Some (ss', xs', ys')"
  shows "map (\<lambda>s. (sr_label s, sr_data s)) ss' = map (\<lambda>s. (sr_label s, sr_data s)) ss \<and> (list_all solid ss \<longrightarrow> list_all solid ss')"
  using assms
proof (induction ss arbitrary: k xs ys ss')
  case (Cons s ss)
  from Cons.prems obtain c k' ss1 where
    1: "fill_in xo yo colors ss k' (getOrCreateAxis X xo (axisNumber (sr_xaxis s)) xs)
       (getOrCreateAxis Y yo (axisNumber (sr_yaxis s)) ys) = Some (ss1, xs', ys')"
    and 2: "ss' = (default_lines (s\<lparr>sr_color := c\<rparr>))\<lparr>sr_xaxis := AxisObject (axisNumber (sr_xaxis s)), sr_yaxis := AxisObject (axisNumber (sr_yaxis s))\<rparr> # ss1"
    by (auto simp: Let_def split: option.splits)
  then show ?case using Cons.IH [OF 1] by (simp add: solid_def default_lines_def)
qed simp

lemma page_ready: "ready_for (page_setup lo hi (length data)) (page_data data) (page_blank lo hi)"
proof -
  have "usable_series s" if "s \<in> set (page_data data)" for s
    using that by (auto simp: page_data_def page_series_def usable_series_def plain_symbol_def fill_ok_def axisNumber_def)
  then show ?thesis
    by (simp add: ready_for_def page_setup_def page_blank_def list_all_iff page_xaxis_def page_yaxis_def page_axis_def usable_options_def
        both_ok_def axes_ok_def axis_at_def allAxes_def new_axis_def) (simp add: page_data_def)
qed

lemma page_plot_drawn:
  assumes "\<forall>st \<in> set data. counts (snd st)" "zoomed lo hi" "0 < w" "0 < h" "computed \<noteq> None"
  shows "\<exists>pl labels lg d. draw_page_plot ns page computed dims (w, h) (Some data, lo, hi) = Some (pl, labels, lg, ClearRect 0 0 w h # d)
    \<and> balanced d
    \<and> map (\<lambda>s. (sr_label s, dp_points s)) (pl_series pl)
      = map (\<lambda>st. (Some [T (fst st)], concat (map (\<lambda>(t, v). [Some t, Some v]) (snd st)))) data"
proof -
  let ?su = "page_setup lo hi (length data)" and ?ss = "page_data data"
  let ?pl = "(page_blank lo hi)\<lparr>pl_geometry := (pl_geometry (page_blank lo hi))\<lparr>canvasWidth := w, canvasHeight := h\<rparr>\<rparr>"
  have "ready_for ?su ?ss ?pl" using page_ready [of lo hi data] by (simp add: ready_for_def)
  then obtain pl1 where 1: "setData ?su ?ss ?pl = Some pl1" using setData_defined by blast
  then obtain ss1 xs1 ys1 where f: "fillInSeriesOptions (su_colors ?su) (su_xaxis ?su) (su_yaxis ?su) ?ss (pl_xaxes ?pl) (pl_yaxes ?pl) = Some (ss1, xs1, ys1)"
    and p: "processData (length data) [] [] ss1 xs1 ys1 = Some (pl_series pl1, pl_xaxes pl1, pl_yaxes pl1)"
    by (auto simp: setData_def bind_eq_Some_conv page_setup_def)
  note fd = fill_in_data [OF f [unfolded fillInSeriesOptions_def]]
  have "list_all solid ?ss" using page_data_solid [OF assms(1)] by (simp add: list_all_iff)
  then have so: "\<forall>s \<in> set ss1. solid s" using fd by (simp add: list_all_iff)
  note pd = processData_solid [OF p so]
  have lc: "map (\<lambda>s. (sr_label s, concat (map cells_of (sr_data s)))) ss
      = map (\<lambda>(l, d). (l, concat (map cells_of d))) (map (\<lambda>s. (sr_label s, sr_data s)) ss)" for ss by simp
  have data: "map (\<lambda>s. (sr_label s, dp_points s)) (pl_series pl1)
      = map (\<lambda>st. (Some [T (fst st)], concat (map (\<lambda>(t, v). [Some t, Some v]) (snd st)))) data"
    using page_data_cells [of data] unfolding conjunct1 [OF pd] lc conjunct1 [OF fd] .
  have "preparable w h (setRange a)" if a: "a \<in> set (allAxes (pl_xaxes pl1) (pl_yaxes pl1))" for a
  proof (rule page_range [where lo = lo and hi = hi])
    show "in_data a" using pd a by (auto simp: allAxes_mem)
    have "ax_options a = page_xaxis lo hi \<or> ax_options a = page_yaxis"
      by (rule setData_options [OF 1 _ _ _ a]) (auto simp: page_setup_def page_blank_def allAxes_def new_axis_def)
    then show "ax_options a = page_xaxis lo hi \<and> zoomed lo hi \<or> ax_options a = page_yaxis" using assms(2) by blast
  qed
  then obtain pl2 labels lg d where "construct_plot ns page computed dims ?su (w, h) ?ss (page_blank lo hi) = Some (pl2, labels, lg, ClearRect 0 0 w h # d)"
      "balanced d" "pl_series pl2 = pl_series pl1"
    using plot_drawn [OF page_ready assms(3,4) _ _ assms(5) _ _ 1, of ns page dims]
    by (auto simp: page_blank_def default_grid_def fill_ok_def page_setup_def)
  then show ?thesis using data by (simp add: draw_page_plot_def)
qed

section \<open>Whatever happens to the page\<close>

text \<open>A plot that the page asks for, and what the page keeps for the next ones: the data, the zoom and the stack of zooms.\<close>

definition fine_plot :: "series_data option \<times> real option \<times> real option \<Rightarrow> bool" where
  "fine_plot p \<longleftrightarrow> (\<forall>data. fst p = Some data \<longrightarrow> (\<forall>st \<in> set data. counts (snd st))) \<and> zoomed (fst (snd p)) (snd (snd p))"

definition page_fine :: "dashboard \<Rightarrow> bool" where
  "page_fine s \<longleftrightarrow> fine_plot (graphdata s, xaxis_min s, xaxis_max s) \<and> (\<forall>(lo, hi) \<in> set (zoomstack s). zoomed lo hi) \<and> (\<forall>p \<in> set (plots s). fine_plot p)"

text \<open>Selections from left to right, and a server whose times and values are not negative.\<close>

definition fine_event :: "event \<Rightarrow> bool" where
  "fine_event ev = (case ev of PlotSelected a b \<Rightarrow> a < b | _ \<Rightarrow> True)"

definition counting :: "parser \<Rightarrow> bool" where
  "counting decode \<longleftrightarrow> (\<forall>b r m st. decode b r = Some m \<longrightarrow> Some st \<in> set (payload m) \<longrightarrow> counts (svalue st))"

text \<open>Only four handlers touch what is plotted.\<close>

definition same_view :: "dashboard \<Rightarrow> dashboard \<Rightarrow> bool" where
  "same_view s t \<longleftrightarrow> graphdata t = graphdata s \<and> zoomstack t = zoomstack s \<and> xaxis_min t = xaxis_min s \<and> xaxis_max t = xaxis_max s \<and> plots t = plots s"

lemma same_view_fine: "same_view s t \<Longrightarrow> page_fine s \<Longrightarrow> page_fine t"
  by (simp add: same_view_def page_fine_def)

lemma view_frame:
  "same_view s (FetchData e s)" "same_view s (ResizeGraph e s)" "same_view s (set_fetch_timer s)" "same_view s (ShowDuration s)"
  "same_view s (BuildInterfaceList s)" "same_view s (BuildSelectors s)"
  by (simp_all add: same_view_def FetchData_def ResizeGraph_def set_fetch_timer_def ShowDuration_def BuildInterfaceList_def BuildSelectors_def)

lemma same_view_trans: "same_view s t \<Longrightarrow> same_view t u \<Longrightarrow> same_view s u"
  by (simp add: same_view_def)

lemma offer_view:
  "same_view s (offer_variables is s)" "same_view s (offer_hosts is s)"
  by (induction "is" arbitrary: s) (auto simp: Let_def same_view_def)

lemma offer_interfaces_view: "same_view s (fst (offer_interfaces ss s))"
  by (induction ss s rule: offer_interfaces.induct) (auto simp: Let_def same_view_def split: option.splits)

lemma page_fine_plot: "page_fine s \<Longrightarrow> page_fine (plot_graph s)"
  by (auto simp: page_fine_def plot_graph_def)

lemma page_fine_reset: "page_fine s \<Longrightarrow> page_fine (ResetZoom s)"
  by (simp add: page_fine_def ResetZoom_def fine_plot_def zoomed_def)

lemma FetchData_success_fine:
  assumes "page_fine s" "\<And>st. Some st \<in> set streams \<Longrightarrow> counts (svalue st)"
  shows "page_fine (fst (FetchData_success e streams s))"
proof -
  let ?good = "takeWhile (\<lambda>st. st \<noteq> None) streams"
  let ?s = "s\<lparr>graphdata := Some (map (\<lambda>st. stream_record (the st)) ?good)\<rparr>"
  have "counts (snd (stream_record (the st)))" if "st \<in> set ?good" for st
    using set_takeWhileD [OF that] assms(2) by (auto simp: stream_record_def)
  then have f: "page_fine ?s" using assms(1) by (auto simp: page_fine_def fine_plot_def)
  then have "page_fine (set_fetch_timer (ResizeGraph e (plot_graph ?s)))"
    using page_fine_plot same_view_fine view_frame by blast
  then show ?thesis using f by (simp add: FetchData_success_def Let_def)
qed

lemma list_success_fine:
  "page_fine s \<Longrightarrow> page_fine (fst (BuildSelectors_success streams s))"
  "page_fine s \<Longrightarrow> page_fine (fst (BuildInterfaceList_success e streams s))"
proof -
  assume s: "page_fine s"
  let ?s = "s\<lparr>variable_opts := [], interface_opts := [], host_opts := []\<rparr>"
  have "same_view s (BuildInterfaceList (offer_hosts hs (offer_variables vs (?s\<lparr>graph_host := None\<rparr>))))" for vs hs
    by (rule same_view_trans [OF _ view_frame(5)], rule same_view_trans [OF _ offer_view(2)], rule same_view_trans [OF _ offer_view(1)])
      (simp add: same_view_def)
  moreover have "same_view s ?s" by (simp add: same_view_def)
  ultimately show "page_fine (fst (BuildSelectors_success streams s))"
    using s same_view_fine unfolding BuildSelectors_success_def Let_def by (auto split: option.split)
  obtain t x where t: "offer_interfaces streams (s\<lparr>interface_opts := []\<rparr>) = (t, x)" by fastforce
  have "same_view s t" using offer_interfaces_view [of "s\<lparr>interface_opts := []\<rparr>" streams] t by (simp add: same_view_def)
  then have "page_fine t" "page_fine (FetchData e t)" using s same_view_fine view_frame(1) same_view_trans by blast+
  then show "page_fine (fst (BuildInterfaceList_success e streams s))" by (simp add: BuildInterfaceList_success_def t split: option.split)
qed

lemma answer_fine:
  assumes "page_fine s" "counting decode"
  shows "page_fine (fst (handle_reactions e r (SendRequest_answer decode path response has a) s))"
proof -
  have ok: "page_fine (fst (handle_success e r (payload m) s))" if "decode b response = Some m" for b m
  proof -
    have "counts (svalue st)" if "Some st \<in> set (payload m)" for st
      using assms(2) \<open>decode b response = Some m\<close> that unfolding counting_def by blast
    then show ?thesis using FetchData_success_fine list_success_fine assms(1) by (cases r) (simp_all add: handle_success_def)
  qed
  have "page_fine (set_fetch_timer s)" "page_fine (s\<lparr>console := l\<rparr>)" for l
    using assms(1) same_view_fine view_frame(3) by (blast, simp add: page_fine_def)
  then show ?thesis using ok assms(1) by (cases a) (auto simp: Let_def split: option.split)
qed

lemma step_fine:
  assumes "page_fine s" "fine_event ev" "counting decode"
  shows "page_fine (fst (step decode e ev s))"
proof -
  have upd: "page_fine (s\<lparr>nice_duration := t\<rparr>)" "page_fine (s\<lparr>value_type := t\<rparr>)" "page_fine (s\<lparr>graph_host := h, graph_interface := i\<rparr>)"
    "page_fine (s\<lparr>graph_variable := h\<rparr>)" "page_fine (s\<lparr>graph_interface := h\<rparr>)" "page_fine (s\<lparr>timers := ts\<rparr>)" "page_fine (s\<lparr>pending := rs\<rparr>)"
    "page_fine (s\<lparr>graph_duration := d\<rparr>)" for t h i ts rs d
    using assms(1) by (simp_all add: page_fine_def)
  have fetch: "page_fine t \<Longrightarrow> page_fine (FetchData e t)" "page_fine t \<Longrightarrow> page_fine (BuildInterfaceList t)"
    "page_fine t \<Longrightarrow> page_fine (ShowDuration t)" "page_fine t \<Longrightarrow> page_fine (ResizeGraph e t)" for t
    using same_view_fine view_frame by blast+
  show ?thesis
  proof (cases ev)
    case (PlotSelected a b)
    then have "zoomed (Some a) (Some b)" using assms(2) by (simp add: fine_event_def zoomed_def)
    then have "page_fine (s\<lparr>zoomstack := (if num_truthy (xaxis_min s) then (xaxis_min s, xaxis_max s) # zoomstack s else zoomstack s),
        xaxis_min := Some a, xaxis_max := Some b, zoomout_disabled := False\<rparr>)"
      using assms(1) by (simp add: page_fine_def fine_plot_def)
    then show ?thesis by (simp only: PlotSelected step.simps fst_conv on_plotselected_def page_fine_plot)
  next
    case ZoomOutClicked
    have "page_fine (s\<lparr>zoomstack := rest, xaxis_min := lo, xaxis_max := hi, zoomout_disabled := False\<rparr>)" if "zoomstack s = (lo, hi) # rest" for lo hi rest
      using assms(1) that by (simp add: page_fine_def fine_plot_def)
    then show ?thesis using ZoomOutClicked page_fine_reset [OF assms(1)]
      by (auto simp: on_zoomout_def intro!: page_fine_plot split: list.split)
  next
    case (Answered i a)
    then show ?thesis using answer_fine [OF upd(7) assms(3)] assms(1) by (simp add: Let_def)
  qed (use assms(1) upd fetch page_fine_reset in \<open>simp_all add: change_duration_def\<close>)
qed


text \<open>An answer with one stream, and a selection.\<close>

definition demo_stream :: stream where
  "demo_stream = \<lparr>svariable = ''/v'', svalue = [(0, 3), (1000, 5)]\<rparr>"

definition demo_parser :: parser where
  "demo_parser = (\<lambda>b r. Some (r\<lparr>success := True, payload := [Some demo_stream]\<rparr>))"

definition demo_env :: env where
  "demo_env = \<lparr>now = 0, innerWidth = 800, innerHeight = 600\<rparr>"

definition demo_events :: "event list" where
  "demo_events = [HostChanged ''r1'', InterfaceChanged ''eth0'', Answered 2 (Body ''x''), PlotSelected 0 1000]"


end
