(* ===== verification/Lifecycle.thy ===== *)
theory Lifecycle
  imports Complex_Main
begin

text \<open>
  A placeholder of the page and the plots made in it, one after the other, \<open>static/flot/jquery.flot.js\<close>: the two canvases, which a new
  plot takes over from the one before, the handlers and the timer, \<open>shutdown\<close>; and the resize plugin
  (\<open>static/flot/jquery.flot.resize.js\<close>).
\<close>

section \<open>Canvases\<close>

text \<open>The size and the number of saved states of the context. Setting the width or the height of a canvas discards the saved states.\<close>

record canvas =
  cv_width :: real
  cv_height :: real
  cv_saved :: nat

definition makeCanvas :: "real \<Rightarrow> real \<Rightarrow> canvas" where
  "makeCanvas w h = \<lparr>cv_width = w, cv_height = h, cv_saved = 1\<rparr>"

text \<open>Restoring without a saved state does nothing.\<close>

definition resizeCanvas :: "real \<Rightarrow> real \<Rightarrow> canvas \<Rightarrow> canvas" where
  "resizeCanvas w h c =
     (let c1 = (if cv_width c \<noteq> w then c\<lparr>cv_width := w, cv_saved := 0\<rparr> else c);
          c2 = (if cv_height c1 \<noteq> h then c1\<lparr>cv_height := h, cv_saved := 0\<rparr> else c1)
      in c2\<lparr>cv_saved := Suc (cv_saved c2 - 1)\<rparr>)"

section \<open>The placeholder\<close>

text \<open>
  The options of a plot that matter here: its handlers, the names of the handlers that plugins bind, whether the resize plugin
  is loaded, and how many elements (labels, legend) it adds to the placeholder.
\<close>

record plot_conf =
  pc_hoverable :: bool
  pc_clickable :: bool
  pc_plugins :: "string list"
  pc_resize :: bool
  pc_elements :: nat

text \<open>
  The placeholder: its size, its canvases and the number of its other elements, the plot it remembers (with its number), the handlers on the
  canvases (their name and plot; those of the plot itself are named after their event), the resize handlers of the placeholder, and the plots whose timer for the overlay is armed.
\<close>

record holder =
  hd_width :: real
  hd_height :: real
  hd_base :: "canvas option"
  hd_overlay :: "canvas option"
  hd_elements :: nat
  hd_plot :: "(nat \<times> plot_conf) option"
  hd_bound :: "(string \<times> nat) list"
  hd_resize :: "nat list"
  hd_timers :: "nat list"
  hd_next :: nat

datatype plot_error = InvalidDimensions real real | TypeError

definition invalid :: "holder \<Rightarrow> bool" where
  "invalid h \<longleftrightarrow> hd_width h \<le> 0 \<or> hd_height h \<le> 0"

definition shutdown :: "nat \<times> plot_conf \<Rightarrow> holder \<Rightarrow> holder" where
  "shutdown p h =
     (let (i, conf) = p; mine = [''mousemove'', ''mouseleave'', ''click''] @ pc_plugins conf
      in h\<lparr>hd_timers := filter (\<lambda>k. k \<noteq> i) (hd_timers h),
           hd_bound := filter (\<lambda>(e, k). \<not> (k = i \<and> e \<in> set mine)) (hd_bound h),
           hd_resize := (if pc_resize conf then filter (\<lambda>k. k \<noteq> i) (hd_resize h) else hd_resize h)\<rparr>)"

text \<open>\<open>plot.resize\<close>: the error of an area without size, or both canvases with the new size.\<close>

definition resize_plot :: "holder \<Rightarrow> holder \<times> plot_error option" where
  "resize_plot h =
     (if invalid h then (h, Some (InvalidDimensions (hd_width h) (hd_height h)))
      else (h\<lparr>hd_base := map_option (resizeCanvas (hd_width h) (hd_height h)) (hd_base h),
               hd_overlay := map_option (resizeCanvas (hd_width h) (hd_height h)) (hd_overlay h)\<rparr>, None))"

text \<open>
  The test \<open>existingOverlay == 0\<close> compares an object with a number and is never true: without an overlay the second branch fails. Removing
  elements removes their handlers.
\<close>

definition setupCanvases :: "nat \<Rightarrow> plot_conf \<Rightarrow> holder \<Rightarrow> holder \<times> plot_error option" where
  "setupCanvases i conf h =
     (case hd_base h of
        None \<Rightarrow>
          let h1 = h\<lparr>hd_base := None, hd_overlay := None, hd_elements := 0, hd_bound := []\<rparr>
          in if invalid h1 then (h1, Some (InvalidDimensions (hd_width h1) (hd_height h1)))
             else (h1\<lparr>hd_base := Some (makeCanvas (hd_width h1) (hd_height h1)), hd_overlay := Some (makeCanvas (hd_width h1) (hd_height h1)),
                      hd_plot := Some (i, conf)\<rparr>, None)
      | Some _ \<Rightarrow>
          (case (hd_overlay h, hd_plot h) of
             (Some _, Some old) \<Rightarrow>
               (case resize_plot (shutdown old h) of
                  (h1, Some e) \<Rightarrow> (h1, Some e)
                | (h1, None) \<Rightarrow> (h1\<lparr>hd_bound := [], hd_elements := 0, hd_plot := Some (i, conf)\<rparr>, None))
           | _ \<Rightarrow> (h, Some TypeError)))"

definition bindEvents :: "nat \<Rightarrow> plot_conf \<Rightarrow> holder \<Rightarrow> holder" where
  "bindEvents i conf h =
     h\<lparr>hd_bound := hd_bound h @ map (\<lambda>e. (e, i))
         ((if pc_hoverable conf then [''mousemove'', ''mouseleave''] else []) @ (if pc_clickable conf then [''click''] else []) @ pc_plugins conf),
       hd_resize := hd_resize h @ (if pc_resize conf then [i] else [])\<rparr>"

text \<open>\<open>$.plot\<close>: a plot that fails is not bound. The layout and the drawing add the elements.\<close>

definition place_plot :: "plot_conf \<Rightarrow> holder \<Rightarrow> holder \<times> plot_error option" where
  "place_plot conf h =
     (let i = hd_next h
      in case setupCanvases i conf (h\<lparr>hd_next := Suc i\<rparr>) of
           (h1, Some e) \<Rightarrow> (h1, Some e)
         | (h1, None) \<Rightarrow> (bindEvents i conf (h1\<lparr>hd_elements := pc_elements conf\<rparr>), None))"

section \<open>Resizing and the timer of the overlay\<close>

definition onResize :: "holder \<Rightarrow> holder" where
  "onResize h = (if hd_width h = 0 \<or> hd_height h = 0 then h else fst (resize_plot h))"

text \<open>The event reaches every resize handler of the placeholder.\<close>

definition fire_resize :: "holder \<Rightarrow> holder" where
  "fire_resize h = fold (\<lambda>i. onResize) (hd_resize h) h"

definition arm_timer :: "nat \<Rightarrow> holder \<Rightarrow> holder" where
  "arm_timer i h = (if i \<in> set (hd_timers h) then h else h\<lparr>hd_timers := i # hd_timers h\<rparr>)"

section \<open>What can happen to a placeholder\<close>

text \<open>
  Plotting, plotting that fails once the canvases are there (bad data or options), a new size of the page, the event that tells it, the
  mouse over the current plot, and the end of a timer.
\<close>

inductive happens :: "holder \<Rightarrow> holder \<Rightarrow> bool" where
  plots: "distinct (pc_plugins conf) \<Longrightarrow> set (pc_plugins conf) \<inter> {''mousemove'', ''mouseleave'', ''click''} = {} \<Longrightarrow> happens h (fst (place_plot conf h))"
| breaks: "setupCanvases (hd_next h) conf (h\<lparr>hd_next := Suc (hd_next h)\<rparr>) = (h', None) \<Longrightarrow> happens h (h'\<lparr>hd_elements := n\<rparr>)"
| sized: "happens h (h\<lparr>hd_width := w, hd_height := k\<rparr>)"
| resized: "happens h (fire_resize h)"
| moved: "hd_plot h = Some (i, conf) \<Longrightarrow> (''mousemove'', i) \<in> set (hd_bound h) \<Longrightarrow> happens h (arm_timer i h)"
| fired: "i \<in> set (hd_timers h) \<Longrightarrow> happens h (h\<lparr>hd_timers := filter (\<lambda>k. k \<noteq> i) (hd_timers h)\<rparr>)"

definition empty_holder :: "real \<Rightarrow> real \<Rightarrow> holder" where
  "empty_holder w k = \<lparr>hd_width = w, hd_height = k, hd_base = None, hd_overlay = None, hd_elements = 0, hd_plot = None, hd_bound = [],
     hd_resize = [], hd_timers = [], hd_next = 0\<rparr>"

text \<open>One plot at a time: its canvases with one saved state each, and nothing that belongs to another plot.\<close>

definition in_order ::
  "canvas option \<Rightarrow> canvas option \<Rightarrow> (nat \<times> plot_conf) option \<Rightarrow> (string \<times> nat) list \<Rightarrow> nat list \<Rightarrow> nat list \<Rightarrow> bool" where
  "in_order base overlay p bound res timers \<longleftrightarrow>
     (base = None \<and> overlay = None \<and> p = None \<and> bound = [] \<and> res = [] \<and> timers = [])
     \<or> (\<exists>b v i conf. base = Some b \<and> overlay = Some v \<and> p = Some (i, conf)
          \<and> cv_saved b = 1 \<and> cv_saved v = 1 \<and> cv_width v = cv_width b \<and> cv_height v = cv_height b
          \<and> set (map snd bound) \<subseteq> {i} \<and> distinct bound \<and> res \<in> {[], [i]} \<and> timers \<in> {[], [i]} \<and> (\<not> pc_resize conf \<longrightarrow> res = []))"

definition holder_ok :: "holder \<Rightarrow> bool" where
  "holder_ok h \<longleftrightarrow> in_order (hd_base h) (hd_overlay h) (hd_plot h) (hd_bound h) (hd_resize h) (hd_timers h)"

lemma holder_cases [consumes 1, case_names empty full]:
  assumes "holder_ok h"
  obtains "hd_base h = None" "hd_overlay h = None" "hd_plot h = None" "hd_bound h = []" "hd_resize h = []" "hd_timers h = []"
  | b v i conf where "hd_base h = Some b" "hd_overlay h = Some v" "hd_plot h = Some (i, conf)"
      "cv_saved b = 1" "cv_saved v = 1" "cv_width v = cv_width b" "cv_height v = cv_height b"
      "set (map snd (hd_bound h)) \<subseteq> {i}" "distinct (hd_bound h)" "hd_resize h \<in> {[], [i]}" "hd_timers h \<in> {[], [i]}" "\<not> pc_resize conf \<longrightarrow> hd_resize h = []"
  using assms unfolding holder_ok_def in_order_def
  apply (elim disjE exE conjE)
   apply (rule that(1); assumption)
  apply (rule that(2); assumption)
  done

lemma resizeCanvas_size: "cv_width (resizeCanvas w k c) = w" "cv_height (resizeCanvas w k c) = k"
  by (simp_all add: resizeCanvas_def Let_def)

lemma resizeCanvas_saved: "cv_saved c = 1 \<Longrightarrow> cv_saved (resizeCanvas w k c) = 1"
  by (simp add: resizeCanvas_def Let_def)

lemma resize_plot_ok:
  assumes "holder_ok h" "resize_plot h = (h', e)"
  shows "holder_ok h'"
  using assms by (cases rule: holder_cases) (auto simp: resize_plot_def holder_ok_def in_order_def resizeCanvas_size resizeCanvas_saved split: if_splits)

lemma onResize_ok: "holder_ok h \<Longrightarrow> holder_ok (onResize h)"
  using resize_plot_ok [of h] by (cases "resize_plot h") (auto simp: onResize_def)

lemma fire_resize_ok:
  assumes "holder_ok h"
  shows "holder_ok (fire_resize h)"
proof -
  have "holder_ok (fold (\<lambda>i. onResize) is h)" for "is"
    using assms by (induction "is" arbitrary: h) (auto simp: onResize_ok)
  then show ?thesis by (simp add: fire_resize_def)
qed

lemma shutdown_frame:
  "hd_width (shutdown p h) = hd_width h" "hd_height (shutdown p h) = hd_height h" "hd_plot (shutdown p h) = hd_plot h"
  "hd_base (shutdown p h) = hd_base h" "hd_overlay (shutdown p h) = hd_overlay h"
  by (cases p; simp add: shutdown_def Let_def)+

lemma shutdown_clears:
  assumes "holder_ok h" "hd_plot h = Some p"
  shows "hd_timers (shutdown p h) = [] \<and> hd_resize (shutdown p h) = [] \<and> holder_ok (shutdown p h)"
  using assms(1)
proof (cases rule: holder_cases)
  case (full b v i conf)
  then have p: "p = (i, conf)" using assms(2) by simp
  have t: "hd_timers (shutdown p h) = []" using full(11) by (auto simp: p shutdown_def Let_def)
  have r: "hd_resize (shutdown p h) = []" using full(10,12) by (auto simp: p shutdown_def Let_def)
  have "set (map snd (hd_bound (shutdown p h))) \<subseteq> {i}" "distinct (hd_bound (shutdown p h))"
    using full(8,9) by (auto simp: p shutdown_def Let_def)
  then show ?thesis using full p t r by (simp add: holder_ok_def in_order_def shutdown_frame)
qed (use assms(2) in simp_all)

text \<open>Plotting into a placeholder that is in order: either way it is in order again, and without an error the new plot has everything.\<close>

definition plotted :: "nat \<Rightarrow> plot_conf \<Rightarrow> holder \<Rightarrow> bool" where
  "plotted i conf h \<longleftrightarrow>
     hd_plot h = Some (i, conf) \<and> hd_elements h = pc_elements conf \<and> hd_timers h = [] \<and> hd_resize h = (if pc_resize conf then [i] else [])
     \<and> map_option (\<lambda>c. (cv_width c, cv_height c)) (hd_base h) = Some (hd_width h, hd_height h)
     \<and> map_option (\<lambda>c. (cv_width c, cv_height c)) (hd_overlay h) = Some (hd_width h, hd_height h)
     \<and> hd_bound h = map (\<lambda>e. (e, i))
         ((if pc_hoverable conf then [''mousemove'', ''mouseleave''] else []) @ (if pc_clickable conf then [''click''] else []) @ pc_plugins conf)"

lemma handlers_distinct:
  assumes "distinct (pc_plugins conf)" "set (pc_plugins conf) \<inter> {''mousemove'', ''mouseleave'', ''click''} = {}"
  shows "distinct (map (\<lambda>e. (e, i :: nat))
    ((if pc_hoverable conf then [''mousemove'', ''mouseleave''] else []) @ (if pc_clickable conf then [''click''] else []) @ pc_plugins conf))"
  using assms by (auto simp: distinct_map inj_on_def)

lemma setupCanvases_full:
  assumes "hd_base h = Some b" "hd_overlay h = Some v" "hd_plot h = Some old"
  shows "setupCanvases i conf h = (if invalid h then (shutdown old h, Some (InvalidDimensions (hd_width h) (hd_height h)))
    else ((shutdown old h)\<lparr>hd_base := Some (resizeCanvas (hd_width h) (hd_height h) b), hd_overlay := Some (resizeCanvas (hd_width h) (hd_height h) v),
            hd_bound := [], hd_elements := 0, hd_plot := Some (i, conf)\<rparr>, None))"
  using assms by (simp add: setupCanvases_def resize_plot_def shutdown_frame invalid_def)

lemma setupCanvases_empty:
  assumes "hd_base h = None" "hd_overlay h = None" "hd_bound h = []"
  shows "setupCanvases i conf h = (if invalid h then (h\<lparr>hd_elements := 0\<rparr>, Some (InvalidDimensions (hd_width h) (hd_height h)))
    else (h\<lparr>hd_elements := 0, hd_base := Some (makeCanvas (hd_width h) (hd_height h)), hd_overlay := Some (makeCanvas (hd_width h) (hd_height h)),
            hd_plot := Some (i, conf)\<rparr>, None))"
  using assms by (cases h) (simp add: setupCanvases_def invalid_def Let_def)

lemma setupCanvases_ok:
  assumes "holder_ok h" "setupCanvases i conf h = (h', None)"
  shows "plotted i conf (bindEvents i conf (h'\<lparr>hd_elements := pc_elements conf\<rparr>)) \<and> hd_bound h' = []
    \<and> (\<exists>b v. hd_base h' = Some b \<and> hd_overlay h' = Some v \<and> cv_saved b = 1 \<and> cv_saved v = 1)"
  using assms(1)
proof (cases rule: holder_cases)
  case empty
  then show ?thesis using assms(2) setupCanvases_empty [of h i conf]
    by (auto simp: makeCanvas_def plotted_def bindEvents_def split: if_splits)
next
  case (full b v k c)
  then show ?thesis using assms(2) setupCanvases_full [OF full(1-3), of i conf] shutdown_clears [OF assms(1) full(3)]
    by (auto simp: plotted_def bindEvents_def resizeCanvas_size resizeCanvas_saved shutdown_frame split: if_splits)
qed

lemma setupCanvases_in_order:
  assumes "holder_ok h" "setupCanvases i conf h = (h', None)"
  shows "holder_ok h'"
  using assms(1)
proof (cases rule: holder_cases)
  case empty
  then show ?thesis using assms(2) setupCanvases_empty [of h i conf]
    by (auto simp: makeCanvas_def holder_ok_def in_order_def split: if_splits)
next
  case (full b v k c)
  then show ?thesis using assms(2) setupCanvases_full [OF full(1-3), of i conf] shutdown_clears [OF assms(1) full(3)]
    by (auto simp: holder_ok_def in_order_def resizeCanvas_size resizeCanvas_saved split: if_splits)
qed

lemma plotted_holder_ok:
  assumes "plotted i conf h" "distinct (hd_bound h)"
    and "hd_base h = Some b" "hd_overlay h = Some v" "cv_saved b = 1" "cv_saved v = 1"
  shows "holder_ok h"
  using assms by (auto simp: plotted_def holder_ok_def in_order_def)

lemma setupCanvases_fails:
  assumes "holder_ok h" "setupCanvases i conf h = (h', Some e)"
  shows "holder_ok h' \<and> invalid h \<and> e = InvalidDimensions (hd_width h) (hd_height h)"
  using assms(1)
proof (cases rule: holder_cases)
  case empty
  then show ?thesis using assms setupCanvases_empty [of h i conf] by (auto simp: holder_ok_def split: if_splits)
next
  case (full b v k c)
  then show ?thesis using assms(2) setupCanvases_full [OF full(1-3), of i conf] shutdown_clears [OF assms(1) full(3)]
    by (auto split: if_splits)
qed

lemma place_plot_ok:
  assumes "holder_ok h" "distinct (pc_plugins conf)" "set (pc_plugins conf) \<inter> {''mousemove'', ''mouseleave'', ''click''} = {}"
    and "place_plot conf h = (h', e)"
  shows "holder_ok h' \<and> (case e of None \<Rightarrow> \<not> invalid h \<and> plotted (hd_next h) conf h'
    | Some x \<Rightarrow> invalid h \<and> x = InvalidDimensions (hd_width h) (hd_height h))"
proof -
  let ?h = "h\<lparr>hd_next := Suc (hd_next h)\<rparr>"
  have ok: "holder_ok ?h" using assms(1) by (simp add: holder_ok_def)
  have inv: "invalid ?h = invalid h" by (simp add: invalid_def)
  obtain h1 e1 where s: "setupCanvases (hd_next h) conf ?h = (h1, e1)" by fastforce
  show ?thesis
  proof (cases e1)
    case (Some x)
    then show ?thesis using setupCanvases_fails [OF ok, of "hd_next h" conf h1 x] s assms(4) inv by (auto simp: place_plot_def Let_def)
  next
    case None
    let ?n = "bindEvents (hd_next h) conf (h1\<lparr>hd_elements := pc_elements conf\<rparr>)"
    have h': "h' = ?n" "e = None" using assms(4) s None by (auto simp: place_plot_def Let_def)
    obtain b v where n: "plotted (hd_next h) conf ?n" "hd_base h1 = Some b" "hd_overlay h1 = Some v" "cv_saved b = 1" "cv_saved v = 1"
      using setupCanvases_ok [OF ok, of "hd_next h" conf h1] s None by auto
    have "holder_ok ?n"
      by (rule plotted_holder_ok [OF n(1) _ _ _ n(4,5)])
        (use n(1) handlers_distinct [OF assms(2,3), of "hd_next h"] in \<open>simp_all add: plotted_def bindEvents_def n\<close>)
    moreover have "\<not> invalid ?h"
      using ok
    proof (cases rule: holder_cases)
      case empty
      then show ?thesis using s None setupCanvases_empty [of ?h "hd_next h" conf] by (auto split: if_splits)
    next
      case (full b v k c)
      then show ?thesis using s None setupCanvases_full [OF full(1-3), of "hd_next h" conf] by (auto split: if_splits)
    qed
    ultimately show ?thesis using n(1) inv by (simp add: h')
  qed
qed

lemma happens_ok:
  assumes "happens h h'" "holder_ok h"
  shows "holder_ok h'"
  using assms
proof (induction rule: happens.induct)
  case (plots conf h)
  then show ?case using place_plot_ok [of h conf] by (cases "place_plot conf h") auto
next
  case (breaks h conf h' n)
  have "holder_ok (h\<lparr>hd_next := Suc (hd_next h)\<rparr>)" using breaks.prems by (simp add: holder_ok_def)
  then have "holder_ok h'" using breaks.hyps by (rule setupCanvases_in_order)
  then show ?case by (simp add: holder_ok_def)
next
  case (resized h)
  then show ?case by (rule fire_resize_ok)
qed (auto simp: holder_ok_def in_order_def arm_timer_def)


definition demo_conf :: plot_conf where
  "demo_conf = \<lparr>pc_hoverable = True, pc_clickable = False, pc_plugins = [''selection''], pc_resize = True, pc_elements = 2\<rparr>"


section \<open>Placeholders that something else has changed\<close>

text \<open>A placeholder that has lost its overlay cannot be plotted into.\<close>

lemma lost_overlay: "hd_base h = Some b \<Longrightarrow> hd_overlay h = None \<Longrightarrow> setupCanvases i conf h = (h, Some TypeError)"
  by (simp add: setupCanvases_def)

text \<open>One that the page has emptied keeps the resize handler of its old plot beside the one of the new plot.\<close>

lemma emptied_placeholder_resizes_twice:
  assumes "plotted i conf h" "pc_resize conf" "\<not> invalid h"
  shows "hd_resize (fst (place_plot conf (h\<lparr>hd_base := None, hd_overlay := None, hd_elements := 0, hd_bound := []\<rparr>))) = [i, hd_next h]"
  using assms by (simp add: plotted_def place_plot_def setupCanvases_def bindEvents_def invalid_def Let_def)

end
