(* ===== verification/Option_Trees.thy ===== *)
theory Option_Trees
  imports JS_Prelude
begin

text \<open>
  Option objects as trees, and the merging that the plotting library leaves to \<open>$.extend(true, ..)\<close>
  (\<open>static/flot/jquery.js\<close>, \<open>jQuery.extend\<close>): objects and arrays are merged member by member, any other value replaces what
  was there, and \<open>undefined\<close> replaces nothing.
\<close>

section \<open>Values\<close>

text \<open>
  Functions and objects with a prototype of their own (elements of the page, dates) are passed on as they are and known by a number only.
  Text is kept in pieces.
\<close>

datatype val =
    VUndef
  | VNull
  | VBool bool
  | VNum real
  | VStr markup
  | VFun nat
  | VOther nat
  | VArr "val list"
  | VObj "(string \<times> val) list"

definition lookup :: "string \<Rightarrow> (string \<times> val) list \<Rightarrow> val" where
  "lookup k ps = (case map_of ps k of Some v \<Rightarrow> v | None \<Rightarrow> VUndef)"

definition field :: "string \<Rightarrow> val \<Rightarrow> val" where
  "field k v = (case v of VObj ps \<Rightarrow> lookup k ps | _ \<Rightarrow> VUndef)"

definition members :: "val \<Rightarrow> (string \<times> val) list" where
  "members v = (case v of VObj ps \<Rightarrow> ps | _ \<Rightarrow> [])"

definition elements :: "val \<Rightarrow> val list" where
  "elements v = (case v of VArr vs \<Rightarrow> vs | _ \<Rightarrow> [])"

section \<open>Merging\<close>

text \<open>
  What becomes of a value when another one is merged into it. In an array that is merged, elements beyond the end of the new one stay.
\<close>

fun merge_val :: "val \<Rightarrow> val \<Rightarrow> val" and merge_members :: "(string \<times> val) list \<Rightarrow> (string \<times> val) list \<Rightarrow> (string \<times> val) list"
  and merge_elements :: "val list \<Rightarrow> val list \<Rightarrow> val list" where
  "merge_val src VUndef = src"
| "merge_val src (VObj ps) = VObj (merge_members (members src) ps)"
| "merge_val src (VArr vs) = VArr (merge_elements (elements src) vs)"
| "merge_val src v = v"
| "merge_members ts [] = ts"
| "merge_members ts ((k, v) # ps) = merge_members (if v = VUndef then ts else set_key k (merge_val (lookup k ts) v) ts) ps"
| "merge_elements ts [] = ts"
| "merge_elements [] (v # vs) = merge_val VUndef v # merge_elements [] vs"
| "merge_elements (t # ts) (v # vs) = merge_val t v # merge_elements ts vs"

text \<open>\<open>$.extend(true, target, a, b, ..)\<close>: arguments that are \<open>null\<close> or \<open>undefined\<close> are skipped.\<close>

definition extend_deep :: "val \<Rightarrow> val list \<Rightarrow> val" where
  "extend_deep target args = foldl (\<lambda>t a. if a = VNull \<or> a = VUndef then t else VObj (merge_members (members t) (members a))) target args"

section \<open>Members of merged objects\<close>

text \<open>Objects have every key once, at all depths.\<close>

fun keys_once :: "val \<Rightarrow> bool" where
  "keys_once (VObj ps) = (distinct (map fst ps) \<and> list_all (\<lambda>p. keys_once (snd p)) ps)"
| "keys_once (VArr vs) = list_all keys_once vs"
| "keys_once _ = True"

lemma lookup_set_key: "lookup k (set_key l v ps) = (if k = l then v else lookup k ps)"
  by (simp add: lookup_def map_of_set_key)

lemma merge_members_lookup:
  assumes "distinct (map fst ps)"
  shows "lookup k (merge_members ts ps) = merge_val (lookup k ts) (lookup k ps)"
  using assms
proof (induction ps arbitrary: ts)
  case (Cons p ps)
  obtain l v where p: "p = (l, v)" by fastforce
  have l: "lookup l ps = VUndef" using Cons.prems by (simp add: p lookup_def map_of_eq_None_iff [THEN iffD2])
  have "lookup k ((l, v) # ps) = (if k = l then v else lookup k ps)" by (simp add: lookup_def)
  then show ?case using Cons l by (auto simp: p lookup_set_key)
qed (simp add: lookup_def)

lemma field_merge:
  assumes "keys_once c"
  shows "field k (merge_val s c) = (case c of VObj ps \<Rightarrow> merge_val (field k s) (field k c) | VUndef \<Rightarrow> field k s | _ \<Rightarrow> VUndef)"
  using assms by (cases c; cases s) (simp_all add: field_def members_def merge_members_lookup lookup_def [of k "[]"])

text \<open>Along a path on which the new tree has objects only, merging commutes with going down the path.\<close>

fun at_path :: "string list \<Rightarrow> val \<Rightarrow> val" where
  "at_path [] v = v"
| "at_path (k # p) v = at_path p (field k v)"

fun open_path :: "string list \<Rightarrow> val \<Rightarrow> bool" where
  "open_path [] v = True"
| "open_path (k # p) v = (case v of VObj ps \<Rightarrow> open_path p (field k v) | VUndef \<Rightarrow> True | _ \<Rightarrow> False)"

lemma at_undef: "at_path p VUndef = VUndef"
  by (induction p) (simp_all add: field_def)

lemma keys_once_field: "keys_once v \<Longrightarrow> keys_once (field k v)"
  by (cases v) (auto simp: field_def lookup_def list_all_iff split: option.split dest: map_of_SomeD)

lemma merge_at_path:
  assumes "keys_once c" "open_path p c"
  shows "at_path p (merge_val s c) = merge_val (at_path p s) (at_path p c)"
  using assms
proof (induction p arbitrary: s c)
  case (Cons k p)
  show ?case
  proof (cases c)
    case (VObj ps)
    have "field k (merge_val s c) = merge_val (field k s) (field k c)" using field_merge [OF Cons.prems(1), of k s] VObj by simp
    then show ?thesis using Cons.IH [of "field k c" "field k s"] keys_once_field [OF Cons.prems(1)] Cons.prems(2) VObj by simp
  next
    case VUndef
    then show ?thesis by (simp add: field_def [of k VUndef] at_undef)
  qed (use Cons.prems in simp_all)
qed simp

end
