(* ===== verification/Parse_Options.thy ===== *)
theory Parse_Options
  imports Option_Trees Labels "HOL-Library.Monad_Syntax"
begin

text \<open>
  The options of a plot, \<open>static/flot/jquery.flot.js\<close>: the defaults, \<open>initPlugins\<close> with the options of the plugins, \<open>parseOptions\<close> and
  \<open>parseData\<close>, as programs on option trees. \<open>None\<close> is the error of reading a member of \<open>null\<close> or \<open>undefined\<close>.
\<close>

section \<open>Reading and writing members\<close>

definition nullish :: "val \<Rightarrow> bool" where
  "nullish v \<longleftrightarrow> v = VNull \<or> v = VUndef"

definition truthy :: "(real \<Rightarrow> string) \<Rightarrow> val \<Rightarrow> bool" where
  "truthy ns v =
     (case v of VUndef \<Rightarrow> False | VNull \<Rightarrow> False | VBool b \<Rightarrow> b | VNum x \<Rightarrow> x \<noteq> 0 | VStr t \<Rightarrow> has_text ns t | _ \<Rightarrow> True)"

definition member_of :: "string \<Rightarrow> val \<Rightarrow> val option" where
  "member_of k v = (if nullish v then None else Some (field k v))"

definition put :: "string \<Rightarrow> val \<Rightarrow> val \<Rightarrow> val" where
  "put k x v = (case v of VObj ps \<Rightarrow> VObj (set_key k x ps) | _ \<Rightarrow> v)"

text \<open>\<open>o[s][k]\<close>, and \<open>o[s][k] = x\<close>.\<close>

definition member2 :: "string \<Rightarrow> string \<Rightarrow> val \<Rightarrow> val option" where
  "member2 s k v = Option.bind (member_of s v) (member_of k)"

definition put2 :: "string \<Rightarrow> string \<Rightarrow> val \<Rightarrow> val \<Rightarrow> val option" where
  "put2 s k x v = Option.bind (member_of s v) (\<lambda>w. if nullish w then None else Some (put s (put k x w) v))"

text \<open>\<open>if (o[s][k] == null) o[s][k] = x\<close>\<close>

definition default2 :: "string \<Rightarrow> string \<Rightarrow> val \<Rightarrow> val \<Rightarrow> val option" where
  "default2 s k x v = Option.bind (member2 s k v) (\<lambda>w. if nullish w then put2 s k x v else Some v)"

section \<open>Defaults\<close>

definition str :: "string \<Rightarrow> val" where
  "str t = VStr [T t]"

definition default_xaxis :: val where
  "default_xaxis = VObj
     [(''show'', VNull), (''position'', str ''bottom''), (''mode'', VNull), (''color'', VNull), (''tickColor'', VNull), (''transform'', VNull),
      (''inverseTransform'', VNull), (''min'', VNull), (''max'', VNull), (''autoscaleMargin'', VNull), (''ticks'', VNull), (''tickFormatter'', VNull),
      (''labelWidth'', VNull), (''labelHeight'', VNull), (''reserveSpace'', VNull), (''tickLength'', VNull), (''alignTicksWithAxis'', VNull),
      (''tickDecimals'', VNull), (''tickSize'', VNull), (''minTickSize'', VNull), (''monthNames'', VNull), (''timeformat'', VNull),
      (''twelveHourClock'', VBool False)]"

definition default_series :: val where
  "default_series = VObj
     [(''points'', VObj [(''show'', VBool False), (''radius'', VNum 3), (''lineWidth'', VNum 2), (''fill'', VBool True), (''fillColor'', str ''#ffffff''),
         (''symbol'', str ''circle'')]),
      (''lines'', VObj [(''lineWidth'', VNum 2), (''fill'', VBool False), (''fillColor'', VNull), (''steps'', VBool False)]),
      (''bars'', VObj [(''show'', VBool False), (''lineWidth'', VNum 2), (''barWidth'', VNum 1), (''fill'', VBool True), (''fillColor'', VNull),
         (''align'', str ''left''), (''horizontal'', VBool False)]),
      (''shadowSize'', VNum 3)]"

definition default_options :: val where
  "default_options = VObj
     [(''colors'', VArr (map str [''#edc240'', ''#afd8f8'', ''#cb4b4b'', ''#4da74d'', ''#9440ed''])),
      (''legend'', VObj [(''show'', VBool True), (''noColumns'', VNum 1), (''labelFormatter'', VNull), (''labelBoxBorderColor'', str ''#ccc''),
         (''container'', VNull), (''position'', str ''ne''), (''margin'', VNum 5), (''backgroundColor'', VNull), (''backgroundOpacity'', VNum 0.85)]),
      (''xaxis'', default_xaxis),
      (''yaxis'', VObj [(''autoscaleMargin'', VNum 0.02), (''position'', str ''left'')]),
      (''xaxes'', VArr []), (''yaxes'', VArr []),
      (''series'', default_series),
      (''grid'', VObj [(''show'', VBool True), (''aboveData'', VBool False), (''color'', str ''#545454''), (''backgroundColor'', VNull),
         (''borderColor'', VNull), (''tickColor'', VNull), (''labelMargin'', VNum 5), (''axisMargin'', VNum 8), (''borderWidth'', VNum 2),
         (''minBorderMargin'', VNull), (''markings'', VNull), (''markingsColor'', str ''#f4f4f4''), (''markingsLineWidth'', VNum 2),
         (''clickable'', VBool False), (''hoverable'', VBool False), (''autoHighlight'', VBool True), (''mouseActiveRadius'', VNum 10)]),
      (''hooks'', VObj [])]"

text \<open>The plugins add their options one after the other; the calls of their \<open>init\<close> are not modelled.\<close>

definition initPlugins :: "val list \<Rightarrow> val \<Rightarrow> val" where
  "initPlugins plugins opts = foldl (\<lambda>t p. extend_deep t [p]) opts plugins"

section \<open>Axes\<close>

text \<open>A tick colour is made from the colour of the grid; what is no text is parsed as no colour.\<close>

definition faded :: "(real \<Rightarrow> string) \<Rightarrow> val \<Rightarrow> val" where
  "faded ns v = VStr (toString (scale ''a'' 0.22 (case v of VStr t \<Rightarrow> parse_css ns t | _ \<Rightarrow> parse [])))"

text \<open>The loop over \<open>xaxes\<close> or \<open>yaxes\<close>, which has at least one round. Lists of axes that are no arrays are outside the model.\<close>

definition axes_options :: "string \<Rightarrow> string \<Rightarrow> val \<Rightarrow> val option" where
  "axes_options sec lst v =
     Option.bind (member_of sec v) (\<lambda>base. Option.bind (member_of lst v) (\<lambda>l.
       case l of
         VArr vs \<Rightarrow> Some (put lst (VArr (map (\<lambda>a. extend_deep (VObj []) [base, a]) (if vs = [] then [VUndef] else vs))) v)
       | _ \<Rightarrow> None))"

text \<open>The options \<open>x2axis\<close> and \<open>y2axis\<close> of old give the second axis.\<close>

definition second_axis :: "(real \<Rightarrow> string) \<Rightarrow> string \<Rightarrow> string \<Rightarrow> string \<Rightarrow> string \<Rightarrow> val \<Rightarrow> val" where
  "second_axis ns old sec lst pos v =
     (if truthy ns (field old v) then
        let a = put ''position'' (str pos) (extend_deep (VObj []) [field sec v, field old v]); vs = elements (field lst v)
        in put lst (VArr ((vs @ replicate (2 - length vs) VUndef)[1 := a])) v
      else v)"

definition noTicks_option :: "(real \<Rightarrow> string) \<Rightarrow> string \<Rightarrow> val \<Rightarrow> val option" where
  "noTicks_option ns sec v =
     Option.bind (member2 sec ''noTicks'' v) (\<lambda>n.
       if truthy ns n then default2 sec ''ticks'' n v else Some v)"

text \<open>What is merged into a group that is no object is lost. \<open>if (o.lines) $.extend(true, o.series.lines, o.lines)\<close>, and likewise.\<close>

definition merge_group :: "(real \<Rightarrow> string) \<Rightarrow> string \<Rightarrow> val \<Rightarrow> val option" where
  "merge_group ns k v =
     (if truthy ns (field k v)
      then Option.bind (member2 ''series'' k v) (\<lambda>w. case w of VObj _ \<Rightarrow> put2 ''series'' k (extend_deep w [field k v]) v | _ \<Rightarrow> Some v) else Some v)"

section \<open>parseOptions\<close>

definition colors_filled :: "(real \<Rightarrow> string) \<Rightarrow> val \<Rightarrow> val option" where
  "colors_filled ns o1 =
     do {
       color \<leftarrow> member2 ''grid'' ''color'' o1;
       o2 \<leftarrow> default2 ''xaxis'' ''color'' color o1;
       o3 \<leftarrow> default2 ''yaxis'' ''color'' color o2;
       tickColor \<leftarrow> member2 ''grid'' ''tickColor'' o3;
       o4 \<leftarrow> default2 ''xaxis'' ''tickColor'' tickColor o3;
       o5 \<leftarrow> default2 ''yaxis'' ''tickColor'' tickColor o4;
       o6 \<leftarrow> default2 ''grid'' ''borderColor'' color o5;
       default2 ''grid'' ''tickColor'' (faded ns color) o6
     }"

definition old_options :: "(real \<Rightarrow> string) \<Rightarrow> val \<Rightarrow> val option" where
  "old_options ns o1 =
     do {
       o2 \<leftarrow> noTicks_option ns ''xaxis'' o1;
       o3 \<leftarrow> noTicks_option ns ''yaxis'' o2;
       let o5 = second_axis ns ''y2axis'' ''yaxis'' ''yaxes'' ''right'' (second_axis ns ''x2axis'' ''xaxis'' ''xaxes'' ''top'' o3);
       areas \<leftarrow> member2 ''grid'' ''coloredAreas'' o5;
       o6 \<leftarrow> (if truthy ns areas then put2 ''grid'' ''markings'' areas o5 else Some o5);
       areasColor \<leftarrow> member2 ''grid'' ''coloredAreasColor'' o6;
       o7 \<leftarrow> (if truthy ns areasColor then put2 ''grid'' ''markingsColor'' areasColor o6 else Some o6);
       o8 \<leftarrow> merge_group ns ''lines'' o7;
       o9 \<leftarrow> merge_group ns ''points'' o8;
       o10 \<leftarrow> merge_group ns ''bars'' o9;
       if nullish (field ''shadowSize'' o10) then Some o10 else put2 ''series'' ''shadowSize'' (field ''shadowSize'' o10) o10
     }"

text \<open>The hooks of the options go behind those of the plugins; a hook that is no list is ignored.\<close>

definition add_hooks :: "val \<Rightarrow> (string \<times> val list) list \<Rightarrow> (string \<times> val list) list option" where
  "add_hooks v hooks = map_option (\<lambda>h. map (\<lambda>(n, fs). (n, fs @ elements (field n h))) hooks) (Option.bind (member_of ''hooks'' v) (\<lambda>h. if nullish h then None else Some h))"

text \<open>The options, the options of the axes by number, and the hooks. Hooks on the options themselves are not modelled.\<close>

definition parseOptions ::
  "(real \<Rightarrow> string) \<Rightarrow> val \<Rightarrow> (string \<times> val list) list \<Rightarrow> val \<Rightarrow> (val \<times> val list \<times> val list \<times> (string \<times> val list) list) option" where
  "parseOptions ns options hooks opts =
     do {
       o2 \<leftarrow> colors_filled ns (extend_deep options [opts]);
       o3 \<leftarrow> axes_options ''xaxis'' ''xaxes'' o2;
       o4 \<leftarrow> axes_options ''yaxis'' ''yaxes'' o3;
       o5 \<leftarrow> old_options ns o4;
       hooks' \<leftarrow> add_hooks o5 hooks;
       Some (o5, elements (field ''xaxes'' o5), elements (field ''yaxes'' o5), hooks')
     }"

section \<open>parseData\<close>

text \<open>
  A series is an object with \<open>data\<close>, merged into the options of the plot for series, or the data alone. The data are moved, not copied; the
  user's object is left as it was.
\<close>

definition without_key :: "string \<Rightarrow> val \<Rightarrow> val" where
  "without_key k v = (case v of VObj ps \<Rightarrow> VObj (filter (\<lambda>p. fst p \<noteq> k) ps) | _ \<Rightarrow> v)"

definition parse_series :: "val \<Rightarrow> val \<Rightarrow> val option" where
  "parse_series series d =
     (let s = extend_deep (VObj []) [series]
      in Option.bind (member_of ''data'' d) (\<lambda>v.
           Some (if nullish v then put ''data'' d s else extend_deep (put ''data'' v s) [without_key ''data'' d])))"

fun parseData :: "val \<Rightarrow> val list \<Rightarrow> val list option" where
  "parseData series [] = Some []"
| "parseData series (d # ds) = Option.bind (parse_series series d) (\<lambda>s. map_option (\<lambda>ss. s # ss) (parseData series ds))"

section \<open>Members through the steps\<close>

lemma field_put: "field k' (put k x v) = (case v of VObj _ \<Rightarrow> if k' = k then x else field k' v | _ \<Rightarrow> field k' v)"
  by (cases v) (simp_all add: put_def field_def lookup_set_key)

lemma put2_field:
  assumes "put2 s k x v = Some v'"
  shows "field s' v' = (if s' = s then put k x (field s v) else field s' v)"
proof -
  have v': "v' = put s (put k x (field s v)) v" "\<not> nullish (field s v)"
    using assms by (auto simp: put2_def member_of_def split: if_splits)
  then obtain ps where "v = VObj ps" by (cases v) (auto simp: field_def nullish_def)
  then show ?thesis by (simp add: v'(1) field_put)
qed

lemma default2_field:
  assumes "default2 s k x v = Some v'"
  shows "field s' v' = (if s' = s \<and> nullish (field k (field s v)) then put k x (field s v) else field s' v)"
proof (cases "nullish (field k (field s v))")
  case True
  then have "put2 s k x v = Some v'" using assms by (auto simp: default2_def member2_def member_of_def split: if_splits)
  then show ?thesis using put2_field [of s k x v v' s'] True by simp
next
  case False
  then have "v' = v" using assms by (auto simp: default2_def member2_def member_of_def split: if_splits)
  then show ?thesis using False by simp
qed

text \<open>The first value that is defined.\<close>

definition given :: "val \<Rightarrow> val \<Rightarrow> val" where
  "given x y = (if y = VUndef then x else y)"

definition leaf :: "val \<Rightarrow> bool" where
  "leaf v = (case v of VObj _ \<Rightarrow> False | VArr _ \<Rightarrow> False | _ \<Rightarrow> True)"

lemma merge_leaf: "leaf y \<Longrightarrow> merge_val x y = given x y"
  by (cases y) (simp_all add: leaf_def given_def)

lemma given_leaf: "leaf x \<Longrightarrow> leaf y \<Longrightarrow> leaf (given x y)"
  by (simp add: given_def)

lemma extend_one: "extend_deep (VObj ts) [a] = (if nullish a then VObj ts else VObj (merge_members ts (members a)))"
  by (simp add: extend_deep_def nullish_def members_def)

text \<open>A member of an object that something is merged into.\<close>

lemma field_extend_one:
  assumes "keys_once a"
  shows "field k (extend_deep (VObj ts) [a]) = merge_val (field k (VObj ts)) (field k a)"
proof (cases a)
  case (VObj ps)
  then show ?thesis using assms by (simp add: extend_one nullish_def members_def field_def merge_members_lookup)
qed (simp_all add: extend_one nullish_def members_def field_def)

lemma field_merge_open:
  assumes "keys_once a" "open_path [k] a"
  shows "field k (merge_val x a) = merge_val (field k x) (field k a)"
  using merge_at_path [OF assms, of x] by simp

text \<open>The options of one axis: its own over those of all axes.\<close>

lemma field_axis:
  assumes "keys_once base" "keys_once a" "leaf (field k base)" "leaf (field k a)"
  shows "field k (extend_deep (VObj []) [base, a]) = given (field k base) (field k a)"
proof -
  have "extend_deep (VObj []) [base] = VObj (members (extend_deep (VObj []) [base]))"
    by (simp add: extend_one members_def)
  then have e: "extend_deep (VObj []) [base, a] = extend_deep (VObj (members (extend_deep (VObj []) [base]))) [a]"
    by (simp add: extend_deep_def)
  have "field k (VObj []) = VUndef" by (simp add: field_def lookup_def)
  then have "field k (extend_deep (VObj []) [base]) = field k base"
    unfolding field_extend_one [OF assms(1)] merge_leaf [OF assms(3)] by (simp add: given_def)
  moreover have "field k (VObj (members (extend_deep (VObj []) [base]))) = field k (extend_deep (VObj []) [base])"
    by (simp add: extend_one members_def)
  ultimately show ?thesis unfolding e field_extend_one [OF assms(2)] merge_leaf [OF assms(4)] by simp
qed

lemma merge_elements_new: "merge_elements [] vs = map (merge_val VUndef) vs"
  by (induction vs) simp_all

text \<open>What the steps after the axes leave of the options of the axes.\<close>

lemma axes_options_list:
  assumes "axes_options sec lst v = Some v'"
  shows "\<exists>vs. field lst v = VArr vs
    \<and> field lst v' = VArr (map (\<lambda>a. extend_deep (VObj []) [field sec v, a]) (if vs = [] then [VUndef] else vs))
    \<and> (\<forall>s. s \<noteq> lst \<longrightarrow> field s v' = field s v)"
proof -
  obtain vs where vs: "field lst v = VArr vs" "v' = put lst (VArr (map (\<lambda>a. extend_deep (VObj []) [field sec v, a]) (if vs = [] then [VUndef] else vs))) v"
    using assms by (auto simp: axes_options_def member_of_def split: if_splits val.splits)
  then obtain ps where "v = VObj ps" by (cases v) (auto simp: field_def)
  then show ?thesis using vs by (simp add: field_put)
qed

lemma noTicks_option_field: "noTicks_option ns sec v = Some v' \<Longrightarrow> s \<noteq> sec \<Longrightarrow> field s v' = field s v"
  by (auto simp: noTicks_option_def default2_field split: if_splits simp: bind_eq_Some_conv)

lemma merge_group_field:
  assumes "merge_group ns k v = Some v'" "s \<noteq> ''series''"
  shows "field s v' = field s v"
proof (cases "truthy ns (field k v)")
  case True
  then obtain w where "(case w of VObj _ \<Rightarrow> put2 ''series'' k (extend_deep w [field k v]) v | _ \<Rightarrow> Some v) = Some v'"
    using assms(1) by (auto simp: merge_group_def bind_eq_Some_conv)
  then show ?thesis using assms(2) by (cases w) (simp_all add: put2_field)
qed (use assms in \<open>simp add: merge_group_def\<close>)

lemma second_axis_field: "s \<noteq> lst \<Longrightarrow> field s (second_axis ns old sec lst pos v) = field s v"
  by (cases v) (simp_all add: second_axis_def Let_def field_put)

lemma second_axis_nth:
  assumes "field lst v = VArr vs" "i < length vs" "i = 1 \<longrightarrow> \<not> truthy ns (field old v)"
  shows "\<exists>ws. field lst (second_axis ns old sec lst pos v) = VArr ws \<and> i < length ws \<and> ws ! i = vs ! i"
proof -
  obtain ps where "v = VObj ps" using assms(1) by (cases v) (auto simp: field_def)
  then show ?thesis using assms by (auto simp: second_axis_def Let_def field_put elements_def nth_append nth_list_update)
qed

lemma old_options_field:
  assumes "old_options ns v = Some v'" "s \<notin> {''series'', ''grid'', ''xaxis'', ''yaxis''}"
  shows "\<exists>w. (\<forall>t. t \<notin> {''xaxis'', ''yaxis''} \<longrightarrow> field t w = field t v)
    \<and> field s v' = field s (second_axis ns ''y2axis'' ''yaxis'' ''yaxes'' ''right'' (second_axis ns ''x2axis'' ''xaxis'' ''xaxes'' ''top'' w))"
proof -
  obtain o2 o3 o6 o7 o8 o9 o10 areas areasColor where o': "noTicks_option ns ''xaxis'' v = Some o2" "noTicks_option ns ''yaxis'' o2 = Some o3"
    "(if truthy ns areas then put2 ''grid'' ''markings'' areas (second_axis ns ''y2axis'' ''yaxis'' ''yaxes'' ''right'' (second_axis ns ''x2axis'' ''xaxis'' ''xaxes'' ''top'' o3))
      else Some (second_axis ns ''y2axis'' ''yaxis'' ''yaxes'' ''right'' (second_axis ns ''x2axis'' ''xaxis'' ''xaxes'' ''top'' o3))) = Some o6"
    "(if truthy ns areasColor then put2 ''grid'' ''markingsColor'' areasColor o6 else Some o6) = Some o7"
    "merge_group ns ''lines'' o7 = Some o8" "merge_group ns ''points'' o8 = Some o9" "merge_group ns ''bars'' o9 = Some o10"
    "(if nullish (field ''shadowSize'' o10) then Some o10 else put2 ''series'' ''shadowSize'' (field ''shadowSize'' o10) o10) = Some v'"
    using assms(1) unfolding old_options_def Let_def by (auto simp: bind_eq_Some_conv)
  have ns: "s \<noteq> ''series''" "s \<noteq> ''grid''" using assms(2) by auto
  have "field s v' = field s o10" using o'(8) ns put2_field by (auto split: if_splits)
  also have "\<dots> = field s o7" using merge_group_field [OF o'(5) ns(1)] merge_group_field [OF o'(6) ns(1)] merge_group_field [OF o'(7) ns(1)] by simp
  also have "\<dots> = field s o6" using o'(4) ns put2_field by (auto split: if_splits)
  also have "\<dots> = field s (second_axis ns ''y2axis'' ''yaxis'' ''yaxes'' ''right'' (second_axis ns ''x2axis'' ''xaxis'' ''xaxes'' ''top'' o3))"
    using o'(3) ns put2_field by (auto split: if_splits)
  finally show ?thesis
    using noTicks_option_field [OF o'(1)] noTicks_option_field [OF o'(2)] by (intro exI [of _ o3]) simp
qed

text \<open>The colours of the axes are filled in; all other options of the axes stay as they are.\<close>

lemma colors_filled_field:
  assumes "colors_filled ns v = Some v'"
  shows "s \<notin> {''xaxis'', ''yaxis'', ''grid''} \<Longrightarrow> field s v' = field s v"
    and "sec \<in> {''xaxis'', ''yaxis''} \<Longrightarrow> \<exists>c t. c = field ''color'' (field ''grid'' v) \<and> t = field ''tickColor'' (field ''grid'' v) \<and>
      (let a = field sec v; b = (if nullish (field ''color'' a) then put ''color'' c a else a)
       in field sec v' = (if nullish (field ''tickColor'' b) then put ''tickColor'' t b else b))"
proof -
  obtain color tickColor o2 o3 o4 o5 o6 where o': "member2 ''grid'' ''color'' v = Some color" "default2 ''xaxis'' ''color'' color v = Some o2"
    "default2 ''yaxis'' ''color'' color o2 = Some o3" "member2 ''grid'' ''tickColor'' o3 = Some tickColor"
    "default2 ''xaxis'' ''tickColor'' tickColor o3 = Some o4" "default2 ''yaxis'' ''tickColor'' tickColor o4 = Some o5"
    "default2 ''grid'' ''borderColor'' color o5 = Some o6" "default2 ''grid'' ''tickColor'' (faded ns color) o6 = Some v'"
    using assms by (auto simp: colors_filled_def bind_eq_Some_conv)
  note f = default2_field [OF o'(2)] default2_field [OF o'(3)] default2_field [OF o'(5)] default2_field [OF o'(6)] default2_field [OF o'(7)] default2_field [OF o'(8)]
  have "color = field ''color'' (field ''grid'' v)" "tickColor = field ''tickColor'' (field ''grid'' o3)"
    using o'(1,4) by (auto simp: member2_def member_of_def split: if_splits)
  then show "sec \<in> {''xaxis'', ''yaxis''} \<Longrightarrow> \<exists>c t. c = field ''color'' (field ''grid'' v) \<and> t = field ''tickColor'' (field ''grid'' v) \<and>
      (let a = field sec v; b = (if nullish (field ''color'' a) then put ''color'' c a else a)
       in field sec v' = (if nullish (field ''tickColor'' b) then put ''tickColor'' t b else b))"
    by (auto simp: f Let_def)
  show "s \<notin> {''xaxis'', ''yaxis'', ''grid''} \<Longrightarrow> field s v' = field s v" by (simp add: f)
qed

lemma parseOptions_axis:
  assumes "parseOptions ns options hooks opts = Some (o', xs, ys, hs)"
    and "(sec, lst, old, axs) \<in> {(''xaxis'', ''xaxes'', ''x2axis'', xs), (''yaxis'', ''yaxes'', ''y2axis'', ys)}"
    and "field lst (extend_deep options [opts]) = VArr vs" "i < length (if vs = [] then [VUndef] else vs)"
    and "i = 1 \<longrightarrow> \<not> truthy ns (field old (extend_deep options [opts]))"
  shows "\<exists>o2. colors_filled ns (extend_deep options [opts]) = Some o2 \<and> i < length axs
    \<and> axs ! i = extend_deep (VObj []) [field sec o2, (if vs = [] then [VUndef] else vs) ! i]"
proof -
  let ?o1 = "extend_deep options [opts]"
  let ?vs = "if vs = [] then [VUndef] else vs"
  obtain o2 o3 o4 where o': "colors_filled ns ?o1 = Some o2" "axes_options ''xaxis'' ''xaxes'' o2 = Some o3" "axes_options ''yaxis'' ''yaxes'' o3 = Some o4"
    "old_options ns o4 = Some o'" and axs: "xs = elements (field ''xaxes'' o')" "ys = elements (field ''yaxes'' o')"
    using assms(1) unfolding parseOptions_def by (auto simp: bind_eq_Some_conv)
  note c = colors_filled_field(1) [OF o'(1)] and x = axes_options_list [OF o'(2)] and y = axes_options_list [OF o'(3)]
  have lst: "lst \<in> {''xaxes'', ''yaxes''}" "axs = elements (field lst o')" using assms(2) axs by auto
  have "field lst o2 = VArr vs" using c [of lst] assms(3) lst by auto
  then have four: "field lst o4 = VArr (map (\<lambda>a. extend_deep (VObj []) [field sec o2, a]) ?vs)"
    using assms(2) x y by auto
  have old4: "field old o4 = field old ?o1"
  proof -
    have "field old o2 = field old ?o1" using c [of old] assms(2) by auto
    moreover have "field old o4 = field old o2" using assms(2) x y by auto
    ultimately show ?thesis by simp
  qed
  obtain w where w: "\<And>t. t \<notin> {''xaxis'', ''yaxis''} \<Longrightarrow> field t w = field t o4"
    "field lst o' = field lst (second_axis ns ''y2axis'' ''yaxis'' ''yaxes'' ''right'' (second_axis ns ''x2axis'' ''xaxis'' ''xaxes'' ''top'' w))"
    using old_options_field [OF o'(4), of lst] lst by auto
  let ?l = "map (\<lambda>a. extend_deep (VObj []) [field sec o2, a]) ?vs"
  have "\<exists>ws. field lst o' = VArr ws \<and> i < length ws \<and> ws ! i = ?l ! i"
  proof (cases "lst = ''xaxes''")
    case True
    then have d: "sec = ''xaxis''" "old = ''x2axis''" using assms(2) by auto
    have "field lst w = VArr ?l" "field old w = field old ?o1" using w(1) [of lst] w(1) [of old] four old4 True d by simp_all
    then show ?thesis
      using second_axis_nth [of "''xaxes''" w ?l i ns "''x2axis''" "''xaxis''" "''top''"] assms(4,5) True d w(2) by (simp add: second_axis_field)
  next
    case False
    then have d: "sec = ''yaxis''" "old = ''y2axis''" "lst = ''yaxes''" using assms(2) by auto
    let ?u = "second_axis ns ''x2axis'' ''xaxis'' ''xaxes'' ''top'' w"
    have "field lst ?u = VArr ?l" "field old ?u = field old ?o1" using w(1) [of lst] w(1) [of old] four old4 d by (simp_all add: second_axis_field)
    then show ?thesis using second_axis_nth [of "''yaxes''" ?u ?l i ns "''y2axis''" "''yaxis''" "''right''"] assms(4,5) d w(2) by simp
  qed
  then show ?thesis using o'(1) lst(2) assms(4) by (auto simp: elements_def)
qed

lemma keys_once_merge:
  "keys_once s \<Longrightarrow> keys_once c \<Longrightarrow> keys_once (merge_val s c)"
  "keys_once (VObj ts) \<Longrightarrow> list_all (\<lambda>p. keys_once (snd p)) ps \<Longrightarrow> keys_once (VObj (merge_members ts ps))"
  "list_all keys_once us \<Longrightarrow> list_all keys_once vs \<Longrightarrow> list_all keys_once (merge_elements us vs)"
proof (induction s c and ts ps and us vs rule: merge_val_merge_members_merge_elements.induct)
  case (2 src ps)
  then show ?case by (cases src) (simp_all add: members_def)
next
  case (3 src vs)
  then show ?case by (cases src) (simp_all add: elements_def)
next
  case (6 ts k v ps)
  have "keys_once (lookup k ts)" using 6(3) keys_once_field [of "VObj ts" k] by (simp add: field_def)
  then have v: "keys_once (merge_val (lookup k ts) v)" if "v \<noteq> VUndef" using 6 that by simp
  have "set (set_key k x ts) \<subseteq> insert (k, x) (set ts)" for x by (induction k x ts rule: set_key.induct) auto
  then have "keys_once (VObj (set_key k x ts))" if "keys_once x" for x
    using 6(3) that by (fastforce simp: distinct_set_key list_all_iff)
  then show ?case using 6 v by simp
qed simp_all

lemma keys_once_extend: "keys_once t \<Longrightarrow> keys_once a \<Longrightarrow> keys_once (extend_deep t [a])"
  using keys_once_merge(1) [of t a] by (cases a; cases t) (simp_all add: extend_deep_def members_def)

lemma keys_once_put: "keys_once v \<Longrightarrow> keys_once x \<Longrightarrow> keys_once (put k x v)"
proof (cases v)
  case (VObj ps)
  assume "keys_once v" "keys_once x"
  moreover have "set (set_key k x ps) \<subseteq> insert (k, x) (set ps)" by (induction k x ps rule: set_key.induct) auto
  ultimately show ?thesis using VObj by (fastforce simp: put_def distinct_set_key list_all_iff)
qed (simp_all add: put_def)

section \<open>Which option counts\<close>

text \<open>What an axis without an option of its own gets: the option for all axes, and the colour of the grid where there is none.\<close>

definition common_option :: "string \<Rightarrow> string \<Rightarrow> val \<Rightarrow> val \<Rightarrow> val" where
  "common_option sec k options opts =
     (let u = given (field k (field sec options)) (field k (field sec opts))
      in if k = ''color'' \<and> nullish u then field ''color'' (field ''grid'' (extend_deep options [opts])) else u)"

lemma merged_section:
  assumes "options = VObj ts" "keys_once opts" "open_path [sec, k] opts" "leaf (field k (field sec opts))"
  shows "field k (field sec (extend_deep options [opts])) = given (field k (field sec options)) (field k (field sec opts))"
proof -
  have "field sec (extend_deep options [opts]) = merge_val (field sec options) (field sec opts)"
    unfolding assms(1) by (rule field_extend_one [OF assms(2)])
  moreover have "open_path [k] (field sec opts)" using assms(3) by (cases opts) (simp_all add: field_def [of sec VUndef])
  ultimately show ?thesis
    using field_merge_open [OF keys_once_field [OF assms(2)], of k sec "field sec options"] merge_leaf [OF assms(4)] by simp
qed

lemma filled_section:
  assumes "colors_filled ns o1 = Some o2" "sec \<in> {''xaxis'', ''yaxis''}" "k \<noteq> ''tickColor''" "field sec o1 = VObj ps" "keys_once o1"
  shows "field k (field sec o2) = (if k = ''color'' \<and> nullish (field k (field sec o1)) then field ''color'' (field ''grid'' o1) else field k (field sec o1))
    \<and> keys_once (field sec o2)"
proof -
  have kf: "keys_once (field l (field m o1))" "keys_once (field m o1)" for l m using assms(5) keys_once_field by blast+
  have put_obj: "field l' (put l x (VObj rs)) = (if l' = l then x else field l' (VObj rs))" "\<exists>qs. put l x (VObj rs) = VObj qs" for l l' x rs
    by (simp_all add: field_put) (simp add: put_def)
  define c where "c = field ''color'' (field ''grid'' o1)"
  define t where "t = field ''tickColor'' (field ''grid'' o1)"
  define b where "b = (if nullish (field ''color'' (VObj ps)) then put ''color'' c (VObj ps) else VObj ps)"
  have o2: "field sec o2 = (if nullish (field ''tickColor'' b) then put ''tickColor'' t b else b)"
    using colors_filled_field(2) [OF assms(1,2)] by (simp add: b_def c_def t_def assms(4) Let_def)
  have ct: "keys_once c" "keys_once t" "keys_once (VObj ps)" using kf kf(2) [of sec] by (simp_all add: c_def t_def assms(4))
  have b: "field k b = (if k = ''color'' \<and> nullish (field k (VObj ps)) then c else field k (VObj ps))" "keys_once b" "\<exists>qs. b = VObj qs"
    using put_obj ct by (auto simp: b_def keys_once_put)
  then obtain qs where "b = VObj qs" by blast
  then have "field k (put ''tickColor'' t b) = field k b" using put_obj(1) [of k "''tickColor''" t qs] assms(3) by simp
  then have "field k (field sec o2) = field k b" "keys_once (field sec o2)" using b(2) ct(2) by (simp_all add: o2 keys_once_put)
  then show ?thesis unfolding assms(4) b(1) c_def by (intro conjI) auto
qed

lemma own_option:
  assumes "keys_once a" "leaf (field k a)"
  shows "field k (merge_val VUndef a) = field k a"
proof (cases a)
  case (VObj ps)
  have "field k VUndef = VUndef" by (simp add: field_def)
  then show ?thesis using field_merge [OF assms(1), of k VUndef] merge_leaf [OF assms(2)] VObj by (simp add: given_def)
qed (simp_all add: field_def)


section \<open>Options that can be parsed\<close>

text \<open>Parsing does not fail as long as the groups of options that the code reads are objects and the lists of axes are arrays.\<close>

definition groups :: "string set" where
  "groups = {''xaxis'', ''yaxis'', ''grid'', ''series'', ''hooks''}"

definition groups_ok :: "val \<Rightarrow> bool" where
  "groups_ok v \<longleftrightarrow> (\<exists>ps. v = VObj ps) \<and> (\<forall>s \<in> groups. \<exists>qs. field s v = VObj qs)"

lemma put_group: "groups_ok v \<Longrightarrow> (s \<in> groups \<longrightarrow> (\<exists>qs. x = VObj qs)) \<Longrightarrow> groups_ok (put s x v)"
  by (auto simp: groups_ok_def field_put) (auto simp: put_def)

lemma group_not_nullish: "groups_ok v \<Longrightarrow> \<not> nullish v" "groups_ok v \<Longrightarrow> s \<in> groups \<Longrightarrow> \<not> nullish (field s v)"
  by (auto simp: groups_ok_def nullish_def)

lemma member2_ok: "groups_ok v \<Longrightarrow> s \<in> groups \<Longrightarrow> member2 s k v = Some (field k (field s v))"
  by (simp add: member2_def member_of_def group_not_nullish)

lemma put2_ok:
  assumes "groups_ok v" "s \<in> groups"
  shows "\<exists>v'. put2 s k x v = Some v' \<and> groups_ok v'"
proof -
  obtain qs where "field s v = VObj qs" using assms by (auto simp: groups_ok_def)
  then have "groups_ok (put s (put k x (field s v)) v)" by (intro put_group [OF assms(1)]) (simp add: put_def)
  then show ?thesis using assms by (simp add: put2_def member_of_def group_not_nullish)
qed

lemma default2_ok: "groups_ok v \<Longrightarrow> s \<in> groups \<Longrightarrow> \<exists>v'. default2 s k x v = Some v' \<and> groups_ok v'"
  using put2_ok [of v s k x] by (auto simp: default2_def member2_ok)

lemma noTicks_ok: "groups_ok v \<Longrightarrow> s \<in> groups \<Longrightarrow> \<exists>v'. noTicks_option ns s v = Some v' \<and> groups_ok v'"
  using default2_ok [of v s "''ticks''" "field ''noTicks'' (field s v)"] by (auto simp: noTicks_option_def member2_ok)

lemma second_axis_ok: "groups_ok v \<Longrightarrow> lst \<notin> groups \<Longrightarrow> groups_ok (second_axis ns old sec lst pos v)"
  by (simp add: second_axis_def Let_def put_group)

lemma merge_group_ok:
  assumes "groups_ok v"
  shows "\<exists>v'. merge_group ns k v = Some v' \<and> groups_ok v'"
proof -
  have "''series'' \<in> groups" by (simp add: groups_def)
  from put2_ok [OF assms this] have "\<exists>v'. (case w of VObj _ \<Rightarrow> put2 ''series'' k x v | _ \<Rightarrow> Some v) = Some v' \<and> groups_ok v'" for w x
    using assms by (cases w) auto
  then show ?thesis using assms \<open>''series'' \<in> groups\<close> by (simp add: merge_group_def member2_ok)
qed

lemma axes_options_ok:
  assumes "groups_ok v" "sec \<in> groups" "lst \<notin> groups" "field lst v = VArr vs"
  shows "\<exists>v'. axes_options sec lst v = Some v' \<and> groups_ok v'"
  using assms put_group [OF assms(1)] by (simp add: axes_options_def member_of_def group_not_nullish)

lemma colors_filled_ok:
  assumes "groups_ok v"
  shows "\<exists>v'. colors_filled ns v = Some v' \<and> groups_ok v'"
proof -
  have s: "''xaxis'' \<in> groups" "''yaxis'' \<in> groups" "''grid'' \<in> groups" by (simp_all add: groups_def)
  define c where "c = field ''color'' (field ''grid'' v)"
  obtain o2 where 2: "default2 ''xaxis'' ''color'' c v = Some o2" "groups_ok o2" using default2_ok [OF assms s(1)] by blast
  obtain o3 where 3: "default2 ''yaxis'' ''color'' c o2 = Some o3" "groups_ok o3" using default2_ok [OF 2(2) s(2)] by blast
  define t where "t = field ''tickColor'' (field ''grid'' o3)"
  obtain o4 where 4: "default2 ''xaxis'' ''tickColor'' t o3 = Some o4" "groups_ok o4" using default2_ok [OF 3(2) s(1)] by blast
  obtain o5 where 5: "default2 ''yaxis'' ''tickColor'' t o4 = Some o5" "groups_ok o5" using default2_ok [OF 4(2) s(2)] by blast
  obtain o6 where 6: "default2 ''grid'' ''borderColor'' c o5 = Some o6" "groups_ok o6" using default2_ok [OF 5(2) s(3)] by blast
  obtain o7 where "default2 ''grid'' ''tickColor'' (faded ns c) o6 = Some o7" "groups_ok o7" using default2_ok [OF 6(2) s(3)] by blast
  then show ?thesis using 2 3 4 5 6 s assms by (simp add: colors_filled_def member2_ok c_def t_def)
qed

lemma old_options_ok:
  assumes "groups_ok v"
  shows "\<exists>v'. old_options ns v = Some v' \<and> groups_ok v'"
proof -
  have s: "''xaxis'' \<in> groups" "''yaxis'' \<in> groups" "''grid'' \<in> groups" "''series'' \<in> groups" "''xaxes'' \<notin> groups" "''yaxes'' \<notin> groups"
    by (simp_all add: groups_def)
  obtain o2 where 2: "noTicks_option ns ''xaxis'' v = Some o2" "groups_ok o2" using noTicks_ok [OF assms s(1)] by blast
  obtain o3 where 3: "noTicks_option ns ''yaxis'' o2 = Some o3" "groups_ok o3" using noTicks_ok [OF 2(2) s(2)] by blast
  define o5 where "o5 = second_axis ns ''y2axis'' ''yaxis'' ''yaxes'' ''right'' (second_axis ns ''x2axis'' ''xaxis'' ''xaxes'' ''top'' o3)"
  have 5: "groups_ok o5" using 3(2) s(5,6) by (simp add: o5_def second_axis_ok)
  have put_if: "\<exists>w'. (if c then put2 g k x w else Some w) = Some w' \<and> groups_ok w'" if "groups_ok w" "g \<in> groups" for c g k x w
    using put2_ok [OF that] that(1) by auto
  obtain o6 where 6: "(if truthy ns (field ''coloredAreas'' (field ''grid'' o5)) then put2 ''grid'' ''markings'' (field ''coloredAreas'' (field ''grid'' o5)) o5
    else Some o5) = Some o6" "groups_ok o6" using put_if [OF 5 s(3)] by blast
  obtain o7 where 7: "(if truthy ns (field ''coloredAreasColor'' (field ''grid'' o6))
    then put2 ''grid'' ''markingsColor'' (field ''coloredAreasColor'' (field ''grid'' o6)) o6 else Some o6) = Some o7" "groups_ok o7"
    using put_if [OF 6(2) s(3)] by blast
  obtain o8 where 8: "merge_group ns ''lines'' o7 = Some o8" "groups_ok o8" using merge_group_ok [OF 7(2)] by blast
  obtain o9 where 9: "merge_group ns ''points'' o8 = Some o9" "groups_ok o9" using merge_group_ok [OF 8(2)] by blast
  obtain o10 where 10: "merge_group ns ''bars'' o9 = Some o10" "groups_ok o10" using merge_group_ok [OF 9(2)] by blast
  obtain o11 where 11: "put2 ''series'' ''shadowSize'' (field ''shadowSize'' o10) o10 = Some o11" "groups_ok o11" using put2_ok [OF 10(2) s(4)] by blast
  show ?thesis
    using 2 3 6(1) 7(1) 8 9 10 11 member2_ok [OF 5 s(3)] member2_ok [OF 6(2) s(3)]
    by (auto simp: old_options_def Let_def o5_def [symmetric])
qed

lemma parseOptions_defined:
  assumes "groups_ok (extend_deep options [opts])" "field ''xaxes'' (extend_deep options [opts]) = VArr vs" "field ''yaxes'' (extend_deep options [opts]) = VArr us"
  shows "\<exists>o' xs ys hs. parseOptions ns options hooks opts = Some (o', xs, ys, hs)"
proof -
  have s: "''xaxis'' \<in> groups" "''yaxis'' \<in> groups" "''hooks'' \<in> groups" "''xaxes'' \<notin> groups" "''yaxes'' \<notin> groups"
    by (simp_all add: groups_def)
  obtain o2 where 2: "colors_filled ns (extend_deep options [opts]) = Some o2" "groups_ok o2" using colors_filled_ok [OF assms(1)] by blast
  have l: "field ''xaxes'' o2 = VArr vs" "field ''yaxes'' o2 = VArr us" using colors_filled_field(1) [OF 2(1)] assms(2,3) by simp_all
  obtain o3 where 3: "axes_options ''xaxis'' ''xaxes'' o2 = Some o3" "groups_ok o3" using axes_options_ok [OF 2(2) s(1,4) l(1)] by blast
  have "field ''yaxes'' o3 = VArr us" using axes_options_list [OF 3(1)] l(2) by auto
  then obtain o4 where 4: "axes_options ''yaxis'' ''yaxes'' o3 = Some o4" "groups_ok o4" using axes_options_ok [OF 3(2) s(2,5)] by blast
  obtain o5 where 5: "old_options ns o4 = Some o5" "groups_ok o5" using old_options_ok [OF 4(2)] by blast
  then have "\<exists>hs. add_hooks o5 hooks = Some hs"
    using s(3) by (simp add: add_hooks_def member_of_def group_not_nullish)
  then show ?thesis using 2 3 4 5 by (auto simp: parseOptions_def)
qed

text \<open>The defaults with any user options whose groups are objects.\<close>

definition demo_user :: val where
  "demo_user = VObj [(''xaxis'', VObj [(''min'', VNum 1)]), (''xaxes'', VArr [VObj [], VObj [(''min'', VNum 5)]])]"

lemma default_groups: "keys_once default_options" "keys_once demo_user"
  by (simp_all add: default_options_def default_xaxis_def default_series_def demo_user_def str_def)

lemma default_fields:
  "field ''xaxis'' default_options = default_xaxis" "\<exists>ps. default_xaxis = VObj ps" "field ''min'' default_xaxis = VNull" "\<exists>ps. default_options = VObj ps"
  "field ''xaxes'' default_options = VArr []" "field ''yaxes'' default_options = VArr []" "\<forall>s \<in> groups. \<exists>qs. field s default_options = VObj qs"
  "field ''x2axis'' default_options = VUndef"
  by (simp_all add: default_options_def default_xaxis_def default_series_def field_def lookup_def groups_def)

lemma demo_fields:
  "field ''xaxis'' demo_user = VObj [(''min'', VNum 1)]" "field ''min'' (VObj [(''min'', VNum 1)]) = VNum 1"
  "field ''xaxes'' demo_user = VArr [VObj [], VObj [(''min'', VNum 5)]]" "s \<in> {''yaxis'', ''yaxes'', ''grid'', ''series'', ''hooks'', ''x2axis''} \<Longrightarrow> field s demo_user = VUndef"
  by (auto simp: demo_user_def field_def lookup_def)

lemma demo_parse: "\<exists>o' xs ys hs. parseOptions ns default_options [] demo_user = Some (o', xs, ys, hs)"
proof -
  obtain ts where ts: "default_options = VObj ts" using default_fields(4) by blast
  have f: "field k (extend_deep default_options [demo_user]) = merge_val (field k default_options) (field k demo_user)" for k
    using field_extend_one [OF default_groups(2), of k ts] by (simp add: ts)
  have "\<exists>qs. field s (extend_deep default_options [demo_user]) = VObj qs" if s: "s \<in> groups" for s
  proof -
    obtain qs where qs: "field s default_options = VObj qs" using default_fields(7) s by blast
    consider "field s demo_user = VObj [(''min'', VNum 1)]" | "field s demo_user = VUndef"
      using s demo_fields(1) demo_fields(4) [of s] unfolding groups_def by blast
    then show ?thesis by cases (simp_all add: f qs)
  qed
  then have "groups_ok (extend_deep default_options [demo_user])" by (simp add: groups_ok_def ts extend_one)
  then show ?thesis
    by (rule parseOptions_defined [where vs = "[VObj [], VObj [(''min'', VNum 5)]]" and us = "[]"])
      (simp_all add: f demo_fields default_fields elements_def members_def lookup_def)
qed


text \<open>
  Ticks given in the old way come too late for the first axis: they are put into the options for all axes after these have been copied.
\<close>

lemma noTicks_too_late:
  assumes "old_options ns v = Some v'" "field ''xaxes'' v = VArr vs" "vs \<noteq> []"
  shows "\<exists>us. field ''xaxes'' v' = VArr us \<and> us ! 0 = vs ! 0"
proof -
  have n: "''xaxes'' \<notin> {''series'', ''grid'', ''xaxis'', ''yaxis''}" by simp
  obtain w where w: "\<forall>t. t \<notin> {''xaxis'', ''yaxis''} \<longrightarrow> field t w = field t v"
    "field ''xaxes'' v' = field ''xaxes'' (second_axis ns ''y2axis'' ''yaxis'' ''yaxes'' ''right'' (second_axis ns ''x2axis'' ''xaxis'' ''xaxes'' ''top'' w))"
    using old_options_field [OF assms(1) n] by (elim exE conjE)
  have x: "field ''xaxes'' w = VArr vs" "0 < length vs" "(0::nat) = 1 \<longrightarrow> \<not> truthy ns (field ''x2axis'' w)" using w(1) assms(2,3) by simp_all
  obtain us where us: "field ''xaxes'' (second_axis ns ''x2axis'' ''xaxis'' ''xaxes'' ''top'' w) = VArr us" "us ! 0 = vs ! 0"
    using second_axis_nth [OF x, of "''xaxis''" "''top''"] by blast
  have ne: "''xaxes'' \<noteq> ''yaxes''" by simp
  have "field ''xaxes'' v' = VArr us" unfolding w(2) second_axis_field [OF ne] by (rule us(1))
  then show ?thesis using us(2) by blast
qed

end
