(* ===== verification/Spec2Isabelle.thy ===== *)
theory Spec2Isabelle
  imports Dashboard Stack_Plugin FillBetween_Plugin Threshold_Plugin Symbol_Plugin Highlights Crosshair Navigate Image_Plugin Pie Page_Plot Lifecycle Parse_Options
begin

text \<open>
  Verification of the scripts of open-instrument.

  The program. open-instrument stores time series; its web page asks a store for streams of values
  and draws them. The scripts under \<open>src/static\<close> are the client of the store and helpers for durations
  and variable names (\<open>openinstrument.js\<close>), the page itself with its zoom stack, selectors and polling
  (\<open>test.js\<close>), and the plotting library the page draws with (\<open>flot/jquery.flot.js\<close> with its colour
  helpers and plugins). The page calls the client and the plotting library; the plotting library
  calls its plugins through hooks on the series, the data points, the drawing and the events.

  The theories, from the bottom up. Definitions have the names of the functions they model.

  \<^item> \<open>JS_Prelude\<close>: what the scripts use of the language. Numbers with infinities and NaN, reading and writing of numbers as text, splitting,
    text in pieces, reads of arrays out of range, objects as association lists; two lemmas on invariants of loops (\<open>fold_keeps\<close>, \<open>fold_reaches\<close>).
  \<^item> \<open>Store_Client\<close> (\<open>openinstrument.js\<close>): requests and the callbacks they lead to, durations, variable names. \<open>Dashboard\<close> (\<open>test.js\<close>):
    the globals of the page, the document, timers and open requests as one record, and a step per event. \<open>Page_Plot\<close>: the options with which the page
    calls \<open>$.plot\<close>, and that everything it plots is drawn.
  \<^item> \<open>Color\<close> (\<open>jquery.colorhelpers.js\<close>); \<open>Canvas\<close>: a drawing is the list of calls on the drawing context, with the lemmas on saved states
    (\<open>balanced\<close>) and on the vertices of a path.
  \<^item> Options: \<open>Option_Trees\<close> has the objects and \<open>$.extend(true, ..)\<close> (\<open>jquery.js\<close>), \<open>Parse_Options\<close> the defaults, \<open>parseOptions\<close> and
    \<open>parseData\<close>. Later theories take the options as records (\<open>axis_options\<close> in \<open>Axis\<close>, \<open>series\<close> in \<open>Plot_Series\<close>, the grid and the legend in
    \<open>Plot_Options\<close>) which stand for such objects after parsing.
  \<^item> Data: \<open>Axis\<close> (numbering, \<open>setRange\<close>, the coordinate maps, positions of the mouse), \<open>Plot_Series\<close> (\<open>fillInSeriesOptions\<close> with the
    palette), \<open>Datapoints\<close> (\<open>processData\<close>: both passes over the points, with hooks). \<open>Merge\<close> is the loop that the stack and fill-between plugins
    share, \<open>Stack_Plugin\<close>, \<open>FillBetween_Plugin\<close> and \<open>Threshold_Plugin\<close> are the plugins on the data.
  \<^item> Drawing of series: \<open>Lines\<close>, \<open>Areas\<close>, \<open>Shapes\<close> (points, bars, shadows and \<open>drawSeries\<close>), \<open>Symbol_Plugin\<close>.
  \<^item> Axes and layout: \<open>Ticks\<close>, \<open>Dates\<close>, \<open>Time_Ticks\<close>, \<open>Tick_Setup\<close> (sizes, generators and labels of ticks), \<open>Labels\<close> (markup of labels and
    legend), \<open>Layout\<close> (\<open>setupGrid\<close>), \<open>Grid\<close> (\<open>draw\<close>, markings, ticks), \<open>Relayout\<close> (a second layout after the ranges have changed).
  \<^item> Interaction: \<open>Nearby\<close> (\<open>findNearbyItem\<close>), \<open>Highlights\<close> (highlights, the overlay and its timer), \<open>Selection\<close>, \<open>Crosshair\<close> and \<open>Navigate\<close>
    (the plugins of the same names), \<open>Image_Plugin\<close>, \<open>Pie\<close>.
  \<^item> The whole plot: \<open>Plot_Object\<close> (the constructor from the data to the first drawing) and \<open>Lifecycle\<close> (the placeholder with its canvases,
    handlers and timer while plots are made in it, with the resize plugin).

  State. Code that changes objects in place is modelled by functions from the old to the new record; arrays of axes and series are lists, and an axis is
  named by its direction and number. A handler is one step; what the user, the browser and the server do is a list of events (\<open>run\<close>,
  \<open>sel_run\<close>, \<open>cross_run\<close>, \<open>drag_run\<close>) or an inductive relation (\<open>interaction\<close>, \<open>happens\<close>). An exception is \<open>None\<close>, or a value of its own where the
  code goes on after it (\<open>exn\<close>, \<open>plot_error\<close>).

  Interfaces. \<open>coordinate_map\<close> and \<open>affine_map\<close> (\<open>Coordinates\<close>) are what clients rely on in an axis; \<open>Axis\<close> provides them. \<open>half_plane\<close>
  (\<open>Lines\<close>) is the contract of one clipping step, provided by the four sides. \<open>datapoint_hook\<close> (\<open>Merge\<close>) is what \<open>processData\<close> expects of a
  plugin, provided by the stack and the fill-between plugin. \<open>mark_store\<close> (\<open>Highlights\<close>) is the abstract store of highlights, a map from
  items to marks, which the list of highlights refines. \<open>axis_change\<close> (\<open>Plot_Object\<close>) is a relation that single steps of the layout keep and therefore the loops.

  What the lemmas show. For each component an invariant and that every operation keeps it (\<open>poll_inv\<close>, \<open>page_fine\<close>, \<open>overlay_ok\<close>, \<open>holder_ok\<close>, \<open>axes_ok\<close>,
  \<open>proper_extents\<close>, \<open>points_ok\<close>, \<open>offsets_ok\<close>); that loops end; what an operation computes, mostly against a reference that is simpler
  than the code: curves for merging, the polyline inside the ranges for clipping, the nearest point for hovering, the visible pixels for markings. Small lemmas
  at the end of a theory are counterexamples: inputs on which the code does what a comment or its purpose excludes (such as
  \<open>impatient_polls_twice\<close>, \<open>half_year_stuck\<close>, \<open>cleared_selection_is_read\<close>, \<open>second_draw_is_empty\<close>, \<open>noTicks_too_late\<close>, \<open>lost_overlay\<close>).

  Numbers. A double is a real number, or \<open>jsnum\<close> where infinities and NaN reach the code; 53 bits of precision, the sign of zero and the largest date
  are not modelled, except for the value that the code uses for infinity in the arrays (\<open>fakeInfinity\<close>). Numbers in texts
  are kept apart as pieces (\<open>V\<close>), so that text is read back without a model of the shortest decimal form; functions that need the digits take
  them as an argument (\<open>ns\<close>). What the browser measures (\<open>page\<close>, \<open>pie_env\<close>) and the colour it computes (\<open>computed\<close>) are arguments too.

  Loops. Structural recursion or folds where the code runs over an array. \<open>decimal_loop\<close> and \<open>time_loop\<close> add a step to a number and may stand still: they are
  partial functions, and \<open>decimal_ticks_cover\<close>, \<open>time_loop_ticks\<close> and \<open>time_ticks_returns\<close> show that they end. The loops over arrays that plugins may
  extend, and the merging loops, have fuel: \<open>hook_loop\<close> needs one unit for each series that it visits, as \<open>hook_loop_total\<close> shows, and \<open>merged_total\<close> and
  \<open>area_returns\<close> show that the fuel that the model gives is enough: the length of both arrays together for merging, four times the cells and 20 more for
  the walk around an area, which goes up and down the points once.

  Not modelled. Of jQuery (\<open>jquery.js\<close>) only \<open>jQuery.extend\<close>: the rest is third-party code, as are \<open>excanvas.js\<close> (a canvas for an old browser), the
  libraries for mouse and resize events at the head of the navigation and resize plugins, and the minified copies. Accessors of the plot that return a
  variable, the calls of \<open>init\<close> of the plugins and the binding and unbinding of their handlers (their effect on the list of
  handlers is in \<open>Lifecycle\<close>), debugging functions of the pie plugin, hooks that change the options while they are processed or the plot while it is drawn.
  Two plots on a page that share the globals which the code declares by mistake. The protocol-buffer messages are arguments. The server, the store
  library, the Go server and the tools are programs of their own in other languages.
\<close>

end
